(* ===== verification/Sponge_Prelude.thy ===== *)
theory Sponge_Prelude
  imports Main "HOL-Library.Word"
begin

text \<open>
  Shared vocabulary of the development: the machine types of the C++ sources, the lemma
  collections, generic facts on words and lists, and the two generic interfaces the
  components use (a state machine with a guarded invariant, and a bounded byte channel).

  On the platform of the sources \<open>size_t\<close> and \<open>uint64_t\<close> are 64 bits wide and
  \<open>std::string\<close> holds bytes; a string is a list of 8-bit words and its \<open>size()\<close>
  is the 64-bit word \<open>str_size\<close>.
\<close>

unbundle bit_operations_syntax

type_synonym u8 = "8 word"
type_synonym u16 = "16 word"
type_synonym u32 = "32 word"
type_synonym u64 = "64 word"
type_synonym bytes = "u8 list"

abbreviation two64 :: nat where
  "two64 \<equiv> 18446744073709551616"

abbreviation two32 :: nat where
  "two32 \<equiv> 4294967296"

definition str_size :: "bytes \<Rightarrow> u64" where
  "str_size s = of_nat (length s)"

section \<open>Lemma collections\<close>

named_theorems unat_simps "reading 64-bit arithmetic as arithmetic on natural numbers"
named_theorems frame_simps "fields an operation leaves alone"

section \<open>Words read as natural numbers\<close>

lemma unat_u64_less: "unat (w :: u64) < two64"
  using unsigned_less [of w, where 'a = nat] by simp

lemma unat_u32_less: "unat (w :: u32) < two32"
  using unsigned_less [of w, where 'a = nat] by simp

lemma unat_u16_less: "unat (w :: u16) < 65536"
  using unsigned_less [of w, where 'a = nat] by simp

lemma unat_u8_less: "unat (w :: u8) < 256"
  using unsigned_less [of w, where 'a = nat] by simp

lemma unat_of_nat_u64 [unat_simps]:
  "n < two64 \<Longrightarrow> unat (of_nat n :: u64) = n"
  by (simp add: unat_of_nat)

lemma unat_of_nat_u64_le [unat_simps]:
  "n \<le> unat (w :: u64) \<Longrightarrow> unat (of_nat n :: u64) = n"
  using unat_u64_less [of w] by (simp add: unat_of_nat)

lemma unat_add_u64 [unat_simps]:
  "unat a + unat b < two64 \<Longrightarrow> unat (a + b :: u64) = unat a + unat b"
  by (simp add: unat_word_ariths)

lemma unat_sub_u64 [unat_simps]:
  "unat b \<le> unat a \<Longrightarrow> unat (a - b :: u64) = unat a - unat b"
  by (simp add: unat_sub word_le_nat_alt)

lemma unat_sub_wrap_u64:
  "unat a < unat b \<Longrightarrow> unat (a - b :: u64) = two64 + unat a - unat b"
  by (simp add: unat_sub_if_size word_le_nat_alt word_size)

lemma unat_str_size [unat_simps]:
  "length s < two64 \<Longrightarrow> unat (str_size s) = length s"
  by (simp add: str_size_def unat_simps)

lemma str_size_append: "str_size (s @ t) = str_size s + str_size t"
  by (simp add: str_size_def)

lemma str_size_Nil [simp]: "str_size [] = 0"
  by (simp add: str_size_def)

lemma str_size_eq_0_iff: "length s < two64 \<Longrightarrow> str_size s = 0 \<longleftrightarrow> s = []"
  by (metis length_0_conv str_size_Nil unat_0 unat_str_size)

lemma u64_pos_iff: "(0 :: u64) < w \<longleftrightarrow> 0 < unat w"
  by (simp add: word_less_nat_alt)

section \<open>Lists\<close>

lemma take_take_append_drop:
  "take n xs @ take m (drop n xs) = take (n + m) xs"
  by (simp add: take_add)

text \<open>Updating one entry of a list of flags changes the number of set flags accordingly.\<close>

lemma length_filter_id_update:
  "b < length xs \<Longrightarrow>
   length (filter id (xs[b := v])) + of_bool (xs ! b) = length (filter id xs) + of_bool v"
proof (induction xs arbitrary: b)
  case Nil
  then show ?case by simp
next
  case (Cons x xs)
  show ?case
  proof (cases b)
    case 0
    then show ?thesis by (cases x; cases v) simp_all
  next
    case (Suc k)
    with Cons show ?thesis by (cases x) simp_all
  qed
qed

lemma length_filter_id_zero: "length (filter id xs) = 0 \<longleftrightarrow> (\<forall>b < length xs. \<not> xs ! b)"
  by (auto simp: filter_empty_conv set_conv_nth)

text \<open>\<open>data\<close> is what the string \<open>S\<close> has from position \<open>index\<close> on.\<close>

definition slice_of :: "bytes \<Rightarrow> bytes \<Rightarrow> nat \<Rightarrow> bool" where
  "slice_of S data index \<longleftrightarrow> index + length data \<le> length S \<and> take (length data) (drop index S) = data"

lemma slice_of_nth: "slice_of S data i \<Longrightarrow> j < length data \<Longrightarrow> data ! j = S ! (i + j)"
  unfolding slice_of_def by (metis add_leD1 nth_drop nth_take)

lemma slice_of_append: "slice_of S data i \<Longrightarrow> slice_of (S @ T) data i"
  by (auto simp: slice_of_def)

lemma slice_of_Nil [simp]: "slice_of S [] i \<longleftrightarrow> i \<le> length S"
  by (simp add: slice_of_def)

text \<open>Positions on a ring of \<open>c\<close> slots, counted from slot \<open>s\<close>.\<close>

lemma ring_slot: "(s :: nat) < c \<Longrightarrow> k < c \<Longrightarrow> (s + k) mod c = (if s + k < c then s + k else s + k - c)"
  by (simp add: mod_if)

lemma ring_slot_inj: "(s :: nat) < c \<Longrightarrow> j < c \<Longrightarrow> k < c \<Longrightarrow> (s + j) mod c = (s + k) mod c \<Longrightarrow> j = k"
  by (auto simp: ring_slot split: if_splits)

section \<open>A state machine with a guarded invariant\<close>

text \<open>
  Most components keep an invariant under each operation whose precondition holds. The
  locale lifts that one-step fact to every run: \<open>guarded\<close> says the precondition holds
  before each operation of a sequence.
\<close>

fun guarded :: "('s \<Rightarrow> 'o \<Rightarrow> 's) \<Rightarrow> ('s \<Rightarrow> 'o \<Rightarrow> bool) \<Rightarrow> 's \<Rightarrow> 'o list \<Rightarrow> bool" where
  "guarded step ok s [] = True"
| "guarded step ok s (x # xs) = (ok s x \<and> guarded step ok (step s x) xs)"

lemma guarded_mono: "guarded step ok s xs \<Longrightarrow> (\<And>s x. ok s x \<Longrightarrow> ok' s x) \<Longrightarrow> guarded step ok' s xs"
  by (induction xs arbitrary: s) auto

text \<open>Some operation of a sequence satisfies the predicate in the state it meets.\<close>

fun happens :: "('s \<Rightarrow> 'o \<Rightarrow> 's) \<Rightarrow> ('s \<Rightarrow> 'o \<Rightarrow> bool) \<Rightarrow> 's \<Rightarrow> 'o list \<Rightarrow> bool" where
  "happens step P s [] = False"
| "happens step P s (x # xs) = (P s x \<or> happens step P (step s x) xs)"

locale guarded_machine =
  fixes step :: "'s \<Rightarrow> 'o \<Rightarrow> 's"
    and ok :: "'s \<Rightarrow> 'o \<Rightarrow> bool"
    and inv :: "'s \<Rightarrow> bool"
  assumes step_inv: "inv s \<Longrightarrow> ok s x \<Longrightarrow> inv (step s x)"
begin

lemma run_inv: "inv s \<Longrightarrow> guarded step ok s xs \<Longrightarrow> inv (foldl step s xs)"
  by (induction xs arbitrary: s) (auto intro: step_inv)

lemma run_measure_mono:
  assumes "\<And>s x. inv s \<Longrightarrow> ok s x \<Longrightarrow> (m s :: 'm :: preorder) \<le> m (step s x)"
    and "inv s" and "guarded step ok s xs"
  shows "m s \<le> m (foldl step s xs)"
  using assms(2,3)
proof (induction xs arbitrary: s)
  case Nil
  then show ?case by simp
next
  case (Cons x xs)
  then have "m s \<le> m (step s x)" and "m (step s x) \<le> m (foldl step (step s x) xs)"
    using assms(1) step_inv by auto
  then show ?case
    by simp (rule order_trans)
qed

end

section \<open>A bounded byte channel\<close>

text \<open>
  What the reassembler and the sender rely on of a byte stream: \<open>write\<close> accepts as much
  as there is room for and says how much, \<open>peek\<close> and \<open>pop\<close> work on the front, and the
  control operations leave the bytes alone.
\<close>

datatype 'c chan_op = Put bytes | Take u64 | Ctl 'c

fun chan_run ::
  "('s \<Rightarrow> bytes \<Rightarrow> 's \<times> u64) \<Rightarrow> ('s \<Rightarrow> u64 \<Rightarrow> bytes) \<Rightarrow> ('s \<Rightarrow> u64 \<Rightarrow> 's) \<Rightarrow> ('s \<Rightarrow> 'c \<Rightarrow> 's) \<Rightarrow>
   's \<Rightarrow> 'c chan_op list \<Rightarrow> bytes \<times> bytes \<times> 's" where
  "chan_run wr pk pp ct s [] = ([], [], s)"
| "chan_run wr pk pp ct s (Put d # xs) =
     (let (s', n) = wr s d; (acc, got, t) = chan_run wr pk pp ct s' xs
      in (take (unat n) d @ acc, got, t))"
| "chan_run wr pk pp ct s (Take n # xs) =
     (let (acc, got, t) = chan_run wr pk pp ct (pp s n) xs
      in (acc, pk s n @ got, t))"
| "chan_run wr pk pp ct s (Ctl c # xs) = chan_run wr pk pp ct (ct s c) xs"

locale byte_channel =
  fixes put :: "'s \<Rightarrow> bytes \<Rightarrow> 's \<times> u64"
    and peek :: "'s \<Rightarrow> u64 \<Rightarrow> bytes"
    and pop :: "'s \<Rightarrow> u64 \<Rightarrow> 's"
    and control :: "'s \<Rightarrow> 'c \<Rightarrow> 's"
    and contents :: "'s \<Rightarrow> bytes"
    and room :: "'s \<Rightarrow> nat"
    and inv :: "'s \<Rightarrow> bool"
  assumes put_contents:
      "inv s \<Longrightarrow> length d < two64 \<Longrightarrow> contents (fst (put s d)) = contents s @ take (room s) d"
    and put_count:
      "inv s \<Longrightarrow> length d < two64 \<Longrightarrow> unat (snd (put s d)) = min (room s) (length d)"
    and put_room:
      "inv s \<Longrightarrow> length d < two64 \<Longrightarrow> room (fst (put s d)) = room s - length d"
    and put_inv: "inv s \<Longrightarrow> length d < two64 \<Longrightarrow> inv (fst (put s d))"
    and peek_contents: "inv s \<Longrightarrow> peek s n = take (unat n) (contents s)"
    and pop_contents: "inv s \<Longrightarrow> contents (pop s n) = drop (unat n) (contents s)"
    and pop_room: "inv s \<Longrightarrow> room (pop s n) = room s + min (unat n) (length (contents s))"
    and pop_inv: "inv s \<Longrightarrow> inv (pop s n)"
    and control_contents: "inv s \<Longrightarrow> contents (control s c) = contents s"
    and control_room: "inv s \<Longrightarrow> room (control s c) = room s"
    and control_inv: "inv s \<Longrightarrow> inv (control s c)"
begin

lemma put_all:
  "inv s \<Longrightarrow> length d < two64 \<Longrightarrow> length d \<le> room s \<Longrightarrow> contents (fst (put s d)) = contents s @ d"
  by (simp add: put_contents)

lemma fifo:
  assumes "inv s" and "\<And>d. Put d \<in> set xs \<Longrightarrow> length d < two64"
    and "chan_run put peek pop control s xs = (acc, got, t)"
  shows "contents s @ acc = got @ contents t \<and> inv t \<and>
    room t + length (contents t) = room s + length (contents s)"
  using assms
proof (induction xs arbitrary: s acc got)
  case Nil
  then show ?case by simp
next
  case (Cons x xs)
  show ?case
  proof (cases x)
    case (Put d)
    with Cons.prems(2) have d: "length d < two64" by simp
    from Cons.prems(3) Put obtain acc' where
      acc: "acc = take (min (room s) (length d)) d @ acc'" and
      run: "chan_run put peek pop control (fst (put s d)) xs = (acc', got, t)"
      using put_count [OF Cons.prems(1) d] by (auto split: prod.splits)
    from Cons.IH [OF put_inv [OF Cons.prems(1) d] _ run] Cons.prems(2) acc show ?thesis
      by (auto simp: put_contents put_room Cons.prems(1) d min_def)
  next
    case (Take n)
    with Cons.prems(3) obtain got' where
      got: "got = peek s n @ got'" and
      run: "chan_run put peek pop control (pop s n) xs = (acc, got', t)"
      by (auto split: prod.splits)
    from Cons.IH [OF pop_inv [OF Cons.prems(1)] _ run] Cons.prems(2)
    have IH: "drop (unat n) (contents s) @ acc = got' @ contents t" and t: "inv t"
      and r: "room t + length (contents t) = room s + length (contents s)"
      by (auto simp: pop_contents pop_room Cons.prems(1) min_def)
    have "contents s @ acc = take (unat n) (contents s) @ (drop (unat n) (contents s) @ acc)"
      by (metis append_assoc append_take_drop_id)
    with IH t r got show ?thesis
      by (simp add: peek_contents Cons.prems(1))
  next
    case (Ctl c)
    with Cons.prems Cons.IH [OF control_inv [OF Cons.prems(1)]] show ?thesis
      by (auto simp: control_contents control_room)
  qed
qed

end

end
