(* ===== verification/Net_Buffer.thy ===== *)
theory Net_Buffer
  imports Sponge_Prelude
begin

text \<open>
  The classes \<open>Buffer\<close>, \<open>BufferList\<close> and \<open>BufferViewList\<close> (src/libsponge/util/buffer.hh and .cc).
  A \<open>Buffer\<close> is a shared string and an offset; the lemmas of the first section show that it behaves
  as the string it exposes, and from there on a buffer or a string view is that string, and a list
  of buffers a list of strings.  C++ exceptions are values of the type \<open>exn\<close>.
\<close>

datatype exn = Out_Of_Range string | Runtime_Error string | Length_Error string | Unix_Error string int

section \<open>Buffer\<close>

record buffer =
  storage :: "bytes option"
  starting_offset :: u64

definition buffer_of :: "bytes \<Rightarrow> buffer" where
  "buffer_of s = \<lparr>storage = Some s, starting_offset = 0\<rparr>"

definition buffer_str :: "buffer \<Rightarrow> bytes" where
  "buffer_str b = (case storage b of None \<Rightarrow> [] | Some s \<Rightarrow> drop (unat (starting_offset b)) s)"

definition buffer_at :: "buffer \<Rightarrow> u64 \<Rightarrow> exn + u8" where
  "buffer_at b n =
     (if unat n < length (buffer_str b) then Inr (buffer_str b ! unat n)
      else Inl (Out_Of_Range ''basic_string_view::at''))"

definition buffer_size :: "buffer \<Rightarrow> u64" where
  "buffer_size b = str_size (buffer_str b)"

definition buffer_copy :: "buffer \<Rightarrow> bytes" where
  "buffer_copy b = buffer_str b"

definition buffer_remove_prefix :: "buffer \<Rightarrow> u64 \<Rightarrow> exn + buffer" where
  "buffer_remove_prefix b n =
     (if str_size (buffer_str b) < n then Inl (Out_Of_Range ''Buffer::remove_prefix'')
      else
        let offset = starting_offset b + n
        in Inr (case storage b of
                  Some s \<Rightarrow> if offset = str_size s then \<lparr>storage = None, starting_offset = offset\<rparr>
                            else \<lparr>storage = Some s, starting_offset = offset\<rparr>
                | None \<Rightarrow> \<lparr>storage = None, starting_offset = offset\<rparr>))"

text \<open>The offset never passes the end of the string.\<close>

definition buffer_wf :: "buffer \<Rightarrow> bool" where
  "buffer_wf b \<longleftrightarrow> (case storage b of None \<Rightarrow> True
     | Some s \<Rightarrow> unat (starting_offset b) \<le> length s \<and> length s < two64)"

lemma buffer_of_str: "length s < two64 \<Longrightarrow> buffer_wf (buffer_of s) \<and> buffer_str (buffer_of s) = s"
  by (simp add: buffer_wf_def buffer_of_def buffer_str_def)

lemma buffer_remove_prefix_eq:
  assumes "buffer_wf b"
  shows "case buffer_remove_prefix b n of
      Inl e \<Rightarrow> length (buffer_str b) < unat n
    | Inr c \<Rightarrow> unat n \<le> length (buffer_str b) \<and> buffer_wf c \<and> buffer_str c = drop (unat n) (buffer_str b)"
proof (cases "storage b")
  case None
  then show ?thesis
    by (auto simp: buffer_remove_prefix_def buffer_str_def buffer_wf_def word_less_nat_alt)
next
  case (Some s)
  let ?o = "unat (starting_offset b)"
  have o: "?o \<le> length s" "length s < two64" using assms Some by (simp_all add: buffer_wf_def)
  have sz: "unat (str_size (drop ?o s)) = length s - ?o" "unat (str_size s) = length s"
    using o by (simp_all add: unat_str_size)
  have add: "unat (starting_offset b + n) = ?o + unat n" if "unat n \<le> length s - ?o"
    using that o by (intro unat_add_u64) linarith
  show ?thesis
  proof (cases "unat n \<le> length s - ?o")
    case True
    note a = add [OF True]
    then have "starting_offset b + n = str_size s \<longleftrightarrow> ?o + unat n = length s"
      by (simp only: word_unat_eq_iff sz(2))
    with True o a show ?thesis
      by (auto simp: buffer_remove_prefix_def buffer_str_def buffer_wf_def Some word_less_nat_alt sz Let_def
          add.commute)
  next
    case False
    then show ?thesis using o by (simp add: buffer_remove_prefix_def buffer_str_def Some word_less_nat_alt sz)
  qed
qed

section \<open>BufferList\<close>

type_synonym buffer_list = "bytes list"

definition bl_of_string :: "bytes \<Rightarrow> buffer_list" where
  "bl_of_string s = [s]"

definition bl_append :: "buffer_list \<Rightarrow> buffer_list \<Rightarrow> buffer_list" where
  "bl_append bl other = foldl (\<lambda>acc buf. acc @ [buf]) bl other"

definition bl_to_buffer :: "buffer_list \<Rightarrow> exn + bytes" where
  "bl_to_buffer bl =
     (case bl of
        [] \<Rightarrow> Inr []
      | [b] \<Rightarrow> Inr b
      | _ \<Rightarrow> Inl (Runtime_Error ''BufferList: please use concatenate() to combine a multi-Buffer BufferList into one Buffer''))"

definition bl_concatenate :: "buffer_list \<Rightarrow> bytes" where
  "bl_concatenate bl = foldl (\<lambda>ret buf. ret @ buf) [] bl"

definition bl_size :: "buffer_list \<Rightarrow> u64" where
  "bl_size bl = foldl (\<lambda>ret buf. ret + str_size buf) 0 bl"

text \<open>The loop of \<open>remove_prefix\<close>; \<open>what\<close> is the text of the exception.\<close>

fun remove_prefix_loop :: "string \<Rightarrow> buffer_list \<Rightarrow> u64 \<Rightarrow> exn + buffer_list" where
  "remove_prefix_loop what [] n = (if 0 < n then Inl (Out_Of_Range what) else Inr [])"
| "remove_prefix_loop what (b # bs) n =
     (if 0 < n
      then (if n < str_size b then Inr (drop (unat n) b # bs)
            else remove_prefix_loop what bs (n - str_size b))
      else Inr (b # bs))"

definition bl_remove_prefix :: "buffer_list \<Rightarrow> u64 \<Rightarrow> exn + buffer_list" where
  "bl_remove_prefix bl n = remove_prefix_loop ''BufferList::remove_prefix'' bl n"

section \<open>BufferViewList\<close>

type_synonym buffer_view_list = "bytes list"

definition bvl_of_string :: "bytes \<Rightarrow> buffer_view_list" where
  "bvl_of_string s = [s]"

definition bvl_of_buffers :: "buffer_list \<Rightarrow> buffer_view_list" where
  "bvl_of_buffers bl = foldl (\<lambda>views x. views @ [x]) [] bl"

definition bvl_remove_prefix :: "buffer_view_list \<Rightarrow> u64 \<Rightarrow> exn + buffer_view_list" where
  "bvl_remove_prefix bl n = remove_prefix_loop ''BufferListView::remove_prefix'' bl n"

definition bvl_size :: "buffer_view_list \<Rightarrow> u64" where
  "bvl_size bl = foldl (\<lambda>ret buf. ret + str_size buf) 0 bl"

definition as_iovecs :: "buffer_view_list \<Rightarrow> (bytes \<times> u64) list" where
  "as_iovecs bl = foldl (\<lambda>ret x. ret @ [(x, str_size x)]) [] bl"

section \<open>A list of buffers is the concatenation of its strings\<close>

lemma foldl_snoc: "foldl (\<lambda>acc x. acc @ [f x]) xs ys = xs @ map f ys"
  by (induction ys arbitrary: xs) simp_all

lemma bl_append_eq: "bl_append bl other = bl @ other"
  using foldl_snoc [of "\<lambda>x. x"] by (simp add: bl_append_def)

lemma bvl_of_buffers_eq: "bvl_of_buffers bl = bl"
  using foldl_snoc [of "\<lambda>x. x" "[]" bl] by (simp add: bvl_of_buffers_def)

lemma foldl_append: "foldl (\<lambda>ret buf. ret @ buf) xs ys = xs @ concat ys"
  by (induction ys arbitrary: xs) simp_all

lemma bl_concatenate_eq: "bl_concatenate bl = concat bl"
  by (simp add: bl_concatenate_def foldl_append)

lemma foldl_str_size: "foldl (\<lambda>ret buf. ret + str_size buf) a ys = a + str_size (concat ys)"
  by (induction ys arbitrary: a) (simp_all add: str_size_append add.assoc)

lemma bl_size_eq: "bl_size bl = str_size (concat bl)"
  by (simp add: bl_size_def foldl_str_size)

lemma remove_prefix_loop_eq:
  assumes "length (concat bl) < two64"
  shows "case remove_prefix_loop what bl n of
      Inl e \<Rightarrow> e = Out_Of_Range what \<and> length (concat bl) < unat n
    | Inr bs \<Rightarrow> unat n \<le> length (concat bl) \<and> concat bs = drop (unat n) (concat bl)"
  using assms
proof (induction bl arbitrary: n)
  case Nil
  then show ?case by (simp add: u64_pos_iff unat_eq_0)
next
  case (Cons b bs)
  have sz: "unat (str_size b) = length b" using Cons.prems by (simp add: unat_str_size)
  show ?case
  proof (cases "0 < n \<and> \<not> n < str_size b")
    case True
    then have "unat (n - str_size b) = unat n - length b" "length b \<le> unat n"
      by (simp_all add: unat_sub_u64 word_less_nat_alt sz)
    with True Cons.IH [of "n - str_size b"] Cons.prems show ?thesis
      by (auto split: sum.splits)
  next
    case False
    then show ?thesis by (auto simp: word_less_nat_alt sz u64_pos_iff unat_eq_0)
  qed
qed


text \<open>
  Discarding a prefix of a list of buffers discards that many bytes of the string it stands
  for, whatever the boundaries of the buffers; asking for more than there is raises
  \<open>out_of_range\<close>, and nothing else does.
\<close>

lemma bl_remove_prefix_drops:
  assumes "length (bl_concatenate bl) < two64"
  shows "case bl_remove_prefix bl n of
      Inl e \<Rightarrow> e = Out_Of_Range ''BufferList::remove_prefix'' \<and> bl_size bl < n
    | Inr bs \<Rightarrow> n \<le> bl_size bl \<and> bl_concatenate bs = drop (unat n) (bl_concatenate bl)"
proof -
  have "unat (bl_size bl) = length (concat bl)"
    using assms by (simp add: bl_size_eq unat_str_size bl_concatenate_eq)
  then show ?thesis
    using remove_prefix_loop_eq [of bl "''BufferList::remove_prefix''" n] assms
    by (simp add: bl_remove_prefix_def bl_concatenate_eq word_less_nat_alt word_le_nat_alt split: sum.splits)
qed

end
