(* ===== verification/Text_Format.thy ===== *)
theory Text_Format
  imports Sponge_Prelude
begin

text \<open>
  Text output: what the stream operators print for the numbers, flags and addresses that the
  \<open>to_string\<close> functions of the library write, and \<open>hexdump\<close> (src/libsponge/util/util.cc).
\<close>

section \<open>Numbers\<close>

definition digit_char :: "nat \<Rightarrow> char" where
  "digit_char n = ''0123456789abcdef'' ! n"

fun show_hex :: "nat \<Rightarrow> string" where
  "show_hex n = (if n < 16 then [digit_char n] else show_hex (n div 16) @ [digit_char (n mod 16)])"

fun show_dec :: "nat \<Rightarrow> string" where
  "show_dec n = (if n < 10 then [digit_char n] else show_dec (n div 10) @ [digit_char (n mod 10)])"

declare show_hex.simps [simp del] show_dec.simps [simp del]

text \<open>\<open>setw\<close> with \<open>setfill('0')\<close>.\<close>

definition pad_zeros :: "nat \<Rightarrow> string \<Rightarrow> string" where
  "pad_zeros w s = replicate (w - length s) (CHR ''0'') @ s"

definition show_bool :: "bool \<Rightarrow> string" where
  "show_bool b = (if b then ''true'' else ''false'')"

definition newline :: string where
  "newline = [CHR 0x0A]"

definition spaces :: "nat \<Rightarrow> string" where
  "spaces n = replicate n (CHR '' '')"

text \<open>\<open>inet_ntoa\<close>: the four bytes of an address in decimal.\<close>

definition inet_ntoa :: "u32 \<Rightarrow> string" where
  "inet_ntoa a =
     (let byte = (\<lambda>i. show_dec (unat (drop_bit (8 * i) a) mod 256))
      in byte 3 @ ''.'' @ byte 2 @ ''.'' @ byte 1 @ ''.'' @ byte 0)"

section \<open>Reading numbers back\<close>

definition digit_val :: "char \<Rightarrow> nat" where
  "digit_val c = length (takeWhile (\<lambda>d. d \<noteq> c) ''0123456789abcdef'')"

definition read_num :: "nat \<Rightarrow> string \<Rightarrow> nat" where
  "read_num base s = foldl (\<lambda>n c. n * base + digit_val c) 0 s"

lemma digit_val_char: "n < 16 \<Longrightarrow> digit_val (digit_char n) = n"
proof -
  assume "n < 16"
  moreover have "\<forall>n \<in> set [0..<16]. digit_val (digit_char n) = n" by code_simp
  ultimately show ?thesis by simp
qed

lemma read_show_dec: "read_num 10 (show_dec n) = n"
proof (induction n rule: show_dec.induct)
  case (1 n)
  then show ?case by (subst show_dec.simps) (auto simp: read_num_def digit_val_char)
qed

lemma read_show_hex: "read_num 16 (show_hex n) = n"
proof (induction n rule: show_hex.induct)
  case (1 n)
  then show ?case by (subst show_hex.simps) (auto simp: read_num_def digit_val_char)
qed

lemma show_dec_inj: "show_dec m = show_dec n \<longleftrightarrow> m = n"
  by (metis read_show_dec)

lemma show_hex_inj: "show_hex m = show_hex n \<longleftrightarrow> m = n"
  by (metis read_show_hex)

lemma read_zeros: "read_num base (replicate k (CHR ''0'') @ s) = read_num base s"
proof -
  have "digit_val (CHR ''0'') = 0" by (simp add: digit_val_def)
  then have "foldl (\<lambda>n c. n * base + digit_val c) 0 (replicate k (CHR ''0'')) = 0" by (induction k) simp_all
  then show ?thesis by (simp add: read_num_def)
qed

lemma pad_hex_inj: "pad_zeros w (show_hex m) = pad_zeros w (show_hex n) \<longleftrightarrow> m = n"
  by (metis pad_zeros_def read_show_hex read_zeros)

lemma length_show_hex_byte: "n < 256 \<Longrightarrow> length (show_hex n) \<le> 2"
proof -
  assume "n < 256"
  then have "n div 16 < 16" by (simp add: less_mult_imp_div_less)
  then show ?thesis by (simp add: show_hex.simps [of n] show_hex.simps [of "n div 16"])
qed

section \<open>Hex dumps\<close>

text \<open>
  The state of the loop of \<open>hexdump\<close>: the number of bytes printed, the stream of their printable
  forms and the output.  The stream is created holding one space and is written from its
  beginning, so the first character written replaces the space.
\<close>

record hexdump_state =
  hd_printed :: nat
  hd_pchars :: string
  hd_out :: string

definition isprint :: "u8 \<Rightarrow> bool" where
  "isprint b \<longleftrightarrow> 0x20 \<le> b \<and> b \<le> 0x7e"

definition hd_str :: "string \<Rightarrow> string" where
  "hd_str written = (if written = [] then '' '' else written)"

definition hexdump_byte :: "nat \<Rightarrow> hexdump_state \<Rightarrow> u8 \<Rightarrow> hexdump_state" where
  "hexdump_byte indent s b =
     (let s = (if hd_printed s mod 16 = 0
               then let s = (if hd_printed s \<noteq> 0
                             then s\<lparr>hd_out := hd_out s @ ''    '' @ hd_str (hd_pchars s) @ newline, hd_pchars := []\<rparr>
                             else s)
                    in s\<lparr>hd_out := hd_out s @ spaces indent @ pad_zeros 8 (show_hex (hd_printed s)) @ '':    ''\<rparr>
               else if hd_printed s mod 2 = 0 then s\<lparr>hd_out := hd_out s @ '' ''\<rparr> else s)
      in s\<lparr>hd_out := hd_out s @ pad_zeros 2 (show_hex (unat b)),
           hd_pchars := hd_pchars s @ [if isprint b then char_of (unat b) else CHR ''.''],
           hd_printed := hd_printed s + 1\<rparr>)"

definition hexdump :: "bytes \<Rightarrow> nat \<Rightarrow> string" where
  "hexdump data indent =
     (let s = foldl (hexdump_byte indent) \<lparr>hd_printed = 0, hd_pchars = [], hd_out = []\<rparr> data;
          print_rem = (16 - hd_printed s mod 16) mod 16
      in hd_out s @ spaces (2 * print_rem + print_rem div 2 + 4) @ hd_str (hd_pchars s) @ newline @ newline)"

lemma hexdump_printed: "hd_printed (foldl (hexdump_byte indent) s data) = hd_printed s + length data"
  by (induction data arbitrary: s) (simp_all add: hexdump_byte_def Let_def)

lemma hexdump_example:
  "hexdump [0x48, 0x69, 0] 2 = ''  00000000:    4869 00'' @ spaces 36 @ ''Hi.'' @ newline @ newline"
  by code_simp

end
