(* ===== verification/File_Descriptor.thy ===== *)
theory File_Descriptor
  imports Net_Buffer Text_Format
begin

text \<open>
  \<open>SystemCall\<close> (src/libsponge/util/util.cc) and \<open>FileDescriptor\<close>
  (src/libsponge/util/file_descriptor.hh and .cc): the bookkeeping around the system calls.  What
  the kernel answers is an argument: an error number or what was transferred.  A call of Linux
  transfers at most 0x7ffff000 bytes, so the conversion of its result to \<open>int\<close> in the call of
  \<open>SystemCall\<close> keeps the value, and return values are unbounded integers here.
\<close>

unbundle bit_operations_syntax

section \<open>System calls\<close>

definition system_call :: "string \<Rightarrow> int \<Rightarrow> int \<Rightarrow> int \<Rightarrow> exn + int" where
  "system_call attempt return_value errno errno_mask =
     (if 0 \<le> return_value \<or> errno = errno_mask then Inr return_value else Inl (Unix_Error attempt errno))"

datatype 'a reply = Sys_Err int | Sys_Ok 'a

text \<open>The return value and the error number of a call that transfers bytes.\<close>

fun ret_of :: "nat reply \<Rightarrow> int" where
  "ret_of (Sys_Err e) = - 1"
| "ret_of (Sys_Ok n) = int n"

fun errno_of :: "nat reply \<Rightarrow> int" where
  "errno_of (Sys_Err e) = e"
| "errno_of (Sys_Ok n) = 0"

section \<open>File descriptors\<close>

record file_descriptor =
  fd_num :: int
  fd_eof :: bool
  fd_closed :: bool
  read_count :: u32
  write_count :: u32

definition new_file_descriptor :: "int \<Rightarrow> exn + file_descriptor" where
  "new_file_descriptor fd =
     (if fd < 0 then Inl (Runtime_Error (''invalid fd number:-'' @ show_dec (nat (- fd))))
      else Inr \<lparr>fd_num = fd, fd_eof = False, fd_closed = False, read_count = 0, write_count = 0\<rparr>)"

definition fd_close :: "file_descriptor \<Rightarrow> nat reply \<Rightarrow> (exn + unit) \<times> file_descriptor" where
  "fd_close fd r =
     (case system_call ''close'' (ret_of r) (errno_of r) 0 of
        Inl ex \<Rightarrow> (Inl ex, fd)
      | Inr _ \<Rightarrow> (Inr (), fd\<lparr>fd_eof := True, fd_closed := True\<rparr>))"

text \<open>The destructor closes what is not closed yet; an exception is only reported.\<close>

definition fd_destroy :: "file_descriptor \<Rightarrow> nat reply \<Rightarrow> file_descriptor" where
  "fd_destroy fd r = (if fd_closed fd then fd else snd (fd_close fd r))"

definition register_read :: "file_descriptor \<Rightarrow> file_descriptor" where
  "register_read fd = fd\<lparr>read_count := read_count fd + 1\<rparr>"

definition register_write :: "file_descriptor \<Rightarrow> file_descriptor" where
  "register_write fd = fd\<lparr>write_count := write_count fd + 1\<rparr>"

definition BUFFER_SIZE :: u64 where "BUFFER_SIZE = 1024 * 1024"

definition size_to_read :: "u64 \<Rightarrow> u64" where
  "size_to_read limit = min BUFFER_SIZE limit"

text \<open>The reply holds the bytes that \<open>read(2)\<close> has stored.\<close>

definition fd_read :: "file_descriptor \<Rightarrow> u64 \<Rightarrow> bytes reply \<Rightarrow> (exn + bytes) \<times> file_descriptor" where
  "fd_read fd limit r =
     (case system_call ''read'' (ret_of (map_reply length r)) (errno_of (map_reply length r)) 0 of
        Inl ex \<Rightarrow> (Inl ex, fd)
      | Inr bytes_read \<Rightarrow>
          let fd = (if 0 < limit \<and> bytes_read = 0 then fd\<lparr>fd_eof := True\<rparr> else fd)
          in if sint (size_to_read limit) < bytes_read then (Inl (Runtime_Error ''read() read more than requested''), fd)
             else case r of
               Sys_Err _ \<Rightarrow> (Inl (Length_Error ''basic_string::resize''), fd)
             | Sys_Ok bs \<Rightarrow> (Inr bs, register_read fd))"

text \<open>
  One round of the loop of \<open>write\<close>, and the loop: the replies are those of the successive calls of
  \<open>writev(2)\<close>; \<open>None\<close> means that the last of them has not been answered yet.
\<close>

definition fd_write_round :: "file_descriptor \<Rightarrow> buffer_view_list \<Rightarrow> nat reply
    \<Rightarrow> (exn + buffer_view_list \<times> u64) \<times> file_descriptor" where
  "fd_write_round fd buffer r =
     (case system_call ''writev'' (ret_of r) (errno_of r) 0 of
        Inl ex \<Rightarrow> (Inl ex, fd)
      | Inr bytes_written \<Rightarrow>
          if bytes_written = 0 \<and> bvl_size buffer \<noteq> 0
          then (Inl (Runtime_Error ''write returned 0 given non-empty input buffer''), fd)
          else if sint (bvl_size buffer) < bytes_written
          then (Inl (Runtime_Error ''write wrote more than length of input buffer''), fd)
          else let fd = register_write fd
               in case bvl_remove_prefix buffer (of_int bytes_written) of
                    Inl ex \<Rightarrow> (Inl ex, fd)
                  | Inr buffer \<Rightarrow> (Inr (buffer, of_int bytes_written), fd))"

fun fd_write_loop :: "nat reply list \<Rightarrow> bool \<Rightarrow> file_descriptor \<Rightarrow> buffer_view_list \<Rightarrow> u64
    \<Rightarrow> ((exn + u64) \<times> file_descriptor) option" where
  "fd_write_loop [] write_all fd buffer total_bytes_written = None"
| "fd_write_loop (r # rs) write_all fd buffer total_bytes_written =
     (case fd_write_round fd buffer r of
        (Inl ex, fd) \<Rightarrow> Some (Inl ex, fd)
      | (Inr (buffer, n), fd) \<Rightarrow>
          let total_bytes_written = total_bytes_written + n
          in if write_all \<and> bvl_size buffer \<noteq> 0 then fd_write_loop rs write_all fd buffer total_bytes_written
             else Some (Inr total_bytes_written, fd))"

definition fd_write :: "file_descriptor \<Rightarrow> buffer_view_list \<Rightarrow> bool \<Rightarrow> nat reply list \<Rightarrow> ((exn + u64) \<times> file_descriptor) option" where
  "fd_write fd buffer write_all rs = fd_write_loop rs write_all fd buffer 0"

text \<open>
  The same loop, which also records the bytes that the kernel takes in each call of \<open>writev(2)\<close>: the
  first ones of those it is offered.
\<close>

fun taken_by :: "nat reply \<Rightarrow> buffer_view_list \<Rightarrow> bytes" where
  "taken_by (Sys_Err e) buffer = []"
| "taken_by (Sys_Ok n) buffer = take n (concat buffer)"

fun fd_write_traced :: "nat reply list \<Rightarrow> bool \<Rightarrow> file_descriptor \<Rightarrow> buffer_view_list \<Rightarrow> u64
    \<Rightarrow> ((exn + u64) \<times> file_descriptor) option \<times> bytes list" where
  "fd_write_traced [] write_all fd buffer total_bytes_written = (None, [])"
| "fd_write_traced (r # rs) write_all fd buffer total_bytes_written =
     (case fd_write_round fd buffer r of
        (Inl ex, fd) \<Rightarrow> (Some (Inl ex, fd), [taken_by r buffer])
      | (Inr (left, n), fd) \<Rightarrow>
          let total_bytes_written = total_bytes_written + n
          in if write_all \<and> bvl_size left \<noteq> 0
             then case fd_write_traced rs write_all fd left total_bytes_written of
                    (res, taken) \<Rightarrow> (res, taken_by r buffer # taken)
             else (Some (Inr total_bytes_written, fd), [taken_by r buffer]))"

text \<open>With \<open>write_all\<close> false there is exactly one call of \<open>writev(2)\<close>.\<close>

definition fd_write_once :: "file_descriptor \<Rightarrow> buffer_view_list \<Rightarrow> nat reply \<Rightarrow> (exn + u64) \<times> file_descriptor" where
  "fd_write_once fd buffer r = the (fd_write fd buffer False [r])"

text \<open>
  \<open>set_blocking\<close>: the flags that are handed back to the kernel, and its answers to the two calls of
  \<open>fcntl(2)\<close>.  \<open>O_NONBLOCK\<close> is 0x800 on Linux.
\<close>

abbreviation O_NONBLOCK :: u32 where "O_NONBLOCK \<equiv> 0x800"

definition blocking_flags :: "bool \<Rightarrow> u32 \<Rightarrow> u32" where
  "blocking_flags blocking_state flags =
     (if blocking_state then flags XOR (flags AND O_NONBLOCK) else flags OR O_NONBLOCK)"

definition set_blocking :: "bool \<Rightarrow> nat reply \<Rightarrow> (u32 \<Rightarrow> nat reply) \<Rightarrow> exn + u32" where
  "set_blocking blocking_state getfl setfl =
     (case system_call ''fcntl'' (ret_of getfl) (errno_of getfl) 0 of
        Inl ex \<Rightarrow> Inl ex
      | Inr flags \<Rightarrow>
          let flags = blocking_flags blocking_state (of_int flags)
          in case system_call ''fcntl'' (ret_of (setfl flags)) (errno_of (setfl flags)) 0 of
               Inl ex \<Rightarrow> Inl ex
             | Inr _ \<Rightarrow> Inr flags)"

text \<open>Only the one bit changes, and it says what was asked for.\<close>

lemma blocking_flags_bits:
  "bit (blocking_flags b flags) n \<longleftrightarrow> (if n = 11 then \<not> b else bit flags n)"
proof -
  have "bit O_NONBLOCK n \<longleftrightarrow> n = 11" for n
  proof -
    have "O_NONBLOCK = push_bit 11 1" by simp
    then show ?thesis by (simp only: bit_push_bit_iff) (auto simp: bit_1_iff)
  qed
  then show ?thesis by (auto simp: blocking_flags_def bit_simps)
qed

section \<open>What reading and writing return\<close>

lemma sint_le_uint: "sint (w :: u64) \<le> uint w"
proof -
  have "(- 9223372036854775808 :: int) \<le> uint w" by (rule order_trans [of _ 0]) simp_all
  then show ?thesis by (simp add: sint_uint signed_take_bit_int_less_eq_self_iff)
qed

lemma fd_read_ok:
  assumes "fd_read fd limit r = (Inr bs, fd')"
  shows "length bs \<le> unat limit" "length bs \<le> 1048576" "read_count fd' = read_count fd + 1"
    "fd_eof fd' \<longleftrightarrow> fd_eof fd \<or> 0 < limit \<and> bs = []" "fd_closed fd' = fd_closed fd" "r = Sys_Ok bs"
proof -
  have r: "r = Sys_Ok bs" and n: "int (length bs) \<le> sint (size_to_read limit)"
    and fd': "fd' = register_read (if 0 < limit \<and> bs = [] then fd\<lparr>fd_eof := True\<rparr> else fd)"
    using assms by (cases r; auto simp: fd_read_def system_call_def Let_def split: if_splits)+
  have "length bs \<le> unat (size_to_read limit)" using order_trans [OF n sint_le_uint] by (metis of_nat_le_iff uint_nat)
  moreover have "unat (size_to_read limit) \<le> unat limit" "unat (size_to_read limit) \<le> unat BUFFER_SIZE"
    by (simp_all add: size_to_read_def min_def word_le_nat_alt)
  ultimately show "length bs \<le> unat limit" "length bs \<le> 1048576" by (simp_all add: BUFFER_SIZE_def)
  show "read_count fd' = read_count fd + 1" "fd_eof fd' \<longleftrightarrow> fd_eof fd \<or> 0 < limit \<and> bs = []" "fd_closed fd' = fd_closed fd"
    by (auto simp: fd' register_read_def)
  show "r = Sys_Ok bs" by (rule r)
qed

lemma fd_read_exn:
  "fd_read fd limit r = (Inl ex, fd') \<Longrightarrow>
   ex \<in> range (Unix_Error ''read'') \<union> {Runtime_Error ''read() read more than requested'', Length_Error ''basic_string::resize''}"
  by (auto simp: fd_read_def system_call_def Let_def split: if_splits reply.splits sum.splits)

lemma bvl_size_eq: "bvl_size bl = str_size (concat bl)"
  using foldl_str_size [of 0 bl] by (simp add: bvl_size_def)

lemma fd_write_round_reply:
  assumes "fd_write_round fd buffer r = (Inr (buffer', n), fd')" "length (concat buffer) < 2 ^ 63"
  obtains k where "r = Sys_Ok k" "k \<le> length (concat buffer)" "k = 0 \<Longrightarrow> concat buffer = []" "n = of_nat k"
    "concat buffer' = drop k (concat buffer)" "fd' = register_write fd"
proof -
  have len: "length (concat buffer) < two64" using assms(2) by simp
  have sz: "unat (bvl_size buffer) = length (concat buffer)" using len by (simp add: bvl_size_eq unat_str_size)
  have rp: "unat m \<le> length (concat buffer) \<and> concat bs = drop (unat m) (concat buffer)"
    if "bvl_remove_prefix buffer m = Inr bs" for m bs
    using remove_prefix_loop_eq [OF len, of "''BufferListView::remove_prefix''" m] that by (simp add: bvl_remove_prefix_def)
  show ?thesis
  proof (cases r)
    case (Sys_Err e)
    have "unat (- 1 :: u64) = 2 ^ 64 - 1" by (simp add: unsigned_minus_1_eq_mask mask_eq_exp_minus_1)
    then have "bvl_remove_prefix buffer (- 1) \<noteq> Inr bs" for bs using rp [of "- 1" bs] assms(2) by auto
    then show ?thesis using assms(1) Sys_Err
      by (auto simp: fd_write_round_def system_call_def Let_def split: if_splits sum.splits)
  next
    case (Sys_Ok k)
    have k: "k \<le> length (concat buffer)" if "\<not> sint (bvl_size buffer) < int k"
      using that sint_le_uint [of "bvl_size buffer"] sz by (metis not_less of_nat_le_iff order_trans uint_nat)
    moreover have "concat buffer = []" if "bvl_size buffer = 0" using that sz by simp
    moreover have "concat buffer' = drop k (concat buffer)"
      if "bvl_remove_prefix buffer (of_nat k) = Inr buffer'" "k \<le> length (concat buffer)"
      using rp [OF that(1)] that(2) len by (simp add: unat_of_nat_u64)
    ultimately show ?thesis using assms(1) Sys_Ok that [of k]
      by (auto simp: fd_write_round_def system_call_def Let_def split: if_splits sum.splits)
  qed
qed

lemma bvl_size_0: "length (concat b) < two64 \<Longrightarrow> bvl_size b = 0 \<longleftrightarrow> concat b = []"
  by (metis bvl_size_eq length_0_conv str_size_Nil unat_0 unat_str_size)

lemma fd_write_once_eq:
  "fd_write_once fd buffer r =
     (case fd_write_round fd buffer r of (Inl ex, fd) \<Rightarrow> (Inl ex, fd) | (Inr (_, n), fd) \<Rightarrow> (Inr n, fd))"
  by (auto simp: fd_write_once_def fd_write_def Let_def split: prod.splits sum.splits)

lemma fd_write_round_frame:
  "fd_write_round fd buffer r = (res, fd') \<Longrightarrow> fd_eof fd' = fd_eof fd \<and> fd_closed fd' = fd_closed fd \<and> read_count fd' = read_count fd"
  by (auto simp: fd_write_round_def register_write_def Let_def split: sum.splits if_splits)

lemma fd_read_frame:
  "fd_read fd limit r = (res, fd') \<Longrightarrow> fd_closed fd' = fd_closed fd \<and> (fd_eof fd \<longrightarrow> fd_eof fd') \<and> write_count fd' = write_count fd"
  by (auto simp: fd_read_def register_read_def Let_def split: sum.splits if_splits reply.splits)

lemma fd_write_loop_all:
  assumes "fd_write_loop rs write_all fd buffer t = Some (Inr n, fd')" "length (concat buffer) < 2 ^ 63"
  shows "\<exists>k \<le> length (concat buffer). n = t + of_nat k \<and> (write_all \<longrightarrow> k = length (concat buffer)) \<and>
    (k = 0 \<longrightarrow> concat buffer = [])"
  using assms
proof (induction rs write_all fd buffer t rule: fd_write_loop.induct)
  case (2 r rs write_all fd buffer t)
  then obtain b m fd1 where rd: "fd_write_round fd buffer r = (Inr (b, m), fd1)"
    by (auto split: prod.splits sum.splits)
  then obtain k where k: "k \<le> length (concat buffer)" "k = 0 \<Longrightarrow> concat buffer = []" "m = of_nat k"
    "concat b = drop k (concat buffer)"
    using fd_write_round_reply [OF rd 2(3)] by metis
  have b: "length (concat b) = length (concat buffer) - k" "length (concat b) < 2 ^ 63" "length (concat b) < two64"
    using k 2(3) by simp_all
  show ?case
  proof (cases "write_all \<and> bvl_size b \<noteq> 0")
    case True
    then have "fd_write_loop rs write_all fd1 b (t + m) = Some (Inr n, fd')" using 2(2) rd by simp
    from 2(1) [OF rd [symmetric] refl refl refl True this b(2)] True
    have "n = t + m + of_nat (length (concat b))" by auto
    then show ?thesis using True k b(1) by (intro exI [of _ "length (concat buffer)"]) (auto simp flip: of_nat_add)
  next
    case False
    then have "n = t + m" using 2(2) rd by (auto simp: Let_def)
    moreover have "k = length (concat buffer)" if write_all
      using that False k(1) b(1) bvl_size_0 [OF b(3)] by (metis diff_is_0_eq le_antisym list.size(3))
    ultimately show ?thesis using k by blast
  qed
qed simp

lemma fd_write_loop_returns:
  assumes "length (concat buffer) < length rs" "length (concat buffer) < 2 ^ 63"
  shows "\<exists>y. fd_write_loop rs write_all fd buffer t = Some y"
  using assms
proof (induction rs write_all fd buffer t rule: fd_write_loop.induct)
  case (2 r rs write_all fd buffer t)
  show ?case
  proof (cases "fd_write_round fd buffer r")
    case (Pair res fd1)
    show ?thesis
    proof (cases res)
      case (Inr bn)
      obtain b n where bn: "bn = (b, n)" by (cases bn)
      from Pair Inr bn have rd: "fd_write_round fd buffer r = (Inr (b, n), fd1)" by simp
      obtain k where k: "k \<le> length (concat buffer)" "k = 0 \<Longrightarrow> concat buffer = []" "concat b = drop k (concat buffer)"
        using fd_write_round_reply [OF rd 2(3)] by metis
      have "length (concat b) < length rs" if "bvl_size b \<noteq> 0"
      proof -
        have "concat b \<noteq> []" using that by (metis bvl_size_eq str_size_Nil)
        then show ?thesis using k 2(2) by (cases "k = 0") auto
      qed
      moreover have "length (concat b) < 2 ^ 63" using k(3) 2(3) by simp
      ultimately show ?thesis using 2(1) [OF rd [symmetric] refl refl refl] rd bn by (auto simp: Let_def)
    qed (simp add: Pair)
  qed
qed simp

lemma fd_read_end: "fd_read fd (- 1) (Sys_Ok []) = (Inr [], register_read (fd\<lparr>fd_eof := True\<rparr>))"
  by (simp add: word_gt_0 fd_read_def system_call_def Let_def size_to_read_def BUFFER_SIZE_def)

lemma fd_read_some: "bs \<noteq> [] \<Longrightarrow> length bs \<le> 1048576 \<Longrightarrow> fd_read fd (- 1) (Sys_Ok bs) = (Inr bs, register_read fd)"
  by (simp add: fd_read_def system_call_def Let_def size_to_read_def BUFFER_SIZE_def)

lemma fd_write_traced_loop: "fst (fd_write_traced rs write_all fd buffer t) = fd_write_loop rs write_all fd buffer t"
  by (induction rs write_all fd buffer t rule: fd_write_loop.induct) (auto simp: Let_def split: prod.splits sum.splits)

text \<open>What the kernel takes is a prefix of the buffer, and all of it when the call returns with \<open>write_all\<close> set.\<close>

lemma fd_write_traced_prefix:
  assumes "fd_write_traced rs write_all fd buffer t = (res, taken)" "length (concat buffer) < 2 ^ 63"
  shows "\<exists>rest. concat buffer = concat taken @ rest \<and> (write_all \<and> (\<exists>n fd'. res = Some (Inr n, fd')) \<longrightarrow> rest = [])"
  using assms
proof (induction rs write_all fd buffer t arbitrary: res taken rule: fd_write_traced.induct)
  case (2 r rs write_all fd buffer t)
  have tk: "\<exists>rest. concat buffer = taken_by r buffer @ rest" by (cases r) (auto intro: append_take_drop_id [symmetric])
  obtain q fd1 where q: "fd_write_round fd buffer r = (q, fd1)" by (cases "fd_write_round fd buffer r")
  show ?case
  proof (cases q)
    case (Inl ex)
    then show ?thesis using 2(2) q tk by auto
  next
    case (Inr bn)
    obtain b m where bn: "bn = (b, m)" by (cases bn)
    note rd = q [unfolded Inr bn]
    obtain k where k: "r = Sys_Ok k" "concat b = drop k (concat buffer)" using fd_write_round_reply [OF rd 2(3)] by metis
    then have split: "concat buffer = taken_by r buffer @ concat b" and len: "length (concat b) < 2 ^ 63" using 2(3) by simp_all
    show ?thesis
    proof (cases "write_all \<and> bvl_size b \<noteq> 0")
      case True
      obtain res' tk' where t: "fd_write_traced rs write_all fd1 b (t + m) = (res', tk')"
        by (cases "fd_write_traced rs write_all fd1 b (t + m)")
      then have "res = res'" "taken = taken_by r buffer # tk'" using 2(2) rd True by auto
      with 2(1) [OF rd [symmetric] refl refl refl True t len] show ?thesis
        using split by (metis append_assoc concat.simps(2))
    next
      case False
      then have tkn: "taken = [taken_by r buffer]" using 2(2) rd by (auto simp: Let_def)
      have "write_all \<Longrightarrow> concat b = []" using False bvl_size_0 [of b] len by simp
      then show ?thesis using split by (intro exI [of _ "concat b"]) (simp add: tkn)
    qed
  qed
qed auto

section \<open>Properties\<close>

text \<open>
  C26. \<open>FileDescriptor::write\<close> always comes back, whatever the kernel answers: a call on a buffer of
  n bytes needs at most n + 1 calls of \<open>writev(2)\<close>, since each of them transfers something, ends
  the loop or raises an exception.  When it returns normally with \<open>write_all\<close> set, it reports the
  size of the whole buffer; without it, it reports at most that, and zero for an empty buffer only.
\<close>

theorem write_all_writes_all:
  assumes "length (concat buffer) < 2 ^ 63" "length (concat buffer) < length rs"
  shows "\<exists>res fd'. fd_write fd buffer write_all rs = Some (res, fd') \<and>
    (\<forall>n. res = Inr n \<longrightarrow> unat n \<le> length (concat buffer) \<and> (write_all \<longrightarrow> unat n = length (concat buffer)) \<and>
      (n = 0 \<longrightarrow> concat buffer = []))"
proof -
  obtain res fd' where r: "fd_write fd buffer write_all rs = Some (res, fd')"
    using fd_write_loop_returns [OF assms(2,1), of write_all fd 0] by (auto simp: fd_write_def)
  have "\<exists>k \<le> length (concat buffer). n = of_nat k \<and> (write_all \<longrightarrow> k = length (concat buffer)) \<and> (k = 0 \<longrightarrow> concat buffer = [])"
    if "res = Inr n" for n
    using fd_write_loop_all [of rs write_all fd buffer 0 n fd'] r that assms(1) by (simp add: fd_write_def)
  moreover have "unat (of_nat k :: u64) = k" if "k \<le> length (concat buffer)" for k
    using that assms(1) by (simp add: unat_of_nat_u64)
  ultimately show ?thesis using r by (metis unat_0)
qed

theorem write_all_writes_all_witness:
  "fd_write \<lparr>fd_num = 3, fd_eof = False, fd_closed = False, read_count = 0, write_count = 0\<rparr> [[1, 2], [3]] True
     [Sys_Ok 1, Sys_Ok 2, Sys_Err 4, Sys_Err 4]
   = Some (Inr 3, \<lparr>fd_num = 3, fd_eof = False, fd_closed = False, read_count = 0, write_count = 2\<rparr>) \<and>
   (\<exists>res fd'. fd_write \<lparr>fd_num = 3, fd_eof = False, fd_closed = False, read_count = 0, write_count = 0\<rparr> [[1, 2], [3]] True
     [Sys_Ok 1, Sys_Ok 2, Sys_Err 4, Sys_Err 4] = Some (res, fd') \<and>
    (\<forall>n. res = Inr n \<longrightarrow> unat n \<le> length (concat [[1, 2], [3]] :: bytes) \<and> (True \<longrightarrow> unat n = length (concat [[1, 2], [3]] :: bytes)) \<and>
      (n = 0 \<longrightarrow> concat [[1, 2], [3]] = ([] :: bytes))))"
proof (intro conjI)
  show "fd_write \<lparr>fd_num = 3, fd_eof = False, fd_closed = False, read_count = 0, write_count = 0\<rparr> [[1, 2], [3]] True
     [Sys_Ok 1, Sys_Ok 2, Sys_Err 4, Sys_Err 4]
   = Some (Inr 3, \<lparr>fd_num = 3, fd_eof = False, fd_closed = False, read_count = 0, write_count = 2\<rparr>)"
    by code_simp
qed (rule write_all_writes_all; simp)

end
