(* ===== verification/Event_Loop.thy ===== *)
theory Event_Loop
  imports File_Descriptor "HOL-Library.Sublist"
begin

unbundle bit_operations_syntax

text \<open>
  \<open>EventLoop\<close> (src/libsponge/util/eventloop.hh and .cc).  The variables that the callbacks of the
  rules capture are one state of a type \<open>'s\<close>; a rule knows where its file descriptor is in it.
  What the kernel answers to the system calls of the callbacks is an argument \<open>k\<close> of a call of
  \<open>wait_next_event\<close>, the answer to \<open>poll(2)\<close> another one.  Rules are only added before the loop
  runs, as everywhere in the program.
\<close>

section \<open>The model\<close>

datatype direction = In | Out

text \<open>\<open>POLLIN\<close>, \<open>POLLOUT\<close>, \<open>POLLERR\<close>, \<open>POLLHUP\<close> and \<open>POLLNVAL\<close> of \<open>poll.h\<close>, \<open>EINTR\<close> of \<open>errno.h\<close>.\<close>

abbreviation POLLIN :: u16 where "POLLIN \<equiv> 0x01"
abbreviation POLLOUT :: u16 where "POLLOUT \<equiv> 0x04"
abbreviation POLLERR :: u16 where "POLLERR \<equiv> 0x08"
abbreviation POLLHUP :: u16 where "POLLHUP \<equiv> 0x10"
abbreviation POLLNVAL :: u16 where "POLLNVAL \<equiv> 0x20"
abbreviation EINTR :: int where "EINTR \<equiv> 4"

fun direction_events :: "direction \<Rightarrow> u16" where
  "direction_events In = POLLIN"
| "direction_events Out = POLLOUT"

datatype event_result = Success | Timeout | Exit

record ('k, 's) rule =
  r_fd :: "'s \<Rightarrow> file_descriptor"
  r_direction :: direction
  r_callback :: "'k \<Rightarrow> 's \<Rightarrow> (exn + unit) \<times> 's"
  r_interest :: "'s \<Rightarrow> bool"
  r_cancel :: "'s \<Rightarrow> (exn + unit) \<times> 's"

definition service_count :: "('k, 's) rule \<Rightarrow> 's \<Rightarrow> u32" where
  "service_count r s = (if r_direction r = In then read_count (r_fd r s) else write_count (r_fd r s))"

definition add_rule :: "('k, 's) rule list \<Rightarrow> ('s \<Rightarrow> file_descriptor) \<Rightarrow> direction
    \<Rightarrow> ('k \<Rightarrow> 's \<Rightarrow> (exn + unit) \<times> 's) \<Rightarrow> ('s \<Rightarrow> bool) \<Rightarrow> ('s \<Rightarrow> (exn + unit) \<times> 's) \<Rightarrow> ('k, 's) rule list" where
  "add_rule rules fd dir callback interest cancel =
     rules @ [\<lparr>r_fd = fd, r_direction = dir, r_callback = callback, r_interest = interest, r_cancel = cancel\<rparr>]"

record pollfd =
  p_fd :: int
  p_events :: u16
  p_revents :: u16

text \<open>Setting up the poll set: the rules that are left, their entries, and \<open>something_to_poll\<close>.\<close>

definition defunct :: "('k, 's) rule \<Rightarrow> 's \<Rightarrow> bool" where
  "defunct r s \<longleftrightarrow> r_direction r = In \<and> fd_eof (r_fd r s) \<or> fd_closed (r_fd r s)"

definition pollfd_of :: "('k, 's) rule \<Rightarrow> 's \<Rightarrow> pollfd" where
  "pollfd_of r s =
     \<lparr>p_fd = fd_num (r_fd r s), p_events = (if r_interest r s then direction_events (r_direction r) else 0), p_revents = 0\<rparr>"

fun poll_setup :: "('k, 's) rule list \<Rightarrow> 's \<Rightarrow> (exn + pollfd list \<times> bool) \<times> ('k, 's) rule list \<times> 's" where
  "poll_setup [] s = (Inr ([], False), [], s)"
| "poll_setup (r # rs) s =
     (if defunct r s
      then case r_cancel r s of
             (Inl ex, s) \<Rightarrow> (Inl ex, r # rs, s)
           | (Inr _, s) \<Rightarrow> poll_setup rs s
      else case poll_setup rs s of
             (Inl ex, rs, s') \<Rightarrow> (Inl ex, r # rs, s')
           | (Inr (pfds, something), rs, s') \<Rightarrow> (Inr (pollfd_of r s # pfds, r_interest r s \<or> something), r # rs, s'))"

text \<open>Going through the results of \<open>poll(2)\<close>: each rule meets the entry made for it.\<close>

fun poll_dispatch :: "'k \<Rightarrow> (pollfd \<times> ('k, 's) rule) list \<Rightarrow> 's \<Rightarrow> (exn + unit) \<times> ('k, 's) rule list \<times> 's" where
  "poll_dispatch k [] s = (Inr (), [], s)"
| "poll_dispatch k ((p, r) # prs) s =
     (if p_revents p AND (POLLERR OR POLLNVAL) \<noteq> 0
      then (Inl (Runtime_Error ''EventLoop: error on polled file descriptor''), r # map snd prs, s)
      else
        let poll_ready = p_revents p AND p_events p \<noteq> 0;
            poll_hup = p_revents p AND POLLHUP \<noteq> 0
        in if poll_hup \<and> p_events p \<noteq> 0 \<and> \<not> poll_ready
           then case r_cancel r s of
                  (Inl ex, s) \<Rightarrow> (Inl ex, r # map snd prs, s)
                | (Inr _, s) \<Rightarrow> poll_dispatch k prs s
           else
             case (if poll_ready then r_callback r k s else (Inr (), s)) of
               (Inl ex, s') \<Rightarrow> (Inl ex, r # map snd prs, s')
             | (Inr _, s') \<Rightarrow>
                 if poll_ready \<and> service_count r s = service_count r s' \<and> r_interest r s'
                 then (Inl (Runtime_Error ''EventLoop: busy wait detected: callback did not read/write fd and is still interested''),
                       r # map snd prs, s')
                 else case poll_dispatch k prs s' of (res, rs, s'') \<Rightarrow> (res, r # rs, s''))"

text \<open>
  The answer to \<open>poll(2)\<close>: the number of ready descriptors or an error number, and the \<open>revents\<close>
  of the entries by index.  \<open>timeout_ms\<close> is only passed on to the kernel.
\<close>

type_synonym poll_answer = "nat reply \<times> (nat \<Rightarrow> u16)"

definition with_revents :: "pollfd list \<Rightarrow> (nat \<Rightarrow> u16) \<Rightarrow> pollfd list" where
  "with_revents pfds revs = map (\<lambda>(i, p). p\<lparr>p_revents := revs i\<rparr>) (List.enumerate 0 pfds)"

definition wait_next_event :: "'k \<Rightarrow> (pollfd list \<Rightarrow> poll_answer) \<Rightarrow> ('k, 's) rule list \<Rightarrow> 's
    \<Rightarrow> (exn + event_result) \<times> ('k, 's) rule list \<times> 's" where
  "wait_next_event k poll rules s =
     (case poll_setup rules s of
        (Inl ex, rules, s) \<Rightarrow> (Inl ex, rules, s)
      | (Inr (pfds, something_to_poll), rules, s) \<Rightarrow>
          if \<not> something_to_poll then (Inr Exit, rules, s)
          else
            let (answer, revs) = poll pfds;
                dispatch = (case poll_dispatch k (zip (with_revents pfds revs) rules) s of
                              (Inl ex, rules, s) \<Rightarrow> (Inl ex, rules, s)
                            | (Inr _, rules, s) \<Rightarrow> (Inr Success, rules, s))
            in case system_call ''poll'' (ret_of answer) (errno_of answer) 0 of
                 Inr n \<Rightarrow> if n = 0 then (Inr Timeout, rules, s) else dispatch
               | Inl (Unix_Error _ e) \<Rightarrow> if e = EINTR then (Inr Exit, rules, s) else dispatch
               | Inl ex \<Rightarrow> (Inl ex, rules, s))"

section \<open>Serving one rule\<close>

definition hung_up :: "pollfd \<Rightarrow> bool" where
  "hung_up p \<longleftrightarrow> p_revents p AND POLLHUP \<noteq> 0 \<and> p_events p \<noteq> 0 \<and> p_revents p AND p_events p = 0"

definition ready :: "pollfd \<Rightarrow> bool" where
  "ready p \<longleftrightarrow> p_revents p AND p_events p \<noteq> 0"

definition serve :: "'k \<Rightarrow> pollfd \<times> ('k, 's) rule \<Rightarrow> 's \<Rightarrow> 's" where
  "serve k pr s = (let (p, r) = pr in
     if ready p then snd (r_callback r k s) else if hung_up p then snd (r_cancel r s) else s)"

lemma poll_dispatch_Cons:
  assumes "poll_dispatch k ((p, r) # prs) s = (res, rs, s')"
  obtains (stop) ex where "res = Inl ex" "rs = r # map snd prs" "s' = s \<or> s' = serve k (p, r) s"
  | (proceed) rs' where "poll_dispatch k prs (serve k (p, r) s) = (res, rs', s')" "rs = (if hung_up p then rs' else r # rs')"
      "p_revents p AND (POLLERR OR POLLNVAL) = 0"
      "ready p \<Longrightarrow> service_count r s \<noteq> service_count r (serve k (p, r) s) \<or> \<not> r_interest r (serve k (p, r) s)"
  using assms
  by (auto simp: Let_def serve_def ready_def hung_up_def split: if_splits prod.splits sum.splits)

definition progress :: "('k, 's) rule \<Rightarrow> 's \<Rightarrow> 's \<Rightarrow> bool" where
  "progress r s s' \<longleftrightarrow> service_count r s \<noteq> service_count r s' \<or> \<not> r_interest r s'"

lemma poll_dispatch_Inr:
  assumes "poll_dispatch k prs s = (Inr u, rs, s')"
  shows "s' = fold (serve k) prs s \<and> rs = map snd (filter (\<lambda>(p, r). \<not> hung_up p) prs) \<and>
    (\<forall>i < length prs. p_revents (fst (prs ! i)) AND (POLLERR OR POLLNVAL) = 0 \<and>
      (ready (fst (prs ! i)) \<longrightarrow>
       progress (snd (prs ! i)) (fold (serve k) (take i prs) s) (fold (serve k) (take (Suc i) prs) s)))"
  using assms
proof (induction prs arbitrary: s rs)
  case (Cons pr prs)
  obtain p r where pr: "pr = (p, r)" by (cases pr)
  from Cons.prems [unfolded pr] show ?case
  proof (cases rule: poll_dispatch_Cons)
    case (proceed rs')
    then show ?thesis using Cons.IH [OF proceed(1)] by (auto simp: pr progress_def nth_Cons split: nat.splits)
  qed simp
qed simp

definition sweep :: "('k, 's) rule \<Rightarrow> 's \<Rightarrow> 's" where
  "sweep r s = (if defunct r s then snd (r_cancel r s) else s)"

lemma poll_setup_Inr: "poll_setup rs s = (Inr x, rs', s') \<Longrightarrow> s' = fold sweep rs s"
  by (induction rs arbitrary: s x rs') (auto simp: sweep_def split: if_splits prod.splits sum.splits)

lemma poll_setup_no_defunct:
  "\<forall>r \<in> set rs. \<not> defunct r s \<Longrightarrow>
   poll_setup rs s = (Inr (map (\<lambda>r. pollfd_of r s) rs, \<exists>r \<in> set rs. r_interest r s), rs, s)"
  by (induction rs) auto

lemma subseq_distinctD: "subseq xs ys \<Longrightarrow> distinct ys \<Longrightarrow> distinct xs"
  by (induction rule: list_emb.induct) (auto dest: list_emb_set)

lemma sorted_wrt_subseq: "subseq xs ys \<Longrightarrow> sorted_wrt P ys \<Longrightarrow> sorted_wrt P xs"
  by (induction rule: list_emb.induct) (auto dest: list_emb_set)

section \<open>The rules that are left\<close>

lemma poll_setup_length: "poll_setup rs s = (Inr (pfds, b), rs', s') \<Longrightarrow> length pfds = length rs'"
  by (induction rs s arbitrary: pfds b rs' s' rule: poll_setup.induct)
    (auto split: if_splits prod.splits sum.splits)

lemma poll_setup_subseq: "poll_setup rs s = (res, rs', s') \<Longrightarrow> subseq rs' rs"
  by (induction rs s arbitrary: res rs' s' rule: poll_setup.induct)
    (auto split: if_splits prod.splits sum.splits)

lemma poll_dispatch_subseq: "poll_dispatch k prs s = (res, rs', s') \<Longrightarrow> subseq rs' (map snd prs)"
proof (induction prs arbitrary: s rs')
  case (Cons pr prs)
  obtain p r where pr: "pr = (p, r)" by (cases pr)
  from Cons.prems [unfolded pr] show ?case
    by (cases rule: poll_dispatch_Cons) (auto simp: pr dest: Cons.IH)
qed simp

lemma length_with_revents [simp]: "length (with_revents pfds revs) = length pfds"
  by (simp add: with_revents_def)

lemma wait_next_event_cases:
  assumes "wait_next_event k poll rules s = (res, rules', s')"
  obtains (failed) ex where "poll_setup rules s = (Inl ex, rules', s')" "res = Inl ex"
  | (idle) pfds b where "poll_setup rules s = (Inr (pfds, b), rules', s')" "res = Inr Exit \<or> res = Inr Timeout" "b \<or> res = Inr Exit"
  | (served) pfds live s1 dres where "poll_setup rules s = (Inr (pfds, True), live, s1)"
      "poll_dispatch k (zip (with_revents pfds (snd (poll pfds))) live) s1 = (dres, rules', s')"
      "res = map_sum (\<lambda>x. x) (\<lambda>_. Success) dres"
  using assms unfolding wait_next_event_def Let_def
  by (auto simp: system_call_def split: prod.splits sum.splits if_splits exn.splits)

lemma wait_next_event_Exit:
  assumes "wait_next_event k poll rules s = (Inr Exit, rules', s')"
  obtains pfds b where "poll_setup rules s = (Inr (pfds, b), rules', s')" "b \<Longrightarrow> fst (poll pfds) = Sys_Err EINTR"
proof -
  obtain sres live s1 where p: "poll_setup rules s = (sres, live, s1)" by (metis prod_cases3)
  with assms obtain pfds b where sres: "sres = Inr (pfds, b)"
    by (cases sres) (auto simp: wait_next_event_def)
  obtain answer revs where a: "poll pfds = (answer, revs)" by (cases "poll pfds")
  have "live = rules' \<and> s1 = s' \<and> (b \<longrightarrow> answer = Sys_Err EINTR)"
    using assms p sres a by (cases answer) (auto simp: wait_next_event_def system_call_def Let_def split: if_splits sum.splits prod.splits)
  then show ?thesis using that p sres a by simp
qed

lemma wait_next_event_subseq:
  assumes "wait_next_event k poll rules s = (res, rules', s')"
  shows "subseq rules' rules"
  using assms
proof (cases rule: wait_next_event_cases)
  case (served pfds live s1 dres)
  have "subseq rules' (map snd (zip (with_revents pfds (snd (poll pfds))) live))"
    by (rule poll_dispatch_subseq [OF served(2)])
  also have "map snd (zip (with_revents pfds (snd (poll pfds))) live) = live"
    using poll_setup_length [OF served(1)] by simp
  finally show ?thesis using poll_setup_subseq [OF served(1)] by (rule subseq_order.trans)
qed (auto dest: poll_setup_subseq)

section \<open>Invariants of the captured state\<close>

text \<open>
  The simplest contract between the loop and its rules: as long as the kernel behaves (\<open>ok k\<close>),
  callbacks and cancellations keep an invariant of the captured state, whatever they return.
\<close>

locale event_inv =
  fixes rules :: "('k, 's) rule list"
    and ok :: "'k \<Rightarrow> bool"
    and I :: "'s \<Rightarrow> bool"
  assumes callback_kept: "\<lbrakk>r \<in> set rules; ok k; I s\<rbrakk> \<Longrightarrow> I (snd (r_callback r k s))"
    and cancel_kept: "\<lbrakk>r \<in> set rules; I s\<rbrakk> \<Longrightarrow> I (snd (r_cancel r s))"
begin

lemma poll_setup_kept: "\<lbrakk>poll_setup rs s = (res, rs', s'); set rs \<subseteq> set rules; I s\<rbrakk> \<Longrightarrow> I s'"
proof (induction rs arbitrary: s res rs')
  case (Cons r rs)
  have "I (snd (r_cancel r s))" using Cons.prems(2,3) by (simp add: cancel_kept)
  with Cons.prems show ?case by (auto split: if_splits prod.splits sum.splits dest: Cons.IH)
qed simp

lemma poll_dispatch_kept:
  "\<lbrakk>poll_dispatch k prs s = (res, rs', s'); set (map snd prs) \<subseteq> set rules; ok k; I s\<rbrakk> \<Longrightarrow> I s'"
proof (induction prs arbitrary: s rs')
  case (Cons pr prs)
  obtain p r where pr: "pr = (p, r)" by (cases pr)
  have "I (serve k (p, r) s)" using Cons.prems(2-4) by (auto simp: pr serve_def callback_kept cancel_kept)
  moreover have "set (map snd prs) \<subseteq> set rules" using Cons.prems(2) by simp
  ultimately show ?case using Cons.IH Cons.prems(3,4)
    by (cases rule: poll_dispatch_Cons [OF Cons.prems(1) [unfolded pr]]) blast+
qed simp

lemma wait_next_event_kept:
  assumes "wait_next_event k poll rs s = (res, rs', s')" "set rs \<subseteq> set rules" "ok k" "I s"
  shows "I s' \<and> set rs' \<subseteq> set rules"
proof
  show "set rs' \<subseteq> set rules" using wait_next_event_subseq [OF assms(1)] assms(2) by (auto dest: list_emb_set)
  from assms(1) show "I s'"
  proof (cases rule: wait_next_event_cases)
    case (served pfds live s1 dres)
    have "set live \<subseteq> set rules" using poll_setup_subseq [OF served(1)] assms(2) by (auto dest: list_emb_set)
    then have "set (map snd (zip (with_revents pfds (snd (poll pfds))) live)) \<subseteq> set rules"
      using poll_setup_length [OF served(1)] by simp
    then show ?thesis
      using poll_setup_kept [OF served(1) assms(2,4)] poll_dispatch_kept [OF served(2) _ assms(3)] by blast
  qed (auto intro: poll_setup_kept [OF _ assms(2,4)])
qed

end

text \<open>
  A finer contract.  As long as the kernel behaves (\<open>ok k\<close>), callbacks
  and cancellations keep an invariant \<open>I\<close> of the captured state, whatever they return; a callback
  runs only for a rule that is not defunct, since serving one rule does not make another one
  defunct.  Cancelling a rule establishes \<open>Q\<close> for it, which then persists.  When \<open>hup\<close> is false,
  the kernel reports no hang-ups and only defunct rules are cancelled.
\<close>

locale event_rules =
  fixes rules :: "('k, 's) rule list"
    and ok :: "'k \<Rightarrow> bool"
    and hup :: bool
    and I :: "'s \<Rightarrow> bool"
    and Q :: "('k, 's) rule \<Rightarrow> 's \<Rightarrow> bool"
  assumes callback_inv: "\<lbrakk>r \<in> set rules; ok k; I s; \<not> defunct r s\<rbrakk> \<Longrightarrow> I (snd (r_callback r k s))"
    and cancel_inv: "\<lbrakk>r \<in> set rules; I s; defunct r s \<or> hup\<rbrakk> \<Longrightarrow> I (snd (r_cancel r s))"
    and callback_live: "\<lbrakk>r \<in> set rules; r' \<in> set rules; r \<noteq> r'; ok k; I s; \<not> defunct r' s\<rbrakk>
      \<Longrightarrow> \<not> defunct r' (snd (r_callback r k s))"
    and cancel_live: "\<lbrakk>r \<in> set rules; r' \<in> set rules; I s; \<not> defunct r' s\<rbrakk> \<Longrightarrow> \<not> defunct r' (snd (r_cancel r s))"
    and cancel_post: "\<lbrakk>r \<in> set rules; I s; defunct r s \<or> hup\<rbrakk> \<Longrightarrow> Q r (snd (r_cancel r s))"
    and callback_post: "\<lbrakk>r \<in> set rules; r' \<in> set rules; ok k; I s; \<not> defunct r s; Q r' s\<rbrakk> \<Longrightarrow> Q r' (snd (r_callback r k s))"
    and cancel_stable: "\<lbrakk>r \<in> set rules; r' \<in> set rules; I s; Q r' s; defunct r s \<or> hup\<rbrakk> \<Longrightarrow> Q r' (snd (r_cancel r s))"
begin

lemma poll_setup_inv:
  assumes "poll_setup rs s = (res, rs', s')" "set rs \<subseteq> set rules" "I s" "D \<subseteq> set rules" "\<forall>r \<in> D. Q r s"
    "L \<subseteq> set rules" "\<forall>r \<in> L. \<not> defunct r s"
  shows "I s' \<and> (\<forall>r \<in> D \<union> (set rs - set rs'). Q r s') \<and> (\<forall>r \<in> L. \<not> defunct r s') \<and>
    (\<forall>x. res = Inr x \<longrightarrow> (\<forall>r \<in> set rs'. \<not> defunct r s'))"
  using assms
proof (induction rs arbitrary: s res rs' s' D L)
  case (Cons r rs)
  show ?case
  proof (cases "defunct r s")
    case True
    obtain c s1 where c: "r_cancel r s = (c, s1)" by (cases "r_cancel r s")
    have s1: "I s1" "Q r s1" "\<forall>r' \<in> D. Q r' s1" "\<forall>r' \<in> L. \<not> defunct r' s1"
      using True Cons.prems cancel_inv [of r s] cancel_post [of r s] cancel_stable [of r _ s] cancel_live [of r _ s] c by auto
    show ?thesis
    proof (cases c)
      case (Inr u)
      with Cons.prems(1) True c have "poll_setup rs s1 = (res, rs', s')" by simp
      from Cons.IH [OF this, of "insert r D" L] Cons.prems s1 show ?thesis by auto
    qed (use Cons.prems(1) True c s1 in auto)
  next
    case False
    obtain res1 rs1 s1 where p: "poll_setup rs s = (res1, rs1, s1)" by (metis prod_cases3)
    with False Cons.prems(1) have "s' = s1" "rs' = r # rs1" "\<forall>x. res = Inr x \<longrightarrow> (\<exists>y. res1 = Inr y)"
      by (auto split: sum.splits prod.splits)
    with Cons.IH [OF p, of D "insert r L"] Cons.prems False show ?thesis by auto
  qed
qed simp

lemma serve_inv:
  assumes "r \<in> set rules" "ok k" "I s" "\<not> defunct r s" "hung_up p \<longrightarrow> hup" "D \<subseteq> set rules" "\<forall>r' \<in> D. Q r' s"
  shows "I (serve k (p, r) s)" "\<forall>r' \<in> D. Q r' (serve k (p, r) s)" "hung_up p \<Longrightarrow> Q r (serve k (p, r) s)"
    "\<lbrakk>r' \<in> set rules; r' \<noteq> r; \<not> defunct r' s\<rbrakk> \<Longrightarrow> \<not> defunct r' (serve k (p, r) s)"
  using assms callback_inv [of r k s] cancel_inv [of r s] callback_post [of r _ k s] cancel_stable [of r _ s]
    cancel_post [of r s] callback_live [of r r' k s] cancel_live [of r r' s]
  by (auto simp: serve_def hung_up_def ready_def)

lemma poll_dispatch_inv:
  assumes "poll_dispatch k prs s = (res, rs', s')" "set (map snd prs) \<subseteq> set rules" "distinct (map snd prs)" "ok k" "I s"
    "\<forall>r \<in> set (map snd prs). \<not> defunct r s" "D \<subseteq> set rules" "\<forall>r \<in> D. Q r s" "\<forall>(p, r) \<in> set prs. hung_up p \<longrightarrow> hup"
  shows "I s' \<and> (\<forall>r \<in> D \<union> (set (map snd prs) - set rs'). Q r s')"
  using assms
proof (induction prs arbitrary: s rs' D)
  case (Cons pr prs)
  obtain p r where pr: "pr = (p, r)" by (cases pr)
  have pre: "r \<in> set rules" "\<not> defunct r s" "hung_up p \<longrightarrow> hup" using Cons.prems(2,6,9) by (auto simp: pr)
  note sv = serve_inv [OF pre(1) Cons.prems(4,5) pre(2,3) Cons.prems(7,8)]
  from Cons.prems(1) [unfolded pr] show ?case
  proof (cases rule: poll_dispatch_Cons)
    case (stop ex)
    then show ?thesis using sv Cons.prems(5,8) by (auto simp: pr)
  next
    case (proceed rs1)
    let ?D = "if hung_up p then insert r D else D"
    have live: "\<forall>r \<in> set (map snd prs). \<not> defunct r (serve k (p, r') s)" if "r' = r" for r'
      using sv(4) Cons.prems(2,3,6) that by (auto simp: pr image_iff)
    have "I s' \<and> (\<forall>r \<in> ?D \<union> (set (map snd prs) - set rs1). Q r s')"
      by (rule Cons.IH [OF proceed(1)]) (use Cons.prems sv pre live [OF refl] in \<open>auto simp: pr\<close>)
    then show ?thesis using proceed(2) by (auto simp: pr split: if_splits)
  qed
qed simp

definition J :: "('k, 's) rule list \<Rightarrow> 's \<Rightarrow> bool" where
  "J rs s \<longleftrightarrow> set rs \<subseteq> set rules \<and> distinct rs \<and> I s \<and> (\<forall>r \<in> set rules - set rs. Q r s)"

lemma no_hup_hung_up:
  assumes "\<not> hup \<Longrightarrow> \<forall>i. revs i AND POLLHUP = 0"
  shows "\<forall>(p, r) \<in> set (zip (with_revents pfds revs) live). hung_up p \<longrightarrow> hup"
  using assms by (cases hup) (auto simp: with_revents_def hung_up_def dest!: set_zip_leftD)

lemma wait_next_event_inv:
  assumes "wait_next_event k poll rs s = (res, rs', s')" "J rs s" "ok k" "\<And>pfds i. \<not> hup \<Longrightarrow> snd (poll pfds) i AND POLLHUP = 0"
  shows "J rs' s'"
proof -
  have sub: "set rs' \<subseteq> set rs" "distinct rs'"
    using wait_next_event_subseq [OF assms(1)] assms(2) by (auto simp: J_def dest: list_emb_set subseq_distinctD)
  have st: "I s1 \<and> (\<forall>r \<in> (set rules - set rs) \<union> (set rs - set live). Q r s1) \<and> (\<forall>x. sres = Inr x \<longrightarrow> (\<forall>r \<in> set live. \<not> defunct r s1))"
    if "poll_setup rs s = (sres, live, s1)" for sres live s1
    using poll_setup_inv [OF that, of "set rules - set rs" "{}"] assms(2) by (auto simp: J_def)
  from assms(1) show ?thesis
  proof (cases rule: wait_next_event_cases)
    case (served pfds live s1 dres)
    let ?prs = "zip (with_revents pfds (snd (poll pfds))) live"
    have prs: "map snd ?prs = live" using poll_setup_length [OF served(1)] by simp
    have live: "set live \<subseteq> set rs" "distinct live" using poll_setup_subseq [OF served(1)] assms(2)
      by (auto simp: J_def dest: list_emb_set subseq_distinctD)
    have "I s' \<and> (\<forall>r \<in> ((set rules - set rs) \<union> (set rs - set live)) \<union> (set (map snd ?prs) - set rs'). Q r s')"
    proof (rule poll_dispatch_inv [OF served(2)])
      show "\<forall>(p, r) \<in> set ?prs. hung_up p \<longrightarrow> hup" by (rule no_hup_hung_up) (use assms(4) in blast)
    qed (use st [OF served(1)] live assms(2,3) in \<open>auto simp: prs J_def\<close>)
    then show ?thesis using sub assms(2) by (auto simp: prs J_def)
  qed (use st sub assms(2) in \<open>auto simp: J_def\<close>)
qed

text \<open>
  When nothing is left to poll, no remaining rule is interested, provided that cancelling a rule
  does not arouse the interest of an earlier one.
\<close>

definition calm :: "('k, 's) rule \<Rightarrow> ('k, 's) rule \<Rightarrow> bool" where
  "calm r r' \<longleftrightarrow> (\<forall>s. I s \<longrightarrow> defunct r' s \<longrightarrow> \<not> r_interest r s \<longrightarrow> \<not> r_interest r (snd (r_cancel r' s)))"

lemma poll_setup_uninterested:
  assumes "poll_setup rs s = (Inr (pfds, False), live, s')" "set rs \<subseteq> set rules" "I s" "sorted_wrt calm rs"
    "\<forall>r \<in> N. \<not> r_interest r s \<and> (\<forall>r' \<in> set rs. calm r r')"
  shows "\<forall>r \<in> N \<union> set live. \<not> r_interest r s'"
  using assms
proof (induction rs arbitrary: s pfds live N)
  case (Cons r rs)
  show ?case
  proof (cases "defunct r s")
    case True
    obtain c s1 where c: "r_cancel r s = (c, s1)" by (cases "r_cancel r s")
    have "poll_setup rs s1 = (Inr (pfds, False), live, s')" "I s1"
      using Cons.prems(1-3) True c cancel_inv [of r s] by (auto split: sum.splits)
    moreover have "\<forall>r' \<in> N. \<not> r_interest r' s1 \<and> (\<forall>r'' \<in> set rs. calm r' r'')"
      using Cons.prems(3,5) True c by (fastforce simp: calm_def)
    ultimately show ?thesis using Cons.IH [of s1 pfds live N] Cons.prems(2,4) by simp
  next
    case False
    then obtain pfds1 live1 where "poll_setup rs s = (Inr (pfds1, False), live1, s')" "live = r # live1" "\<not> r_interest r s"
      using Cons.prems(1) by (auto split: sum.splits prod.splits)
    then show ?thesis using Cons.IH [of s pfds1 live1 "insert r N"] Cons.prems(2-5) by auto
  qed
qed simp

end

section \<open>Properties\<close>

text \<open>
  The rules that are polled, by index: those whose descriptor is neither closed nor, for reading, at
  its end, when the rules in front of them have been swept.
\<close>

definition alive_at :: "('k, 's) rule list \<Rightarrow> 's \<Rightarrow> nat \<Rightarrow> bool" where
  "alive_at rules s i \<longleftrightarrow>
     (let r = rules ! i; fd = r_fd r (fold sweep (take i rules) s)
      in \<not> fd_closed fd \<and> (r_direction r = In \<longrightarrow> \<not> fd_eof fd))"

definition polled :: "('k, 's) rule list \<Rightarrow> 's \<Rightarrow> nat list" where
  "polled rules s = filter (alive_at rules s) [0..<length rules]"

definition asked :: "('k, 's) rule list \<Rightarrow> 's \<Rightarrow> nat \<Rightarrow> int \<times> u16" where
  "asked rules s i =
     (let r = rules ! i; st = fold sweep (take i rules) s
      in (fd_num (r_fd r st), if r_interest r st then if r_direction r = In then POLLIN else POLLOUT else 0))"

lemma polled_Cons:
  "polled (r # rs) s = (if defunct r s then [] else [0]) @ map Suc (polled rs (sweep r s))"
proof -
  have "alive_at (r # rs) s \<circ> Suc = alive_at rs (sweep r s)" by (auto simp: alive_at_def fun_eq_iff)
  moreover have "alive_at (r # rs) s 0 \<longleftrightarrow> \<not> defunct r s" by (auto simp: alive_at_def defunct_def)
  moreover have "[0..<length (r # rs)] = 0 # map Suc [0..<length rs]" by (simp add: upt_conv_Cons map_Suc_upt del: upt_Suc)
  ultimately show ?thesis by (simp add: polled_def filter_map)
qed

lemma asked_Cons: "asked (r # rs) s (Suc i) = asked rs (sweep r s) i"
  by (simp add: asked_def)

lemma poll_setup_polled:
  "poll_setup rules s = (Inr (pfds, b), live, s1) \<Longrightarrow>
   live = map ((!) rules) (polled rules s) \<and> map (\<lambda>p. (p_fd p, p_events p)) pfds = map (asked rules s) (polled rules s)"
proof (induction rules arbitrary: s pfds b live s1)
  case Nil
  then show ?case by (simp add: polled_def)
next
  case (Cons r rs)
  show ?case
  proof (cases "defunct r s")
    case True
    then obtain u t where c: "r_cancel r s = (Inr u, t)" "poll_setup rs t = (Inr (pfds, b), live, s1)"
      using Cons.prems by (auto split: prod.splits sum.splits)
    then have "sweep r s = t" using True by (simp add: sweep_def)
    then show ?thesis using Cons.IH [OF c(2)] True by (simp add: polled_Cons asked_Cons comp_def)
  next
    case False
    then obtain ps b' ls where c: "poll_setup rs s = (Inr (ps, b'), ls, s1)" "pfds = pollfd_of r s # ps" "live = r # ls"
      using Cons.prems by (auto split: prod.splits sum.splits)
    have "asked (r # rs) s 0 = (p_fd (pollfd_of r s), p_events (pollfd_of r s))"
      by (cases "r_direction r") (simp_all add: asked_def pollfd_of_def)
    moreover have "sweep r s = s" using False by (simp add: sweep_def)
    ultimately show ?thesis using Cons.IH [OF c(1)] False c(2,3) by (simp add: polled_Cons asked_Cons comp_def)
  qed
qed

text \<open>
  C19. A call of \<open>wait_next_event\<close> that returns \<open>Success\<close> has served exactly what the kernel reported:
  first the rules whose descriptor is at its end or closed are cancelled and dropped; each of the
  others is polled on its descriptor, for its direction if it is interested and for nothing
  otherwise; then, in the order of the rules, the callback runs once for each entry that is ready for the event it asked
  for, the entries that only hung up are cancelled and dropped, and nothing else happens.  No entry
  was in error, and every callback that ran has read or written its descriptor or ended its
  interest, so that the loop does not spin.
\<close>

theorem event_loop_serves:
  assumes "wait_next_event k poll rules s = (Inr Success, rules', s')"
  shows "\<exists>pfds live s1 prs. poll_setup rules s = (Inr (pfds, True), live, s1) \<and> s1 = fold sweep rules s \<and> subseq live rules \<and>
    live = map ((!) rules) (polled rules s) \<and> map (\<lambda>p. (p_fd p, p_events p)) pfds = map (asked rules s) (polled rules s) \<and>
    prs = zip (with_revents pfds (snd (poll pfds))) live \<and> map snd prs = live \<and>
    s' = fold (serve k) prs s1 \<and> rules' = map snd (filter (\<lambda>(p, r). \<not> hung_up p) prs) \<and>
    (\<forall>i < length prs. p_revents (fst (prs ! i)) AND (POLLERR OR POLLNVAL) = 0 \<and>
      (ready (fst (prs ! i)) \<longrightarrow>
       progress (snd (prs ! i)) (fold (serve k) (take i prs) s1) (fold (serve k) (take (Suc i) prs) s1)))"
  using assms
proof (cases rule: wait_next_event_cases)
  case (served pfds live s1 dres)
  then obtain u where "dres = Inr u" by (cases dres) auto
  define prs where "prs = zip (with_revents pfds (snd (poll pfds))) live"
  have "poll_dispatch k prs s1 = (Inr u, rules', s')" using served(2) \<open>dres = Inr u\<close> by (simp add: prs_def)
  note d = poll_dispatch_Inr [OF this]
  have "map snd prs = live" using poll_setup_length [OF served(1)] by (simp add: prs_def)
  with d show ?thesis
    using served(1) poll_setup_Inr [OF served(1)] poll_setup_subseq [OF served(1)] poll_setup_polled [OF served(1)] prs_def by blast
qed simp_all

definition reading_rule :: "(bytes reply, file_descriptor) rule" where
  "reading_rule = \<lparr>r_fd = (\<lambda>fd. fd), r_direction = In,
     r_callback = (\<lambda>k fd. case fd_read fd 10 k of (Inl ex, fd) \<Rightarrow> (Inl ex, fd) | (Inr _, fd) \<Rightarrow> (Inr (), fd)),
     r_interest = (\<lambda>fd. True), r_cancel = (\<lambda>fd. (Inr (), fd))\<rparr>"

abbreviation example_fd :: file_descriptor where
  "example_fd \<equiv> \<lparr>fd_num = 3, fd_eof = False, fd_closed = False, read_count = 0, write_count = 0\<rparr>"

theorem event_loop_serves_witness:
  "\<exists>pfds live s1 prs. poll_setup [reading_rule] example_fd = (Inr (pfds, True), live, s1) \<and>
    s1 = fold sweep [reading_rule] example_fd \<and> subseq live [reading_rule] \<and>
    prs = zip (with_revents pfds (\<lambda>_. POLLIN)) live \<and> map snd prs = live \<and>
    example_fd\<lparr>read_count := 1\<rparr> = fold (serve (Sys_Ok [7])) prs s1 \<and>
    [reading_rule] = map snd (filter (\<lambda>(p, r). \<not> hung_up p) prs)"
proof -
  have "wait_next_event (Sys_Ok [7]) (\<lambda>_. (Sys_Ok 1, \<lambda>_. POLLIN)) [reading_rule] example_fd
    = (Inr Success, [reading_rule], example_fd\<lparr>read_count := 1\<rparr>)"
    by (simp add: wait_next_event_def reading_rule_def defunct_def pollfd_of_def with_revents_def system_call_def
        fd_read_def service_count_def register_read_def Let_def size_to_read_def BUFFER_SIZE_def)
  from event_loop_serves [OF this] show ?thesis
    unfolding snd_conv by (elim exE conjE) (intro exI conjI)
qed

lemma poll_dispatch_quiet:
  "\<forall>(p, r) \<in> set prs. p_revents p = 0 \<Longrightarrow> poll_dispatch k prs s = (Inr (), map snd prs, s)"
  by (induction prs) auto

text \<open>
  An error of \<open>poll(2)\<close> other than an interruption is swallowed: the call returns \<open>Success\<close> although
  nothing was polled, where the comment of \<open>wait_next_event\<close> announces an exception.
\<close>

lemma poll_error_swallowed:
  assumes "\<forall>r \<in> set rules. \<not> defunct r s" "\<exists>r \<in> set rules. r_interest r s"
    and "\<And>pfds. poll pfds = (Sys_Err e, \<lambda>_. 0)" "e \<noteq> EINTR"
  shows "wait_next_event k poll rules s = (Inr Success, rules, s)"
proof -
  let ?pfds = "with_revents (map (\<lambda>r. pollfd_of r s) rules) (\<lambda>_. 0)"
  have "\<forall>p \<in> set ?pfds. p_revents p = 0" by (auto simp: with_revents_def)
  then have "poll_dispatch k (zip ?pfds rules) s = (Inr (), map snd (zip ?pfds rules), s)"
    by (intro poll_dispatch_quiet) (auto dest: set_zip_leftD)
  then show ?thesis
    using assms poll_setup_no_defunct [OF assms(1)]
    by (simp add: wait_next_event_def system_call_def Let_def)
qed

end
