(* ===== verification/Wrapping_Integers.thy ===== *)
theory Wrapping_Integers
  imports Sponge_Prelude
begin

text \<open>
  32-bit sequence numbers relative to an initial sequence number
  (src/libsponge/wrapping_integers.hh and .cc): the class \<open>WrappingInt32\<close>, its operators,
  and the conversions \<open>wrap\<close> and \<open>unwrap\<close> between them and 64-bit absolute numbers.
\<close>

section \<open>The type and its operators\<close>

datatype wrapping_int32 = WrappingInt32 (raw_value: u32)

text \<open>\<open>operator-\<close> on two numbers: the 32-bit difference read as a signed \<open>int32_t\<close>.\<close>

definition wi_diff :: "wrapping_int32 \<Rightarrow> wrapping_int32 \<Rightarrow> int" where
  "wi_diff a b = sint (raw_value a - raw_value b)"

definition wi_eq :: "wrapping_int32 \<Rightarrow> wrapping_int32 \<Rightarrow> bool" where
  "wi_eq a b \<longleftrightarrow> raw_value a = raw_value b"

definition wi_neq :: "wrapping_int32 \<Rightarrow> wrapping_int32 \<Rightarrow> bool" where
  "wi_neq a b \<longleftrightarrow> \<not> wi_eq a b"

definition wi_plus :: "wrapping_int32 \<Rightarrow> u32 \<Rightarrow> wrapping_int32" where
  "wi_plus a b = WrappingInt32 (raw_value a + b)"

definition wi_minus :: "wrapping_int32 \<Rightarrow> u32 \<Rightarrow> wrapping_int32" where
  "wi_minus a b = wi_plus a (- b)"

definition wi_ge :: "wrapping_int32 \<Rightarrow> wrapping_int32 \<Rightarrow> bool" where
  "wi_ge a b \<longleftrightarrow> raw_value b \<le> raw_value a"

section \<open>Conversions\<close>

definition TWOTOTHETHIRTYTWO :: u64 where
  "TWOTOTHETHIRTYTWO = 0x100000000"

definition wrap :: "u64 \<Rightarrow> wrapping_int32 \<Rightarrow> wrapping_int32" where
  "wrap n isn = (let abs_seqno32 = ucast (n AND 0xFFFFFFFF) in wi_plus isn abs_seqno32)"

definition unwrap :: "wrapping_int32 \<Rightarrow> wrapping_int32 \<Rightarrow> u64 \<Rightarrow> u64" where
  "unwrap n isn checkpoint =
     (let abs_seqno = (if wi_ge n isn then of_int (wi_diff n isn)
                       else ucast ((TWOTOTHETHIRTYTWO - ucast (raw_value isn)) + ucast (raw_value n)) :: u32)
      in if checkpoint \<le> ucast abs_seqno then ucast abs_seqno
         else
           let checkpoint_high_32bit = (checkpoint div TWOTOTHETHIRTYTWO) * TWOTOTHETHIRTYTWO;
               checkpoint_low_32bit = ucast (checkpoint AND 0xFFFFFFFF) :: u32
           in if abs_seqno < checkpoint_low_32bit
              then (if TWOTOTHETHIRTYTWO div 2 \<le> ucast (checkpoint_low_32bit - abs_seqno)
                    then checkpoint_high_32bit + ucast abs_seqno + TWOTOTHETHIRTYTWO
                    else checkpoint_high_32bit + ucast abs_seqno)
              else (if TWOTOTHETHIRTYTWO div 2 \<le> ucast (abs_seqno - checkpoint_low_32bit)
                    then checkpoint_high_32bit + ucast abs_seqno - TWOTOTHETHIRTYTWO
                    else checkpoint_high_32bit + ucast abs_seqno))"

section \<open>The conversions on natural numbers\<close>

lemma wi_eq_iff [simp]: "wi_eq a b \<longleftrightarrow> a = b"
  by (cases a; cases b) (simp add: wi_eq_def)

lemma mask32_u64: "(n :: u64) AND 0xFFFFFFFF = take_bit 32 n"
proof -
  have "(0xFFFFFFFF :: u64) = mask 32"
    by (simp add: mask_eq_exp_minus_1)
  then show ?thesis
    by (simp only: take_bit_eq_mask)
qed

lemma ucast_mask32: "(ucast ((n :: u64) AND 0xFFFFFFFF) :: u32) = ucast n"
  by (rule bit_word_eqI) (simp add: mask32_u64 bit_simps)

lemma unat_ucast_u32 [simp]: "unat (ucast (n :: u64) :: u32) = unat n mod two32"
  by (simp add: unsigned_ucast_eq take_bit_eq_mod)

lemma unat_ucast_u64 [simp]: "unat (ucast (n :: u32) :: u64) = unat n"
  using unat_u32_less [of n]
  by (simp add: unsigned_ucast_eq take_bit_eq_mod)

lemma wrap_eq: "wrap n isn = WrappingInt32 (raw_value isn + ucast n)"
  by (simp add: wrap_def wi_plus_def ucast_mask32)

definition rel_seqno :: "wrapping_int32 \<Rightarrow> wrapping_int32 \<Rightarrow> nat" where
  "rel_seqno n isn = unat (raw_value n - raw_value isn)"

lemma rel_seqno_less: "rel_seqno n isn < two32"
  by (simp add: rel_seqno_def unat_u32_less)

lemma rel_seqno_wrap [simp]: "rel_seqno (wrap x isn) isn = unat x mod two32"
  by (simp add: rel_seqno_def wrap_eq)

lemma wrap_eq_iff: "wrap x isn = n \<longleftrightarrow> unat x mod two32 = rel_seqno n isn"
proof -
  have "wrap x isn = n \<longleftrightarrow> ucast x = raw_value n - raw_value isn"
    by (cases n) (auto simp: wrap_eq)
  also have "\<dots> \<longleftrightarrow> unat (ucast x :: u32) = rel_seqno n isn"
    by (simp only: word_unat_eq_iff rel_seqno_def)
  finally show ?thesis by simp
qed

lemma abs_seqno_eq:
  "(if wi_ge n isn then of_int (wi_diff n isn)
    else ucast ((TWOTOTHETHIRTYTWO - ucast (raw_value isn)) + ucast (raw_value n)) :: u32)
   = raw_value n - raw_value isn"
proof -
  have "(ucast ((TWOTOTHETHIRTYTWO - ucast a) + ucast b) :: u32) = b - a" for a b :: u32
  proof -
    have "unat (TWOTOTHETHIRTYTWO - ucast a + ucast b :: u64) = two32 - unat a + unat b"
    proof -
      have 1: "unat (TWOTOTHETHIRTYTWO - ucast a :: u64) = two32 - unat a"
        using unat_u32_less [of a] by (simp add: TWOTOTHETHIRTYTWO_def unat_sub_u64 less_imp_le)
      have "two32 - unat a + unat b < two64"
        using unat_u32_less [of b] by linarith
      then show ?thesis
        by (subst unat_add_u64) (simp_all add: 1)
    qed
    then have "unat (ucast (TWOTOTHETHIRTYTWO - ucast a + ucast b :: u64) :: u32) =
      (two32 - unat a + unat b) mod two32"
      by simp
    also have "\<dots> = unat (b - a)"
      using unat_u32_less [of a] unat_u32_less [of b]
      by (auto simp: unat_sub_if_size word_le_nat_alt word_size mod_if)
    finally show ?thesis
      by (simp only: word_unat_eq_iff)
  qed
  then show ?thesis
    by (simp add: wi_diff_def)
qed

lemma unat_unwrap:
  "unat (unwrap n isn c) =
    (let a = rel_seqno n isn; l = unat c mod two32; h = unat c - l
     in if unat c \<le> a then a
        else if a < l then (if 2147483648 \<le> l - a then (h + a + two32) mod two64 else h + a)
        else (if 2147483648 \<le> a - l then h + a - two32 else h + a))"
proof -
  let ?d = "raw_value n - raw_value isn"
  let ?h = "(c div TWOTOTHETHIRTYTWO) * TWOTOTHETHIRTYTWO"
  let ?l = "ucast (c AND 0xFFFFFFFF) :: u32"
  have l: "unat ?l = unat c mod two32"
    by (simp add: ucast_mask32)
  have cl: "unat c < two64" by (rule unat_u64_less)
  have h: "unat ?h = unat c - unat c mod two32"
  proof -
    have "unat (c div TWOTOTHETHIRTYTWO) = unat c div two32"
      by (simp add: TWOTOTHETHIRTYTWO_def unat_div_distrib)
    moreover have "unat c div two32 * two32 < two64"
      using cl by (meson div_times_less_eq_dividend le_less_trans)
    ultimately show ?thesis
      by (simp add: TWOTOTHETHIRTYTWO_def unat_word_ariths minus_mod_eq_div_mult)
  qed
  have q: "unat c div two32 < two32"
    using cl by (simp add: less_mult_imp_div_less)
  have h': "unat ?h = unat c div two32 * two32"
    unfolding h by (simp add: minus_mod_eq_div_mult)
  have hb: "unat ?h + two32 \<le> two64"
    using q unfolding h' by linarith
  have d: "unat ?d < two32" by (rule unat_u32_less)
  have s: "unat (?h + ucast ?d) = unat ?h + unat ?d"
    using hb d by (subst unat_add_u64) simp_all
  have w: "unat (?h + ucast ?d + TWOTOTHETHIRTYTWO) = (unat ?h + unat ?d + two32) mod two64"
    unfolding unat_word_ariths(1) [of "?h + ucast ?d"] s by (simp add: TWOTOTHETHIRTYTWO_def)
  have lt: "?d < ?l \<longleftrightarrow> unat ?d < unat ?l" and cd: "c \<le> ucast ?d \<longleftrightarrow> unat c \<le> unat ?d"
    by (simp_all add: word_less_nat_alt word_le_nat_alt)
  have half: "TWOTOTHETHIRTYTWO div 2 \<le> ucast x \<longleftrightarrow> 2147483648 \<le> unat x" for x :: u32
    by (simp add: TWOTOTHETHIRTYTWO_def word_le_nat_alt)
  have ld: "unat ?d < unat ?l \<Longrightarrow> unat (?l - ?d) = unat ?l - unat ?d"
    and dl: "\<not> unat ?d < unat ?l \<Longrightarrow> unat (?d - ?l) = unat ?d - unat ?l"
    by (simp_all add: unat_sub word_le_nat_alt)
  have m: "two32 \<le> unat ?h + unat ?d \<Longrightarrow>
      unat (?h + ucast ?d - TWOTOTHETHIRTYTWO) = unat ?h + unat ?d - two32"
    using s by (subst unat_sub_u64) (simp_all add: TWOTOTHETHIRTYTWO_def)
  have pos: "\<not> unat c \<le> unat ?d \<Longrightarrow> \<not> unat ?d < unat ?l \<Longrightarrow> two32 \<le> unat ?h + unat ?d"
  proof -
    assume *: "\<not> unat c \<le> unat ?d" "\<not> unat ?d < unat ?l"
    have "unat c = unat ?h + unat ?l"
      unfolding h' l by simp
    with * have "unat ?h \<noteq> 0" by linarith
    then have "0 < unat c div two32"
      unfolding h' by simp
    then show ?thesis
      unfolding h' by linarith
  qed
  consider (near) "unat c \<le> unat ?d"
    | (up) "\<not> unat c \<le> unat ?d" "unat ?d < unat ?l"
    | (down) "\<not> unat c \<le> unat ?d" "\<not> unat ?d < unat ?l"
    by blast
  then show ?thesis
  proof cases
    case near
    then show ?thesis
      unfolding unwrap_def abs_seqno_eq Let_def rel_seqno_def cd by (simp only: if_True unat_ucast_u64)
  next
    case up
    then show ?thesis
      unfolding unwrap_def abs_seqno_eq Let_def rel_seqno_def cd lt half ld [OF up(2)]
      by (simp only: if_True if_False if_distrib [of unat] w s h l)
  next
    case down
    then show ?thesis
      unfolding unwrap_def abs_seqno_eq Let_def rel_seqno_def cd lt half dl [OF down(2)]
      by (simp only: if_True if_False if_distrib [of unat] s m [OF pos [OF down]] h l)
  qed
qed

section \<open>What the conversions promise\<close>

text \<open>
  Wrapping an absolute number and unwrapping it with a checkpoint less than half the
  sequence space away gives the number back. This is the law the receiver and the sender
  rely on; the locale also derives what both use of it: two numbers near the same checkpoint
  with the same wrapped form are equal.
\<close>

locale seqno_codec =
  fixes enc :: "u64 \<Rightarrow> 'i \<Rightarrow> 'n"
    and dec :: "'n \<Rightarrow> 'i \<Rightarrow> u64 \<Rightarrow> u64"
  assumes dec_enc: "\<bar>int (unat x) - int (unat c)\<bar> < 2147483648 \<Longrightarrow> dec (enc x i) i c = x"
begin

lemma enc_inj_near:
  fixes c :: u64
  assumes "\<bar>int (unat x) - int (unat c)\<bar> < 2147483648" "\<bar>int (unat y) - int (unat c)\<bar> < 2147483648"
    and "enc x i = enc y i"
  shows "x = y"
proof -
  from assms(3) have "dec (enc x i) i c = dec (enc y i) i c" by (rule arg_cong)
  then show ?thesis by (simp only: dec_enc [OF assms(1)] dec_enc [OF assms(2)])
qed

lemma dec_le_iff:
  "\<bar>int (unat x) - int (unat c)\<bar> < 2147483648 \<Longrightarrow> dec (enc x i) i c \<le> y \<longleftrightarrow> unat x \<le> unat y"
  by (simp only: dec_enc word_le_nat_alt)

end

text \<open>
  With the checkpoint written as \<open>q * 2^32 + l\<close>, the result is one of four linear forms.
\<close>

lemma unwrap_cases:
  obtains (low) "unat c \<le> rel_seqno n isn" "unat (unwrap n isn c) = rel_seqno n isn"
  | (up) q l where "unat c = q * two32 + l" "l < two32" "rel_seqno n isn < l"
      "2147483648 \<le> l - rel_seqno n isn"
      "unat (unwrap n isn c) = (q * two32 + rel_seqno n isn + two32) mod two64"
  | (same) q l where "unat c = q * two32 + l" "l < two32" "rel_seqno n isn < unat c"
      "\<bar>int l - int (rel_seqno n isn)\<bar> < 2147483648"
      "unat (unwrap n isn c) = q * two32 + rel_seqno n isn"
  | (down) q l where "unat c = q * two32 + two32 + l" "l < two32"
      "2147483648 \<le> rel_seqno n isn - l" "l < rel_seqno n isn"
      "unat (unwrap n isn c) = q * two32 + rel_seqno n isn"
proof -
  let ?a = "rel_seqno n isn"
  define q l where "q = unat c div two32" and "l = unat c mod two32"
  have c: "unat c = q * two32 + l"
    by (simp only: q_def l_def div_mult_mod_eq)
  have l: "l < two32"
    by (simp add: l_def)
  have u: "unat (unwrap n isn c) =
    (if unat c \<le> ?a then ?a
     else if ?a < l then (if 2147483648 \<le> l - ?a then (q * two32 + ?a + two32) mod two64 else q * two32 + ?a)
     else (if 2147483648 \<le> ?a - l then q * two32 + ?a - two32 else q * two32 + ?a))"
    using unat_unwrap [of n isn c] by (simp only: Let_def minus_mod_eq_div_mult q_def l_def)
  consider "unat c \<le> ?a" | "?a < unat c" "?a < l" "2147483648 \<le> l - ?a"
    | "?a < unat c" "\<bar>int l - int ?a\<bar> < 2147483648"
    | "?a < unat c" "l < ?a" "2147483648 \<le> ?a - l"
  proof (cases "unat c \<le> ?a")
    case False
    then have *: "?a < unat c" by simp
    show ?thesis
    proof (cases "\<bar>int l - int ?a\<bar> < 2147483648")
      case True
      with * that(3) show ?thesis by blast
    next
      case False
      then have "?a < l \<and> 2147483648 \<le> l - ?a \<or> l < ?a \<and> 2147483648 \<le> ?a - l"
        by (cases "?a < l") (auto simp: abs_if split: if_splits)
      with * that(2,4) show ?thesis by blast
    qed
  qed (rule that(1))
  then show thesis
  proof cases
    case 1
    with u show ?thesis by (intro low) simp_all
  next
    case 2
    with u have "unat (unwrap n isn c) = (q * two32 + ?a + two32) mod two64" by simp
    with 2 c l show ?thesis by (intro up)
  next
    case 3
    then have "\<not> 2147483648 \<le> l - ?a" "\<not> 2147483648 \<le> ?a - l" by linarith+
    with 3 have "unat (unwrap n isn c) = q * two32 + ?a"
      unfolding u by simp
    with 3 c l show ?thesis by (intro same)
  next
    case 4
    with c have "q \<noteq> 0" by (intro notI) simp
    then obtain k where k: "q = Suc k" using not0_implies_Suc by blast
    from 4 k have "unat (unwrap n isn c) = k * two32 + ?a"
      unfolding u by simp
    moreover from c k have "unat c = k * two32 + two32 + l" by simp
    ultimately show ?thesis using 4 l by (intro down)
  qed
qed

lemma wrap_unwrap: "wrap (unwrap n isn c) isn = n"
proof -
  have m: "(k * two32 + rel_seqno n isn) mod two32 = rel_seqno n isn" for k
    using rel_seqno_less [of n isn] by simp
  show ?thesis
  proof (cases c n isn rule: unwrap_cases)
    case low
    with m [of 0] show ?thesis by (simp add: wrap_eq_iff)
  next
    case (up q l)
    have "(q * two32 + rel_seqno n isn + two32) mod two64 mod two32 = rel_seqno n isn"
      using m [of "Suc q"] by (simp add: mod_mod_cancel add.commute add.left_commute)
    with up(5) show ?thesis by (simp only: wrap_eq_iff)
  next
    case (same q l)
    with m [of q] show ?thesis by (simp only: wrap_eq_iff)
  next
    case (down q l)
    with m [of q] show ?thesis by (simp only: wrap_eq_iff)
  qed
qed

text \<open>Two absolute numbers with the same 32-bit form differ by a multiple of \<open>2^32\<close>.\<close>

lemma wrap_same_block:
  assumes "wrap x isn = n"
  obtains k where "unat x = k * two32 + rel_seqno n isn"
proof
  show "unat x = unat x div two32 * two32 + rel_seqno n isn"
    using assms wrap_eq_iff [of x isn n] by (metis div_mult_mod_eq)
qed

lemma unwrap_closest_nat:
  assumes c: "unat c < two64 - 2147483648" and x: "unat x = k * two32 + rel_seqno n isn"
  shows "\<bar>int (unat (unwrap n isn c)) - int (unat c)\<bar> \<le> \<bar>int (unat x) - int (unat c)\<bar>"
proof (cases c n isn rule: unwrap_cases)
  case low
  with x show ?thesis by linarith
next
  case (up q l)
  have "q < two32 - 1" using c up(1-4) by linarith
  then have "(q * two32 + rel_seqno n isn + two32) mod two64 = q * two32 + rel_seqno n isn + two32"
    using rel_seqno_less [of n isn] by simp
  with up(5) have "unat (unwrap n isn c) = q * two32 + rel_seqno n isn + two32" by simp
  with up(1-4) x show ?thesis by (cases k "Suc q" rule: linorder_cases) linarith+
next
  case (same q l)
  with x show ?thesis by (cases k q rule: linorder_cases) linarith+
next
  case (down q l)
  with x rel_seqno_less [of n isn] show ?thesis by (cases k q rule: linorder_cases) linarith+
qed

lemma unwrap_unique_near:
  assumes "wrap x isn = n" and "\<bar>int (unat x) - int (unat c)\<bar> < 2147483648"
  shows "unwrap n isn c = x"
proof -
  from assms(1) obtain k where x: "unat x = k * two32 + rel_seqno n isn"
    by (rule wrap_same_block)
  have b: "unat x < two64" and a: "rel_seqno n isn < two32"
    by (rule unat_u64_less) (rule rel_seqno_less)
  have "unat (unwrap n isn c) = unat x"
  proof (cases c n isn rule: unwrap_cases)
    case low
    with x a assms(2) have "k = 0" by linarith
    with low x show ?thesis by simp
  next
    case (up q l)
    from up(1-4) x assms(2) have "k = Suc q" by linarith
    with x have x': "unat x = q * two32 + rel_seqno n isn + two32" by simp
    show ?thesis
      using b unfolding up(5) x' by (rule mod_less)
  next
    case (same q l)
    with x assms(2) have "k = q" by linarith
    with same x show ?thesis by simp
  next
    case (down q l)
    with x assms(2) a have "k = q" by linarith
    with down x show ?thesis by simp
  qed
  then show ?thesis by (simp only: word_unat_eq_iff)
qed

interpretation seq: seqno_codec wrap unwrap
  by unfold_locales (rule unwrap_unique_near [OF refl])

section \<open>Properties\<close>

text \<open>
  Round trip: an absolute sequence number within \<open>2^31\<close> of the checkpoint survives being
  wrapped and unwrapped, for every initial sequence number.
\<close>

theorem unwrap_wrap:
  assumes "\<bar>int (unat n) - int (unat checkpoint)\<bar> < 2147483648"
  shows "unwrap (wrap n isn) isn checkpoint = n"
  by (rule seq.dec_enc [OF assms])

theorem unwrap_wrap_witness:
  "unwrap (wrap 4294967299 (WrappingInt32 4294967290)) (WrappingInt32 4294967290) 4294967000 = 4294967299"
  by (rule unwrap_wrap) simp

text \<open>
  C17. Whatever the checkpoint below \<open>2^64 - 2^31\<close>, \<open>unwrap\<close> returns a number that wraps to the
  given one, and no other such number is closer to the checkpoint.
\<close>

theorem unwrap_closest:
  fixes checkpoint :: u64
  assumes "unat checkpoint < 18446744071562067968"
  shows "wrap (unwrap n isn checkpoint) isn = n \<and>
    (\<forall>x. wrap x isn = n \<longrightarrow>
       \<bar>int (unat (unwrap n isn checkpoint)) - int (unat checkpoint)\<bar> \<le> \<bar>int (unat x) - int (unat checkpoint)\<bar>)"
proof (intro conjI allI impI)
  show "wrap (unwrap n isn checkpoint) isn = n" by (rule wrap_unwrap)
  fix x
  assume "wrap x isn = n"
  then obtain k where "unat x = k * two32 + rel_seqno n isn" by (rule wrap_same_block)
  then show "\<bar>int (unat (unwrap n isn checkpoint)) - int (unat checkpoint)\<bar> \<le> \<bar>int (unat x) - int (unat checkpoint)\<bar>"
    using assms by (intro unwrap_closest_nat) simp_all
qed

theorem unwrap_closest_witness:
  "wrap (unwrap (WrappingInt32 17) (WrappingInt32 15) 4294967000) (WrappingInt32 15) = WrappingInt32 17"
  using unwrap_closest [of 4294967000 "WrappingInt32 17" "WrappingInt32 15"] by simp

end
