(* ===== verification/TCP_Segment.thy ===== *)
theory TCP_Segment
  imports Wrapping_Integers
begin

text \<open>
  The data of a TCP segment (src/libsponge/tcp_helpers/tcp_header.hh, tcp_segment.hh and the
  length function of tcp_segment.cc) and the constants of src/libsponge/tcp_helpers/tcp_config.hh.
  A payload \<open>Buffer\<close> is the byte string it exposes. Parsing and serialisation are in the
  theory \<open>TCP_Wire\<close>.
\<close>

record tcp_header =
  sport :: u16
  dport :: u16
  seqno :: wrapping_int32
  ackno :: wrapping_int32
  doff :: u8
  urg :: bool
  ack :: bool
  psh :: bool
  rst :: bool
  syn :: bool
  fin :: bool
  win :: u16
  th_cksum :: u16
  uptr :: u16

definition new_tcp_header :: tcp_header where
  "new_tcp_header =
     \<lparr>sport = 0, dport = 0, seqno = WrappingInt32 0, ackno = WrappingInt32 0, doff = 20 div 4,
      urg = False, ack = False, psh = False, rst = False, syn = False, fin = False,
      win = 0, th_cksum = 0, uptr = 0\<rparr>"

record tcp_segment =
  seg_header :: tcp_header
  seg_payload :: bytes

definition new_tcp_segment :: tcp_segment where
  "new_tcp_segment = \<lparr>seg_header = new_tcp_header, seg_payload = []\<rparr>"

definition length_in_sequence_space :: "tcp_segment \<Rightarrow> u64" where
  "length_in_sequence_space seg =
     str_size (seg_payload seg) + (if syn (seg_header seg) then 1 else 0)
       + (if fin (seg_header seg) then 1 else 0)"

text \<open>\<open>TCPHeader::operator==\<close>: ports and checksum are not compared.\<close>

definition tcp_header_eq :: "tcp_header \<Rightarrow> tcp_header \<Rightarrow> bool" where
  "tcp_header_eq h other \<longleftrightarrow>
     wi_eq (seqno h) (seqno other) \<and> wi_eq (ackno h) (ackno other) \<and> doff h = doff other \<and>
     urg h = urg other \<and> ack h = ack other \<and> psh h = psh other \<and> rst h = rst other \<and>
     syn h = syn other \<and> fin h = fin other \<and> win h = win other \<and> uptr h = uptr other"

section \<open>Configuration\<close>

definition DEFAULT_CAPACITY :: u64 where "DEFAULT_CAPACITY = 64000"
definition MAX_PAYLOAD_SIZE :: u64 where "MAX_PAYLOAD_SIZE = 1000"
definition TIMEOUT_DFLT :: u16 where "TIMEOUT_DFLT = 1000"
definition MAX_RETX_ATTEMPTS :: u32 where "MAX_RETX_ATTEMPTS = 8"

record tcp_config =
  rt_timeout :: u16
  recv_capacity :: u64
  send_capacity :: u64
  fixed_isn :: "wrapping_int32 option"

definition new_tcp_config :: tcp_config where
  "new_tcp_config = \<lparr>rt_timeout = TIMEOUT_DFLT, recv_capacity = DEFAULT_CAPACITY,
     send_capacity = DEFAULT_CAPACITY, fixed_isn = None\<rparr>"

section \<open>Facts on segments\<close>

definition seg_len :: "tcp_segment \<Rightarrow> nat" where
  "seg_len seg = length (seg_payload seg) + of_bool (syn (seg_header seg)) + of_bool (fin (seg_header seg))"

lemma unat_length_in_sequence_space [unat_simps]:
  assumes "length (seg_payload seg) < two64 - 2"
  shows "unat (length_in_sequence_space seg) = seg_len seg"
proof -
  have "length_in_sequence_space seg = of_nat (seg_len seg)"
    by (simp add: length_in_sequence_space_def seg_len_def str_size_def)
  moreover have "seg_len seg < two64" using assms by (simp add: seg_len_def)
  ultimately show ?thesis by (simp add: unat_of_nat_u64)
qed

lemma length_in_sequence_space_of_nat: "length_in_sequence_space seg = of_nat (seg_len seg)"
  by (simp add: length_in_sequence_space_def seg_len_def str_size_def)

section \<open>Segments of a stream\<close>

text \<open>
  A segment is genuine for the stream \<open>S\<close> sent with initial sequence number \<open>isn\<close> if it
  stands at some absolute sequence number \<open>a\<close>: number 0 is the SYN, byte \<open>i\<close> of the stream
  is number \<open>i + 1\<close>, and a FIN follows the last byte.
\<close>

definition seg_index :: "nat \<Rightarrow> nat" where
  "seg_index a = (if a = 0 then 0 else a - 1)"

definition seg_genuine :: "bytes \<Rightarrow> wrapping_int32 \<Rightarrow> nat \<Rightarrow> tcp_segment \<Rightarrow> bool" where
  "seg_genuine S isn a seg \<longleftrightarrow> a \<le> length S + 1 \<and>
     seqno (seg_header seg) = wrap (of_nat a) isn \<and> (syn (seg_header seg) \<longleftrightarrow> a = 0) \<and>
     slice_of S (seg_payload seg) (seg_index a) \<and>
     (fin (seg_header seg) \<longrightarrow> seg_index a + length (seg_payload seg) = length S)"

lemma seg_genuine_append:
  "seg_genuine S isn a seg \<Longrightarrow> \<not> fin (seg_header seg) \<Longrightarrow> seg_genuine (S @ T) isn a seg"
  by (auto simp: seg_genuine_def slice_of_append)

text \<open>A segment that occupies no sequence numbers, such as a bare acknowledgment.\<close>

definition seg_inert :: "tcp_segment \<Rightarrow> bool" where
  "seg_inert seg \<longleftrightarrow> seg_payload seg = [] \<and> \<not> syn (seg_header seg) \<and> \<not> fin (seg_header seg)"

end
