(* ===== verification/Net_Parser.thy ===== *)
theory Net_Parser
  imports Net_Buffer "HOL-Library.State_Monad"
begin

text \<open>
  \<open>ParseResult\<close>, \<open>NetParser\<close> and \<open>NetUnparser\<close> (src/libsponge/util/parser.hh and .cc): integers in
  network byte order.  A parser is a state (the rest of the buffer and the first error), and the
  parsing functions are computations in the state monad.  The locale \<open>wire_format\<close> is what the
  protocols rely on: parsing undoes serialising.
\<close>

section \<open>Results\<close>

datatype parse_result = NoError | BadChecksum | PacketTooShort | WrongIPVersion | HeaderTooShort
  | TruncatedPacket | Unsupported

text \<open>
  \<open>as_string\<close> indexes an array of six names with the number of the result; \<open>None\<close> stands for the
  read past its end.
\<close>

fun parse_result_index :: "parse_result \<Rightarrow> nat" where
  "parse_result_index NoError = 0"
| "parse_result_index BadChecksum = 1"
| "parse_result_index PacketTooShort = 2"
| "parse_result_index WrongIPVersion = 3"
| "parse_result_index HeaderTooShort = 4"
| "parse_result_index TruncatedPacket = 5"
| "parse_result_index Unsupported = 6"

definition as_string :: "parse_result \<Rightarrow> string option" where
  "as_string r =
     (let names = [''NoError'', ''BadChecksum'', ''PacketTooShort'', ''WrongIPVersion'', ''HeaderTooShort'',
                   ''TruncatedPacket''];
          i = parse_result_index r
      in if i < length names then Some (names ! i) else None)"

section \<open>Parsing\<close>

record net_parser =
  np_buffer :: bytes
  np_error :: parse_result

type_synonym 'a parser = "(net_parser, 'a) state"

definition new_net_parser :: "bytes \<Rightarrow> net_parser" where
  "new_net_parser b = \<lparr>np_buffer = b, np_error = NoError\<rparr>"

definition np_has_error :: "net_parser \<Rightarrow> bool" where
  "np_has_error p \<longleftrightarrow> np_error p \<noteq> NoError"

definition set_parse_error :: "parse_result \<Rightarrow> unit parser" where
  "set_parse_error res = do {
     p \<leftarrow> State_Monad.get;
     State_Monad.set (p\<lparr>np_error := res\<rparr>)
   }"

definition check_size :: "u64 \<Rightarrow> unit parser" where
  "check_size sz = do {
     p \<leftarrow> State_Monad.get;
     if str_size (np_buffer p) < sz then set_parse_error PacketTooShort else State_Monad.return ()
   }"

definition parse_int :: "'a::len word parser" where
  "parse_int = (let len = LENGTH('a) div 8 in do {
     check_size (of_nat len);
     p \<leftarrow> State_Monad.get;
     if np_has_error p then State_Monad.return 0
     else do {
       State_Monad.set (p\<lparr>np_buffer := drop len (np_buffer p)\<rparr>);
       State_Monad.return (foldl (\<lambda>ret b. push_bit 8 ret + ucast b) 0 (take len (np_buffer p)))
     }
   })"

definition parse_u32 :: "u32 parser" where "parse_u32 = parse_int"
definition parse_u16 :: "u16 parser" where "parse_u16 = parse_int"
definition parse_u8 :: "u8 parser" where "parse_u8 = parse_int"

definition parser_remove_prefix :: "u64 \<Rightarrow> unit parser" where
  "parser_remove_prefix n = do {
     check_size n;
     p \<leftarrow> State_Monad.get;
     if np_has_error p then State_Monad.return ()
     else State_Monad.set (p\<lparr>np_buffer := drop (unat n) (np_buffer p)\<rparr>)
   }"

text \<open>The loops that read the bytes of an array one by one.\<close>

fun parse_bytes :: "nat \<Rightarrow> bytes parser" where
  "parse_bytes 0 = State_Monad.return []"
| "parse_bytes (Suc n) = do {
     b \<leftarrow> parse_u8;
     bs \<leftarrow> parse_bytes n;
     State_Monad.return (b # bs)
   }"

section \<open>Unparsing\<close>

definition unparse_int :: "bytes \<Rightarrow> 'a::len word \<Rightarrow> bytes" where
  "unparse_int s val =
     (let len = LENGTH('a) div 8
      in foldl (\<lambda>s i. s @ [ucast (drop_bit ((len - i - 1) * 8) val AND 0xff)]) s [0..<len])"

definition unparse_u32 :: "bytes \<Rightarrow> u32 \<Rightarrow> bytes" where "unparse_u32 s val = unparse_int s val"
definition unparse_u16 :: "bytes \<Rightarrow> u16 \<Rightarrow> bytes" where "unparse_u16 s val = unparse_int s val"
definition unparse_u8 :: "bytes \<Rightarrow> u8 \<Rightarrow> bytes" where "unparse_u8 s val = unparse_int s val"

definition unparse_bytes :: "bytes \<Rightarrow> bytes \<Rightarrow> bytes" where
  "unparse_bytes s bs = foldl unparse_u8 s bs"

section \<open>Parsing undoes unparsing\<close>

named_theorems parse_simps "running parsers on serialised input"

text \<open>The bytes of a number, most significant first.\<close>

definition be_bytes :: "'a::len word \<Rightarrow> bytes" where
  "be_bytes v = (let len = LENGTH('a) div 8 in map (\<lambda>i. ucast (drop_bit ((len - i - 1) * 8) v AND 0xff)) [0..<len])"

lemma length_be_bytes [simp]: "length (be_bytes (v :: 'a::len word)) = LENGTH('a) div 8"
  by (simp add: be_bytes_def Let_def)

lemma unparse_int_eq: "unparse_int s v = s @ be_bytes v"
  proof -
  have "foldl (\<lambda>s i. s @ [g i]) t xs = t @ map g xs" for g :: "nat \<Rightarrow> u8" and t xs
    by (induction xs arbitrary: t) simp_all
  then show ?thesis by (simp add: unparse_int_def be_bytes_def Let_def)
qed

lemma unparse_u8_eq: "unparse_u8 s v = s @ [v]"
proof -
  have "(255 :: u8) = - 1" by simp
  then have "v AND 255 = v" by (simp only: and.right_neutral)
  then show ?thesis by (simp add: unparse_u8_def unparse_int_eq be_bytes_def)
qed

lemma unparse_bytes_eq: "unparse_bytes s bs = s @ bs"
  by (induction bs arbitrary: s) (simp_all add: unparse_bytes_def unparse_u8_eq)

definition be_int :: "bytes \<Rightarrow> 'a::len word" where
  "be_int bs = foldl (\<lambda>ret b. push_bit 8 ret + ucast b) 0 bs"

lemma ucast_low_byte: "(ucast (ucast ((x :: 'a::len word) AND 0xff) :: u8) :: 'a word) = take_bit 8 x"
proof -
  have "(0xff :: 'a word) = mask 8" by (simp add: mask_eq_exp_minus_1)
  then have "x AND 0xff = take_bit 8 x" by (simp add: take_bit_eq_mask)
  then show ?thesis by (auto intro!: bit_word_eqI simp: bit_simps)
qed

lemma be_int_be_bytes:
  fixes v :: "'a::len word"
  assumes "LENGTH('a) = 8 * n"
  shows "be_int (be_bytes v) = v"
proof -
  let ?b = "\<lambda>i. ucast (drop_bit ((n - i - 1) * 8) v AND 0xff) :: u8"
  have "foldl (\<lambda>ret b. push_bit 8 ret + ucast b) 0 (map ?b [0..<j]) = drop_bit ((n - j) * 8) v" if "j \<le> n" for j
    using that
  proof (induction j)
    case 0
    show ?case using assms by (auto intro!: bit_word_eqI simp: bit_simps mult.commute dest: bit_imp_le_length)
  next
    case (Suc j)
    let ?x = "drop_bit ((n - Suc j) * 8) v"
    have "(n - j) * 8 = (n - Suc j) * 8 + 8" using Suc.prems by (simp add: Suc_diff_Suc [symmetric])
    then have "drop_bit ((n - j) * 8) v = drop_bit 8 ?x" by (simp add: drop_bit_drop_bit add.commute)
    with Suc bits_ident [of 8 ?x] show ?case by (simp add: ucast_low_byte)
  qed
  from this [of n] show ?thesis using assms by (simp add: be_int_def be_bytes_def)
qed

lemma run_parse_int:
  assumes "length b < two64" "LENGTH('a) div 8 \<le> length b"
  shows "run_state (parse_int :: 'a::len word parser) \<lparr>np_buffer = b, np_error = NoError\<rparr> =
    (be_int (take (LENGTH('a) div 8) b), \<lparr>np_buffer = drop (LENGTH('a) div 8) b, np_error = NoError\<rparr>)"
proof -
  have "unat (of_nat (LENGTH('a) div 8) :: u64) = LENGTH('a) div 8"
    using assms by (intro unat_of_nat_u64) simp
  then have "\<not> str_size b < of_nat (LENGTH('a) div 8)"
    using assms by (simp add: word_less_nat_alt unat_str_size)
  then show ?thesis
    by (simp add: parse_int_def Let_def check_size_def np_has_error_def be_int_def)
qed

lemma run_parse_be_bytes:
  fixes v :: "'a::len word"
  assumes "LENGTH('a) = 8 * n" "length rest + n < two64"
  shows "run_state parse_int \<lparr>np_buffer = be_bytes v @ rest, np_error = NoError\<rparr> = (v, \<lparr>np_buffer = rest, np_error = NoError\<rparr>)"
  using assms be_int_be_bytes [OF assms(1), of v] by (subst run_parse_int) (simp_all add: add.commute)

lemma run_parse_u32 [parse_simps]:
  "length rest + 4 < two64 \<Longrightarrow>
   run_state parse_u32 \<lparr>np_buffer = be_bytes v @ rest, np_error = NoError\<rparr> = (v, \<lparr>np_buffer = rest, np_error = NoError\<rparr>)"
  by (simp add: parse_u32_def run_parse_be_bytes [where n = 4])

lemma run_parse_u16 [parse_simps]:
  "length rest + 2 < two64 \<Longrightarrow>
   run_state parse_u16 \<lparr>np_buffer = be_bytes v @ rest, np_error = NoError\<rparr> = (v, \<lparr>np_buffer = rest, np_error = NoError\<rparr>)"
  by (simp add: parse_u16_def run_parse_be_bytes [where n = 2])

lemma be_bytes_u8: "be_bytes (v :: u8) = [v]"
  using unparse_u8_eq [of "[]" v] by (simp add: unparse_u8_def unparse_int_eq)

lemma run_parse_u8 [parse_simps]:
  "length rest + 1 < two64 \<Longrightarrow>
   run_state parse_u8 \<lparr>np_buffer = v # rest, np_error = NoError\<rparr> = (v, \<lparr>np_buffer = rest, np_error = NoError\<rparr>)"
  using run_parse_be_bytes [where n = 1 and v = v and rest = rest] by (simp add: parse_u8_def be_bytes_u8)

lemma run_parse_bytes [parse_simps]:
  "length bs = n \<Longrightarrow> length rest + n < two64 \<Longrightarrow>
   run_state (parse_bytes n) \<lparr>np_buffer = bs @ rest, np_error = NoError\<rparr> = (bs, \<lparr>np_buffer = rest, np_error = NoError\<rparr>)"
proof (induction n arbitrary: bs)
  case (Suc n)
  then obtain b cs where "bs = b # cs" "length cs = n" by (cases bs) auto
  with Suc show ?case by (simp add: parse_simps)
qed simp

lemma run_remove_prefix [parse_simps]:
  "length b < two64 \<Longrightarrow> unat n \<le> length b \<Longrightarrow>
   run_state (parser_remove_prefix n) \<lparr>np_buffer = b, np_error = NoError\<rparr> =
     ((), \<lparr>np_buffer = drop (unat n) b, np_error = NoError\<rparr>)"
  by (simp add: parser_remove_prefix_def check_size_def np_has_error_def word_less_nat_alt unat_str_size)

lemma unparse_u32_eq: "unparse_u32 s v = s @ be_bytes v"
  by (simp add: unparse_u32_def unparse_int_eq)

lemma unparse_u16_eq: "unparse_u16 s v = s @ be_bytes v"
  by (simp add: unparse_u16_def unparse_int_eq)

lemmas unparse_simps = unparse_u32_eq unparse_u16_eq unparse_u8_eq unparse_bytes_eq

section \<open>Short input\<close>

text \<open>An error sticks: from then on every integer read is zero and nothing is consumed.\<close>

lemma run_check_size:
  "run_state (check_size n) p = ((), if str_size (np_buffer p) < n then p\<lparr>np_error := PacketTooShort\<rparr> else p)"
  by (simp add: check_size_def set_parse_error_def)

lemma parse_int_error:
  "run_state (parse_int :: 'a::len word parser) p = (v, q) \<Longrightarrow> np_has_error q \<Longrightarrow> v = 0 \<and> np_buffer q = np_buffer p"
  by (auto simp: parse_int_def Let_def run_check_size np_has_error_def split: if_splits)

lemma parse_int_sticky:
  "np_has_error p \<Longrightarrow> run_state (parse_int :: 'a::len word parser) p = (v, q) \<Longrightarrow> np_has_error q"
  by (auto simp: parse_int_def Let_def run_check_size np_has_error_def split: if_splits)

section \<open>Formats\<close>

text \<open>
  A format: \<open>ser\<close> serialises an object to bytes or throws, \<open>par\<close> parses an object from the front
  of the buffer into an existing object.  On the objects \<open>valid\<close> for the format, parsing undoes serialising and leaves exactly
  the bytes that follow.
\<close>

locale wire_format =
  fixes ser :: "'h \<Rightarrow> exn + bytes"
    and par :: "'h \<Rightarrow> (parse_result \<times> 'h) parser"
    and valid :: "'h \<Rightarrow> bool"
    and room :: nat
  assumes ser_valid: "valid h \<Longrightarrow> \<exists>b. ser h = Inr b \<and> length b \<le> room"
    and par_ser: "valid h \<Longrightarrow> ser h = Inr b \<Longrightarrow> length rest + room < two64 \<Longrightarrow>
      run_state (par h0) (new_net_parser (b @ rest)) = ((NoError, h), new_net_parser rest)"
begin

text \<open>No serialised object is a prefix of another one: the format is self-delimiting.\<close>

lemma ser_prefix_free:
  assumes "valid h" "valid h'" "ser h = Inr b" "ser h' = Inr b'"
    and "b @ rest = b' @ rest'" "length rest + room < two64" "length rest' + room < two64"
  shows "h = h' \<and> rest = rest'"
proof -
  have "((NoError, h), new_net_parser rest) = ((NoError, h'), new_net_parser rest')"
    using par_ser [OF assms(1,3,6), of h] par_ser [OF assms(2,4,7), of h] assms(5) by simp
  then show ?thesis by (simp add: new_net_parser_def)
qed

lemma ser_inj: "valid h \<Longrightarrow> valid h' \<Longrightarrow> room < two64 \<Longrightarrow> ser h = Inr b \<Longrightarrow> ser h' = Inr b \<Longrightarrow> h = h'"
  using ser_prefix_free [of h h' b b "[]" "[]"] by simp

end

end
