(* ===== verification/Internet_Checksum.thy ===== *)
theory Internet_Checksum
  imports Net_Parser
begin

text \<open>
  \<open>InternetChecksum\<close> (src/libsponge/util/util.hh and util.cc): the 32-bit running sum of the
  16-bit big-endian words of the data, folded to 16 bits and complemented.  The folding is a
  remainder modulo 65535, so a message with its checksum filled in verifies, and a message with
  one corrupted byte does not.
\<close>

section \<open>The class\<close>

record internet_checksum =
  ck_sum :: u32
  ck_parity :: bool

definition new_checksum :: "u32 \<Rightarrow> internet_checksum" where
  "new_checksum initial_sum = \<lparr>ck_sum = initial_sum, ck_parity = False\<rparr>"

definition ck_add_byte :: "internet_checksum \<Rightarrow> u8 \<Rightarrow> internet_checksum" where
  "ck_add_byte c b =
     (let val = ucast b :: u16;
          val = (if \<not> ck_parity c then push_bit 8 val else val)
      in c\<lparr>ck_sum := ck_sum c + ucast val, ck_parity := \<not> ck_parity c\<rparr>)"

definition ck_add :: "internet_checksum \<Rightarrow> bytes \<Rightarrow> internet_checksum" where
  "ck_add c data = foldl ck_add_byte c data"

lemma unat_fold_step:
  fixes r :: u32
  shows "unat (drop_bit 16 r + (r AND 0xffff)) = unat r div 65536 + unat r mod 65536"
proof -
  have m: "r AND 0xffff = take_bit 16 r" by (simp add: take_bit_eq_mask mask_eq_exp_minus_1)
  have d: "unat (drop_bit 16 r) = unat r div 65536" unfolding drop_bit_eq_div by (simp add: unat_div_distrib)
  have t: "unat (take_bit 16 r) = unat r mod 65536" unfolding take_bit_eq_mod by (simp add: unat_mod_distrib)
  have "unat r div 65536 + unat r mod 65536 < two32" using unat_u32_less [of r] by simp
  then show ?thesis by (simp add: m unat_word_ariths d t)
qed

lemma fold_step_less:
  fixes r :: u32
  assumes "0xffff < r"
  shows "unat (drop_bit 16 r + (r AND 0xffff)) < unat r"
proof -
  have "65536 \<le> unat r" using assms by (simp add: word_less_nat_alt)
  then have "0 < unat r div 65536" by simp
  moreover have "unat r = 65536 * (unat r div 65536) + unat r mod 65536" by simp
  ultimately show ?thesis unfolding unat_fold_step by linarith
qed

function fold_sum :: "u32 \<Rightarrow> u32" where
  "fold_sum ret = (if 0xffff < ret then fold_sum (drop_bit 16 ret + (ret AND 0xffff)) else ret)"
  by pat_completeness auto

termination fold_sum
  by (relation "measure unat") (simp_all add: fold_step_less)

declare fold_sum.simps [simp del]

definition ck_value :: "internet_checksum \<Rightarrow> u16" where
  "ck_value c = ucast (NOT (fold_sum (ck_sum c)))"

section \<open>What the sum is\<close>

text \<open>The sum of the 16-bit words, as a number; the flag says that the first byte is a low one.\<close>

fun word_sum :: "bool \<Rightarrow> bytes \<Rightarrow> nat" where
  "word_sum p [] = 0"
| "word_sum p (b # bs) = (if p then unat b else 256 * unat b) + word_sum (\<not> p) bs"

lemma word_sum_append: "word_sum p (xs @ ys) = word_sum p xs + word_sum (p \<noteq> odd (length xs)) ys"
proof (induction xs arbitrary: p)
  case (Cons x xs)
  show ?case by (cases p) (simp_all add: Cons)
qed simp

lemma word_sum_bound: "word_sum p bs \<le> 65280 * length bs"
proof (induction bs arbitrary: p)
  case (Cons b bs)
  show ?case using Cons [of True] Cons [of False] unat_u8_less [of b] by auto
qed simp

lemma word_sum_zeros: "word_sum p (replicate n 0) = 0"
  by (induction n arbitrary: p) simp_all

lemma ck_add_eq:
  "ck_add c bs = \<lparr>ck_sum = ck_sum c + of_nat (word_sum (ck_parity c) bs), ck_parity = (ck_parity c \<noteq> odd (length bs))\<rparr>"
proof (induction bs arbitrary: c)
  case (Cons b bs)
  have hi: "(ucast (push_bit 8 (ucast b :: u16)) :: u32) = of_nat (256 * unat b)"
  proof -
    have "(ucast (push_bit 8 (ucast b :: u16)) :: u32) = push_bit 8 (ucast b)"
      by (rule bit_word_eqI) (auto simp: bit_simps dest: bit_imp_le_length)
    then show ?thesis by (simp add: push_bit_eq_mult)
  qed
  have lo: "(ucast (ucast b :: u16) :: u32) = of_nat (unat b)"
    by (rule bit_word_eqI) (auto simp: bit_simps dest: bit_imp_le_length)
  show ?case using Cons [of "ck_add_byte c b"] by (auto simp: ck_add_def ck_add_byte_def Let_def hi lo)
qed (simp add: ck_add_def)

definition ck_total :: "u32 \<Rightarrow> bytes \<Rightarrow> nat" where
  "ck_total initial data = unat initial + word_sum False data"

lemma unat_ck_sum:
  "ck_total initial data < two32 \<Longrightarrow> unat (ck_sum (ck_add (new_checksum initial) data)) = ck_total initial data"
  by (simp add: ck_add_eq new_checksum_def ck_total_def unat_word_ariths unat_of_nat)

lemma ck_total_bound: "length data \<le> 65535 \<Longrightarrow> ck_total initial data \<le> unat initial + 65280 * 65535"
  using word_sum_bound [of False data] by (simp add: ck_total_def)

text \<open>Folding is the remainder modulo 65535, with 65535 instead of 0 for the positive multiples.\<close>

lemma fold_sum_mod: "unat (fold_sum r) mod 65535 = unat r mod 65535"
proof (induction r rule: fold_sum.induct)
  case (1 r)
  show ?case
  proof (cases "0xffff < r")
    case True
    have "unat r = (unat r div 65536 + unat r mod 65536) + 65535 * (unat r div 65536)"
      using div_mult_mod_eq [of "unat r" 65536] by simp
    then have "unat r mod 65535 = (unat r div 65536 + unat r mod 65536) mod 65535"
      by (metis mod_mult_self2)
    with 1 True show ?thesis by (subst fold_sum.simps) (simp add: unat_fold_step)
  qed (subst fold_sum.simps, simp)
qed

lemma fold_sum_le: "fold_sum r \<le> 0xffff"
  by (induction r rule: fold_sum.induct) (subst fold_sum.simps, auto)

lemma fold_sum_0_iff: "fold_sum r = 0 \<longleftrightarrow> r = 0"
proof (induction r rule: fold_sum.induct)
  case (1 r)
  show ?case
  proof (cases "0xffff < r")
    case True
    have "drop_bit 16 r + (r AND 0xffff) \<noteq> 0"
    proof
      assume "drop_bit 16 r + (r AND 0xffff) = 0"
      then have "unat (drop_bit 16 r + (r AND 0xffff)) = 0" by simp
      then have "unat r div 65536 = 0" "unat r mod 65536 = 0" unfolding unat_fold_step by simp_all
      then have "unat r = 0" using div_mult_mod_eq [of "unat r" 65536] by simp
      with True show False by (simp add: word_less_nat_alt)
    qed
    with 1 True show ?thesis by (subst fold_sum.simps) auto
  qed (subst fold_sum.simps, simp)
qed

lemma fold_sum_le_self: "unat (fold_sum r) \<le> unat r"
proof (induction r rule: fold_sum.induct)
  case (1 r)
  then show ?case using fold_step_less [of r] by (subst fold_sum.simps) auto
qed

lemma unat_ck_value: "unat (ck_value c) = 65535 - unat (fold_sum (ck_sum c))"
proof -
  let ?f = "fold_sum (ck_sum c)"
  have le: "unat ?f \<le> 65535" using fold_sum_le [of "ck_sum c"] by (simp add: word_le_nat_alt)
  have "(- 1 :: u32) = 4294967295" by simp
  then have m1: "unat (- 1 :: u32) = 4294967295" by (simp only:) simp
  have "NOT ?f = - 1 - ?f" by (simp add: not_eq_complement)
  then have "unat (NOT ?f) = 2 ^ 32 - 1 - unat ?f"
    using unat_sub [of ?f "- 1"] by (simp add: m1)
  also have "\<dots> = (65535 - unat ?f) + 65536 * 65535" using le by simp
  finally have "unat (NOT ?f) mod 65536 = (65535 - unat ?f) mod 65536" by (simp only: mod_mult_self2)
  then have "unat (NOT ?f) mod 65536 = 65535 - unat ?f" by simp
  then show ?thesis by (simp add: ck_value_def unsigned_ucast_eq take_bit_eq_mod)
qed

lemma ck_value_0_iff: "ck_value c = 0 \<longleftrightarrow> ck_sum c \<noteq> 0 \<and> 65535 dvd unat (ck_sum c)"
proof -
  let ?f = "unat (fold_sum (ck_sum c))"
  have "?f \<le> 65535" using fold_sum_le [of "ck_sum c"] by (simp add: word_le_nat_alt)
  then have "ck_value c = 0 \<longleftrightarrow> ?f = 65535"
    using unat_ck_value [of c] by (metis diff_is_0_eq' le_antisym order_refl unat_eq_0 zero_less_diff not_le)
  also have "\<dots> \<longleftrightarrow> ?f \<noteq> 0 \<and> ?f mod 65535 = 0"
    using \<open>?f \<le> 65535\<close> by (auto simp: mod_eq_0_iff_dvd dest!: dvd_imp_le)
  also have "\<dots> \<longleftrightarrow> ck_sum c \<noteq> 0 \<and> 65535 dvd unat (ck_sum c)"
    using fold_sum_0_iff [of "ck_sum c"] by (simp add: fold_sum_mod mod_eq_0_iff_dvd unat_eq_0)
  finally show ?thesis .
qed

section \<open>The checksum verifies its message and detects a corrupted byte\<close>

lemma word_sum_be_u16: "word_sum False (be_bytes (v :: u16)) = unat v"
proof -
  have m: "(x :: u16) AND 0xff = take_bit 8 x" for x by (simp add: take_bit_eq_mask mask_eq_exp_minus_1)
  have "drop_bit 8 v AND 0xff = drop_bit 8 v" by (rule bit_word_eqI) (auto simp: m bit_simps dest: bit_imp_le_length)
  then have "unat (ucast (drop_bit 8 v AND 0xff) :: u8) = unat v div 256"
    using unat_u16_less [of v] by (simp add: unsigned_ucast_eq unat_drop_bit_eq drop_bit_eq_div take_bit_eq_mod unat_div_distrib)
  moreover have "unat (ucast (v AND 0xff) :: u8) = unat v mod 256"
    by (simp add: m unsigned_ucast_eq take_bit_eq_mod unat_mod_distrib)
  moreover have "be_bytes v = [ucast (drop_bit 8 v AND 0xff), ucast (v AND 0xff)]"
    by (simp add: be_bytes_def upt_rec)
  ultimately show ?thesis by simp
qed

lemma word_sum_update:
  "i < length bs \<Longrightarrow>
   int (word_sum p (bs[i := b])) - int (word_sum p bs) =
     (if p = even i then 1 else 256) * (int (unat b) - int (unat (bs ! i)))"
proof (induction bs arbitrary: p i)
  case (Cons x bs)
  show ?case
  proof (cases i)
    case (Suc j)
    then show ?thesis using Cons.prems Cons.IH [of j "\<not> p"] by (cases p) auto
  qed (cases p; simp)
qed simp

lemma checksum_fill:
  assumes "even (length pre)" "ck_total initial (pre @ [0, 0] @ post) + 65535 < two32"
  defines "v \<equiv> ck_value (ck_add (new_checksum initial) (pre @ [0, 0] @ post))"
  shows "ck_value (ck_add (new_checksum initial) (pre @ be_bytes v @ post)) = 0"
proof -
  let ?s = "ck_total initial (pre @ [0, 0] @ post)"
  let ?c = "ck_add (new_checksum initial) (pre @ [0, 0] @ post)"
  let ?f = "unat (fold_sum (ck_sum ?c))"
  have f: "?f mod 65535 = ?s mod 65535" using assms(2) unat_ck_sum [of initial] by (simp add: fold_sum_mod)
  have v: "unat v = 65535 - ?f" unfolding v_def by (rule unat_ck_value)
  have f_le: "?f \<le> 65535" using fold_sum_le [of "ck_sum ?c"] by (simp add: word_le_nat_alt)
  have f_s: "?f \<le> ?s"
    using fold_sum_le_self [of "ck_sum ?c"] unat_ck_sum [of initial "pre @ [0, 0] @ post"] assms(2) by simp
  have t: "ck_total initial (pre @ be_bytes v @ post) = ?s + 65535 - ?f"
    using assms(1) v f_le by (simp add: ck_total_def word_sum_append word_sum_be_u16)
  have "65535 dvd ?s - ?f" using mod_eq_dvd_iff_nat [OF f_s, of 65535] f by simp
  then have "65535 dvd (?s - ?f) + 65535" by simp
  moreover have "(?s - ?f) + 65535 = ?s + 65535 - ?f" using f_s by simp
  ultimately have "65535 dvd ?s + 65535 - ?f" by (simp only:)
  moreover have "?s + 65535 - ?f \<noteq> 0" using f_s by simp
  moreover have "unat (ck_sum (ck_add (new_checksum initial) (pre @ be_bytes v @ post))) = ?s + 65535 - ?f"
    using t unat_ck_sum [of initial "pre @ be_bytes v @ post"] assms(2) by linarith
  ultimately show ?thesis by (metis ck_value_0_iff unat_0)
qed

lemma checksum_detects:
  assumes "ck_value (ck_add (new_checksum initial) data) = 0"
    and "i < length data" "b \<noteq> data ! i"
    and "ck_total initial data < two32" "ck_total initial (data[i := b]) < two32"
  shows "ck_value (ck_add (new_checksum initial) (data[i := b])) \<noteq> 0"
proof
  assume "ck_value (ck_add (new_checksum initial) (data[i := b])) = 0"
  then have "65535 dvd ck_total initial data" "65535 dvd ck_total initial (data[i := b])"
    using assms(1,4,5) by (auto simp: ck_value_0_iff unat_ck_sum)
  then have "(65535::int) dvd int (ck_total initial (data[i := b])) - int (ck_total initial data)"
    by (intro dvd_diff) presburger+
  also have "\<dots> = (if False = even i then 1 else 256) * (int (unat b) - int (unat (data ! i)))" (is "_ = ?d")
    using word_sum_update [OF assms(2), of False b] by (simp add: ck_total_def)
  finally have "65535 dvd ?d" .
  moreover have "\<bar>?d\<bar> < 65535"
  proof -
    have "\<bar>(if c then 1 else 256) * (x - y)\<bar> < 65535" if "0 \<le> x" "x < 256" "0 \<le> y" "y < 256" for c and x y :: int
      using that by auto
    moreover have "0 \<le> int (unat w) \<and> int (unat w) < 256" for w :: u8
      using uint_lt2p [of w] by simp
    ultimately show ?thesis by simp
  qed
  ultimately have "?d = 0" using dvd_imp_le_int [of ?d 65535] by linarith
  then have "int (unat b) = int (unat (data ! i))" by (auto split: if_splits)
  then have "unat b = unat (data ! i)" by (simp only: of_nat_eq_iff)
  then show False using assms(3) by (simp add: word_unat_eq_iff)
qed

text \<open>
  A corrupted byte is always detected: if the checksum of a message verifies (its value is 0)
  and one byte, at any position, is replaced by a different one, the checksum of the corrupted
  message is not 0.  The running sums must not overflow 32 bits, which holds for every message of
  at most 65535 bytes with a small initial sum.
\<close>

theorem checksum_detects_corruption:
  assumes "ck_value (ck_add (new_checksum initial) data) = 0"
    and "i < length data" "b \<noteq> data ! i"
    and "ck_total initial data < two32" "ck_total initial (data[i := b]) < two32"
  shows "ck_value (ck_add (new_checksum initial) (data[i := b])) \<noteq> 0"
  using assms by (rule checksum_detects)

theorem checksum_detects_corruption_witness:
  "ck_value (ck_add (new_checksum 0) ([0x45, 0, 0xba, 0xff][1 := 3])) \<noteq> 0"
proof (rule checksum_detects_corruption)
  show "ck_value (ck_add (new_checksum 0) [0x45, 0, 0xba, 0xff]) = 0"
    by (simp add: ck_value_0_iff ck_add_eq new_checksum_def)
  show "1 < length [0x45, 0, 0xba, 0xff :: u8]" by simp
  show "(3 :: u8) \<noteq> [0x45, 0, 0xba, 0xff] ! 1" by simp
  show "ck_total 0 [0x45, 0, 0xba, 0xff] < two32" by (simp add: ck_total_def)
  show "ck_total 0 ([0x45, 0, 0xba, 0xff][1 := 3]) < two32" by (simp add: ck_total_def)
qed

end
