(* ===== verification/TCP_Wire.thy ===== *)
theory TCP_Wire
  imports TCP_Segment Internet_Checksum Text_Format
begin

text \<open>
  The wire format of TCP: \<open>TCPHeader::parse\<close> and \<open>serialize\<close>
  (src/libsponge/tcp_helpers/tcp_header.cc) and \<open>TCPSegment::parse\<close> and \<open>serialize\<close>
  (src/libsponge/tcp_helpers/tcp_segment.cc).
\<close>

section \<open>Headers\<close>

text \<open>\<open>std::string::resize\<close>: cut off, or filled up with zero bytes.\<close>

definition str_resize :: "bytes \<Rightarrow> nat \<Rightarrow> bytes" where
  "str_resize s n = take n s @ replicate (n - length s) 0"

definition tcp_header_parse :: "tcp_header \<Rightarrow> (parse_result \<times> tcp_header) parser" where
  "tcp_header_parse h = do {
     sp \<leftarrow> parse_u16;
     dp \<leftarrow> parse_u16;
     sq \<leftarrow> parse_u32;
     ak \<leftarrow> parse_u32;
     doff_b \<leftarrow> parse_u8;
     fl_b \<leftarrow> parse_u8;
     wn \<leftarrow> parse_u16;
     ck \<leftarrow> parse_u16;
     up \<leftarrow> parse_u16;
     let h = \<lparr>sport = sp, dport = dp, seqno = WrappingInt32 sq, ackno = WrappingInt32 ak,
              doff = drop_bit 4 doff_b,
              urg = (fl_b AND 0x20 \<noteq> 0), ack = (fl_b AND 0x10 \<noteq> 0), psh = (fl_b AND 0x08 \<noteq> 0),
              rst = (fl_b AND 0x04 \<noteq> 0), syn = (fl_b AND 0x02 \<noteq> 0), fin = (fl_b AND 0x01 \<noteq> 0),
              win = wn, th_cksum = ck, uptr = up\<rparr>;
     if doff h < 5 then State_Monad.return (HeaderTooShort, h)
     else do {
       parser_remove_prefix (of_nat (unat (doff h) * 4 - 20));
       p \<leftarrow> State_Monad.get;
       State_Monad.return (if np_has_error p then np_error p else NoError, h)
     }
   }"

definition flags_byte :: "tcp_header \<Rightarrow> u8" where
  "flags_byte h =
     (if urg h then 0x20 else 0) OR (if ack h then 0x10 else 0) OR (if psh h then 0x08 else 0) OR
     (if rst h then 0x04 else 0) OR (if syn h then 0x02 else 0) OR (if fin h then 0x01 else 0)"

definition tcp_header_serialize :: "tcp_header \<Rightarrow> exn + bytes" where
  "tcp_header_serialize h =
     (if doff h < 5 then Inl (Runtime_Error ''TCP header too short'')
      else
        let ret = unparse_u16 [] (sport h);
            ret = unparse_u16 ret (dport h);
            ret = unparse_u32 ret (raw_value (seqno h));
            ret = unparse_u32 ret (raw_value (ackno h));
            ret = unparse_u8 ret (push_bit 4 (doff h));
            ret = unparse_u8 ret (flags_byte h);
            ret = unparse_u16 ret (win h);
            ret = unparse_u16 ret (th_cksum h);
            ret = unparse_u16 ret (uptr h)
        in Inr (str_resize ret (4 * unat (doff h))))"

definition tcp_header_to_string :: "tcp_header \<Rightarrow> string" where
  "tcp_header_to_string h =
     ''TCP source port: '' @ show_hex (unat (sport h)) @ newline @
     ''TCP dest port: '' @ show_hex (unat (dport h)) @ newline @
     ''TCP seqno: '' @ show_hex (unat (raw_value (seqno h))) @ newline @
     ''TCP ackno: '' @ show_hex (unat (raw_value (ackno h))) @ newline @
     ''TCP doff: '' @ show_hex (unat (doff h)) @ newline @
     ''Flags: urg: '' @ show_bool (urg h) @ '' ack: '' @ show_bool (ack h) @ '' psh: '' @ show_bool (psh h) @
     '' rst: '' @ show_bool (rst h) @ '' syn: '' @ show_bool (syn h) @ '' fin: '' @ show_bool (fin h) @ newline @
     ''TCP winsize: '' @ show_hex (unat (win h)) @ newline @
     ''TCP cksum: '' @ show_hex (unat (th_cksum h)) @ newline @
     ''TCP uptr: '' @ show_hex (unat (uptr h)) @ newline"

definition tcp_header_summary :: "tcp_header \<Rightarrow> string" where
  "tcp_header_summary h =
     ''Header(flags='' @ (if syn h then ''S'' else []) @ (if ack h then ''A'' else []) @
     (if rst h then ''R'' else []) @ (if fin h then ''F'' else []) @
     '',seqno='' @ show_dec (unat (raw_value (seqno h))) @ '',ack='' @ show_dec (unat (raw_value (ackno h))) @
     '',win='' @ show_dec (unat (win h)) @ '')''"

definition tcp_header_valid :: "tcp_header \<Rightarrow> bool" where
  "tcp_header_valid h \<longleftrightarrow> 5 \<le> doff h \<and> doff h < 16"

lemma drop_push_nibble: "(d :: u8) < 16 \<Longrightarrow> drop_bit 4 (push_bit 4 d) = d"
proof -
  assume "d < 16"
  then have "take_bit 4 d = d" by (simp add: take_bit_eq_mod mod_word_less)
  moreover have "drop_bit 4 (push_bit 4 d) = take_bit 4 d"
    by (rule bit_word_eqI) (auto simp: bit_simps)
  ultimately show ?thesis by simp
qed

lemma flags_byte_bits:
  "flags_byte h AND 0x20 \<noteq> 0 \<longleftrightarrow> urg h" "flags_byte h AND 0x10 \<noteq> 0 \<longleftrightarrow> ack h"
  "flags_byte h AND 0x08 \<noteq> 0 \<longleftrightarrow> psh h" "flags_byte h AND 0x04 \<noteq> 0 \<longleftrightarrow> rst h"
  "flags_byte h AND 0x02 \<noteq> 0 \<longleftrightarrow> syn h" "flags_byte h AND 0x01 \<noteq> 0 \<longleftrightarrow> fin h"
  by (cases "urg h"; cases "ack h"; cases "psh h"; cases "rst h"; cases "syn h"; cases "fin h"; simp add: flags_byte_def)+

text \<open>The bytes before the checksum field and the bytes after it.\<close>

definition tcp_pre :: "tcp_header \<Rightarrow> bytes" where
  "tcp_pre h = be_bytes (sport h) @ be_bytes (dport h) @ be_bytes (raw_value (seqno h)) @
     be_bytes (raw_value (ackno h)) @ [push_bit 4 (doff h), flags_byte h] @ be_bytes (win h)"

definition tcp_post :: "tcp_header \<Rightarrow> bytes" where
  "tcp_post h = be_bytes (uptr h) @ replicate (4 * unat (doff h) - 20) 0"

lemma length_tcp_pre [simp]: "length (tcp_pre h) = 16"
  by (simp add: tcp_pre_def)

lemma length_tcp_post: "5 \<le> doff h \<Longrightarrow> length (tcp_post h) = 4 * unat (doff h) - 18"
  by (simp add: tcp_post_def word_le_nat_alt)

lemma tcp_header_serialize_eq:
  "5 \<le> doff h \<Longrightarrow> tcp_header_serialize h = Inr (tcp_pre h @ be_bytes (th_cksum h) @ tcp_post h)"
  by (simp add: tcp_header_serialize_def tcp_pre_def tcp_post_def unparse_simps str_resize_def word_le_nat_alt
      word_less_nat_alt not_less)

lemma tcp_cksum_irrelevant [simp]:
  "tcp_pre (h\<lparr>th_cksum := c\<rparr>) = tcp_pre h" "tcp_post (h\<lparr>th_cksum := c\<rparr>) = tcp_post h"
  by (simp_all add: tcp_pre_def tcp_post_def flags_byte_def)

lemma run_tcp_header_parse:
  assumes "tcp_header_valid h" "length rest + 60 < two64"
  shows "run_state (tcp_header_parse h0) (new_net_parser (tcp_pre h @ be_bytes (th_cksum h) @ tcp_post h @ rest)) =
    ((NoError, h), new_net_parser rest)"
proof -
  have d: "5 \<le> doff h" "doff h < 16" "unat (doff h) < 16"
    using assms(1) by (auto simp: tcp_header_valid_def word_less_nat_alt)
  then have n: "unat (of_nat (unat (doff h) * 4 - 20) :: u64) = 4 * unat (doff h) - 20"
    by (subst unat_of_nat_u64) auto
  have "4 * unat (doff h) - 20 + length rest < two64" using d(3) assms(2) by simp
  then have "run_state (parser_remove_prefix (of_nat (unat (doff h) * 4 - 20)))
      \<lparr>np_buffer = replicate (4 * unat (doff h) - 20) 0 @ rest, np_error = NoError\<rparr> =
      ((), \<lparr>np_buffer = rest, np_error = NoError\<rparr>)"
    using n by (subst run_remove_prefix) simp_all
  moreover have "WrappingInt32 (raw_value w) = w" for w by (cases w) simp
  ultimately show ?thesis using d assms(2)
    by (simp add: tcp_header_parse_def new_net_parser_def tcp_pre_def tcp_post_def parse_simps
        drop_push_nibble flags_byte_bits np_has_error_def Let_def)
qed

interpretation tcp_wire: wire_format tcp_header_serialize tcp_header_parse tcp_header_valid 60
proof
  fix h assume "tcp_header_valid h"
  then have "5 \<le> doff h" "unat (doff h) < 16" by (auto simp: tcp_header_valid_def word_less_nat_alt)
  then show "\<exists>b. tcp_header_serialize h = Inr b \<and> length b \<le> 60"
    by (simp add: tcp_header_serialize_eq length_tcp_post)
next
  fix h h0 and b rest :: bytes
  assume "tcp_header_valid h" "tcp_header_serialize h = Inr b" "length rest + 60 < two64"
  moreover from this have "b = tcp_pre h @ be_bytes (th_cksum h) @ tcp_post h"
    by (simp add: tcp_header_serialize_eq tcp_header_valid_def)
  ultimately show "run_state (tcp_header_parse h0) (new_net_parser (b @ rest)) = ((NoError, h), new_net_parser rest)"
    by (simp add: run_tcp_header_parse)
qed

section \<open>Segments\<close>

definition tcp_segment_parse :: "tcp_segment \<Rightarrow> bytes \<Rightarrow> u32 \<Rightarrow> parse_result \<times> tcp_segment" where
  "tcp_segment_parse seg buffer datagram_layer_checksum =
     (let check = ck_add (new_checksum datagram_layer_checksum) buffer
      in if ck_value check \<noteq> 0 then (BadChecksum, seg)
         else case run_state (tcp_header_parse (seg_header seg)) (new_net_parser buffer) of
           ((_, h), p) \<Rightarrow> (np_error p, \<lparr>seg_header = h, seg_payload = np_buffer p\<rparr>))"

definition tcp_segment_serialize :: "tcp_segment \<Rightarrow> u32 \<Rightarrow> exn + buffer_list" where
  "tcp_segment_serialize seg datagram_layer_checksum =
     (let header_out = (seg_header seg)\<lparr>th_cksum := 0\<rparr> in
      case tcp_header_serialize header_out of
        Inl e \<Rightarrow> Inl e
      | Inr s \<Rightarrow>
         let check = ck_add (new_checksum datagram_layer_checksum) s;
             check = ck_add check (seg_payload seg);
             header_out = header_out\<lparr>th_cksum := ck_value check\<rparr>
         in case tcp_header_serialize header_out of
              Inl e \<Rightarrow> Inl e
            | Inr s \<Rightarrow> Inr (bl_append (bl_append [] (bl_of_string s)) (bl_of_string (seg_payload seg))))"

definition seg_checksum :: "tcp_segment \<Rightarrow> u32 \<Rightarrow> u16" where
  "seg_checksum seg dlc =
     ck_value (ck_add (new_checksum dlc) (tcp_pre (seg_header seg) @ [0, 0] @ tcp_post (seg_header seg) @ seg_payload seg))"

lemma ck_add_append: "ck_add c (xs @ ys) = ck_add (ck_add c xs) ys"
  by (simp add: ck_add_def)

lemma be_bytes_u16_0: "be_bytes (0 :: u16) = [0, 0]"
  by (simp add: be_bytes_def upt_rec)

lemma tcp_segment_serialize_eq:
  assumes "5 \<le> doff (seg_header seg)"
  shows "tcp_segment_serialize seg dlc =
    Inr [tcp_pre (seg_header seg) @ be_bytes (seg_checksum seg dlc) @ tcp_post (seg_header seg), seg_payload seg]"
  using assms
  by (simp add: tcp_segment_serialize_def tcp_header_serialize_eq bl_of_string_def bl_append_def seg_checksum_def
      be_bytes_u16_0 flip: ck_add_append)

text \<open>
  The sizes for which the 32-bit running sum of the checksum cannot overflow: anything that fits
  into an IPv4 datagram, with a pseudo-header sum of at most 20 bits.
\<close>

definition tcp_fits :: "tcp_segment \<Rightarrow> u32 \<Rightarrow> bool" where
  "tcp_fits seg dlc \<longleftrightarrow> tcp_header_valid (seg_header seg) \<and>
     4 * unat (doff (seg_header seg)) + length (seg_payload seg) \<le> 65535 \<and> dlc < 0x100000"

lemma tcp_fits_length:
  assumes "tcp_fits seg dlc" "tcp_segment_serialize seg dlc = Inr bl"
  shows "length (bl_concatenate bl) \<le> 65535"
proof -
  have "5 \<le> doff (seg_header seg)" "5 \<le> unat (doff (seg_header seg))"
    using assms(1) by (auto simp: tcp_fits_def tcp_header_valid_def word_le_nat_alt)
  then show ?thesis using assms
    by (auto simp: tcp_segment_serialize_eq bl_concatenate_eq length_tcp_post tcp_fits_def)
qed

lemma ck_total_small: "length data \<le> 65535 \<Longrightarrow> dlc < (0x100000 :: u32) \<Longrightarrow> ck_total dlc data + 65535 < two32"
  using ck_total_bound [of data dlc] by (simp add: word_less_nat_alt)

lemma tcp_serialized_verifies:
  assumes "tcp_fits seg dlc" "tcp_segment_serialize seg dlc = Inr bl"
  shows "ck_value (ck_add (new_checksum dlc) (bl_concatenate bl)) = 0"
proof -
  let ?h = "seg_header seg" and ?post = "tcp_post (seg_header seg) @ seg_payload seg"
  have d: "5 \<le> doff ?h" using assms(1) by (auto simp: tcp_fits_def tcp_header_valid_def)
  have bl: "bl_concatenate bl = tcp_pre ?h @ be_bytes (seg_checksum seg dlc) @ ?post"
    using assms(2) d by (auto simp: tcp_segment_serialize_eq bl_concatenate_eq)
  then have "length (tcp_pre ?h @ [0, 0] @ ?post) \<le> 65535" using tcp_fits_length [OF assms] by simp
  then have "ck_total dlc (tcp_pre ?h @ [0, 0] @ ?post) + 65535 < two32"
    using assms(1) ck_total_small unfolding tcp_fits_def by blast
  then show ?thesis unfolding bl seg_checksum_def by (intro checksum_fill) simp_all
qed

lemma tcp_parse_serialize:
  assumes "tcp_fits seg dlc"
  shows "\<exists>bl. tcp_segment_serialize seg dlc = Inr bl \<and>
    tcp_segment_parse seg0 (bl_concatenate bl) dlc =
      (NoError, seg\<lparr>seg_header := (seg_header seg)\<lparr>th_cksum := seg_checksum seg dlc\<rparr>\<rparr>)"
proof -
  let ?h = "(seg_header seg)\<lparr>th_cksum := seg_checksum seg dlc\<rparr>"
  have d: "5 \<le> doff (seg_header seg)" "tcp_header_valid ?h"
    using assms by (auto simp: tcp_fits_def tcp_header_valid_def)
  obtain bl where bl: "tcp_segment_serialize seg dlc = Inr bl"
    "bl = [tcp_pre (seg_header seg) @ be_bytes (seg_checksum seg dlc) @ tcp_post (seg_header seg), seg_payload seg]"
    using d(1) by (simp add: tcp_segment_serialize_eq)
  have "length (seg_payload seg) + 60 < two64" using assms by (simp add: tcp_fits_def)
  then show ?thesis
    using bl tcp_serialized_verifies [OF assms bl(1)]
      run_tcp_header_parse [OF d(2), of "seg_payload seg" "seg_header seg0"]
    by (auto simp: tcp_segment_parse_def bl_concatenate_eq new_net_parser_def)
qed

text \<open>
  C30. \<open>TCPSegment::parse\<close> undoes \<open>TCPSegment::serialize\<close>: every segment with a valid data offset and
  a payload that fits into a datagram serialises, and parsing the bytes under the same
  pseudo-header sum, into whatever segment object, succeeds and gives back the same header (with
  the checksum filled in) and the same payload.
\<close>

theorem tcp_segment_roundtrip:
  assumes "tcp_fits seg dlc"
  shows "\<exists>bl. tcp_segment_serialize seg dlc = Inr bl \<and>
    tcp_segment_parse seg0 (bl_concatenate bl) dlc =
      (NoError, seg\<lparr>seg_header := (seg_header seg)\<lparr>th_cksum := seg_checksum seg dlc\<rparr>\<rparr>)"
  using assms by (rule tcp_parse_serialize)

abbreviation example_segment :: tcp_segment where
  "example_segment \<equiv> new_tcp_segment\<lparr>seg_payload := [1, 2, 3]\<rparr>"

lemma example_fits: "tcp_fits example_segment 7"
  by (simp add: tcp_fits_def tcp_header_valid_def new_tcp_segment_def new_tcp_header_def)

theorem tcp_segment_roundtrip_witness:
  "tcp_fits example_segment 7 \<and>
   (\<exists>bl. tcp_segment_serialize example_segment 7 = Inr bl \<and>
    tcp_segment_parse new_tcp_segment (bl_concatenate bl) 7 =
      (NoError, example_segment\<lparr>seg_header := (seg_header example_segment)\<lparr>th_cksum := seg_checksum example_segment 7\<rparr>\<rparr>))"
  using example_fits tcp_segment_roundtrip [OF example_fits] by blast

text \<open>
  C31. A segment corrupted in one byte is rejected: whatever byte of a serialised segment is changed,
  header or payload, \<open>TCPSegment::parse\<close> returns \<open>BadChecksum\<close> and leaves the segment object as it
  was.
\<close>

theorem tcp_corruption_rejected:
  assumes "tcp_fits seg dlc" "tcp_segment_serialize seg dlc = Inr bl"
    and "i < length (bl_concatenate bl)" "b \<noteq> bl_concatenate bl ! i"
  shows "tcp_segment_parse seg0 ((bl_concatenate bl)[i := b]) dlc = (BadChecksum, seg0)"
proof -
  let ?data = "bl_concatenate bl"
  have len: "length ?data \<le> 65535" by (rule tcp_fits_length [OF assms(1,2)])
  then have "ck_total dlc ?data + 65535 < two32" "ck_total dlc (?data[i := b]) + 65535 < two32"
    using assms(1) len ck_total_small [of ?data dlc] ck_total_small [of "?data[i := b]" dlc]
    by (auto simp: tcp_fits_def)
  then have "ck_value (ck_add (new_checksum dlc) (?data[i := b])) \<noteq> 0"
    using tcp_serialized_verifies [OF assms(1,2)] assms(3,4) by (intro checksum_detects) simp_all
  then show ?thesis by (simp add: tcp_segment_parse_def)
qed

theorem tcp_corruption_rejected_witness:
  "tcp_segment_parse new_tcp_segment
     ([0,0, 0,0, 0,0,0,0, 0,0,0,0, 0x50,0, 0,0, 0xab,0xf6, 0,0, 1,2,3][20 := 5]) 7 = (BadChecksum, new_tcp_segment)"
proof -
  let ?bl = "[[0,0, 0,0, 0,0,0,0, 0,0,0,0, 0x50,0, 0,0, 0xab,0xf6, 0,0], [1,2,3]]"
  have "tcp_segment_serialize example_segment 7 = Inr ?bl" by code_simp
  from tcp_corruption_rejected [OF example_fits this, of 20 5 new_tcp_segment] show ?thesis
    by (simp add: bl_concatenate_eq)
qed

text \<open>
  What \<open>TCPSegment::parse\<close> does not check: the result of \<open>TCPHeader::parse\<close> is dropped and only the
  parser's own error is returned, so a segment whose header says it is shorter than the minimum
  is accepted.
\<close>

lemma short_doff_accepted:
  "tcp_segment_parse new_tcp_segment [0,1, 0,2, 0,0,0,0, 0,0,0,0, 0x10,0, 0,0, 0xef,0xfc, 0,0] 0 =
     (NoError, new_tcp_segment\<lparr>seg_header := new_tcp_header\<lparr>sport := 1, dport := 2, doff := 1, th_cksum := 0xeffc\<rparr>\<rparr>)"
  by code_simp

end
