(* ===== verification/IPv4.thy ===== *)
theory IPv4
  imports TCP_Wire Text_Format
begin

text \<open>
  \<open>IPv4Header\<close> (src/libsponge/tcp_helpers/ipv4_header.hh and .cc) and \<open>IPv4Datagram\<close>
  (src/libsponge/tcp_helpers/ipv4_datagram.hh and .cc): parsing and serialising with every check,
  the pseudo-header sum for TCP, and the text output.
\<close>

section \<open>Headers\<close>

record ipv4_header =
  ver :: u8
  hlen :: u8
  tos :: u8
  ip_len :: u16
  ip_id :: u16
  df :: bool
  mf :: bool
  ip_offset :: u16
  ttl :: u8
  proto :: u8
  ip_cksum :: u16
  ip_src :: u32
  ip_dst :: u32

definition DEFAULT_TTL :: u8 where "DEFAULT_TTL = 128"
definition PROTO_TCP :: u8 where "PROTO_TCP = 6"

definition new_ipv4_header :: ipv4_header where
  "new_ipv4_header =
     \<lparr>ver = 4, hlen = 20 div 4, tos = 0, ip_len = 0, ip_id = 0, df = True, mf = False, ip_offset = 0,
      ttl = DEFAULT_TTL, proto = PROTO_TCP, ip_cksum = 0, ip_src = 0, ip_dst = 0\<rparr>"

definition ipv4_header_parse :: "ipv4_header \<Rightarrow> (parse_result \<times> ipv4_header) parser" where
  "ipv4_header_parse h = do {
     p \<leftarrow> State_Monad.get;
     let original_serialized_version = np_buffer p;
     let data_size = str_size (np_buffer p);
     if data_size < 20 then State_Monad.return (PacketTooShort, h)
     else do {
       first_byte \<leftarrow> parse_u8;
       ts \<leftarrow> parse_u8;
       ln \<leftarrow> parse_u16;
       idn \<leftarrow> parse_u16;
       fo_val \<leftarrow> parse_u16;
       tl \<leftarrow> parse_u8;
       pr \<leftarrow> parse_u8;
       ck \<leftarrow> parse_u16;
       sr \<leftarrow> parse_u32;
       ds \<leftarrow> parse_u32;
       let h = \<lparr>ver = drop_bit 4 first_byte, hlen = first_byte AND 0x0f, tos = ts, ip_len = ln, ip_id = idn,
                df = (fo_val AND 0x4000 \<noteq> 0), mf = (fo_val AND 0x2000 \<noteq> 0), ip_offset = fo_val AND 0x1fff,
                ttl = tl, proto = pr, ip_cksum = ck, ip_src = sr, ip_dst = ds\<rparr>;
       if data_size < 4 * ucast (hlen h) then State_Monad.return (PacketTooShort, h)
       else if ver h \<noteq> 4 then State_Monad.return (WrongIPVersion, h)
       else if hlen h < 5 then State_Monad.return (HeaderTooShort, h)
       else if data_size \<noteq> ucast (ip_len h) then State_Monad.return (TruncatedPacket, h)
       else do {
         parser_remove_prefix (ucast (hlen h) * 4 - 20);
         p \<leftarrow> State_Monad.get;
         if np_has_error p then State_Monad.return (np_error p, h)
         else
           let check = ck_add (new_checksum 0) (take (4 * unat (hlen h)) original_serialized_version)
           in State_Monad.return (if ck_value check \<noteq> 0 then BadChecksum else NoError, h)
       }
     }
   }"

definition ip_first_byte :: "ipv4_header \<Rightarrow> u8" where
  "ip_first_byte h = push_bit 4 (ver h) OR (hlen h AND 0xf)"

definition fo_val :: "ipv4_header \<Rightarrow> u16" where
  "fo_val h = (if df h then 0x4000 else 0) OR (if mf h then 0x2000 else 0) OR (ip_offset h AND 0x1fff)"

definition ipv4_header_serialize :: "ipv4_header \<Rightarrow> exn + bytes" where
  "ipv4_header_serialize h =
     (if ver h \<noteq> 4 then Inl (Runtime_Error ''wrong IP version'')
      else if 4 * unat (hlen h) < 20 then Inl (Runtime_Error ''IP header too short'')
      else
        let ret = unparse_u8 [] (ip_first_byte h);
            ret = unparse_u8 ret (tos h);
            ret = unparse_u16 ret (ip_len h);
            ret = unparse_u16 ret (ip_id h);
            ret = unparse_u16 ret (fo_val h);
            ret = unparse_u8 ret (ttl h);
            ret = unparse_u8 ret (proto h);
            ret = unparse_u16 ret (ip_cksum h);
            ret = unparse_u32 ret (ip_src h);
            ret = unparse_u32 ret (ip_dst h)
        in Inr (str_resize ret (4 * unat (hlen h))))"

definition payload_length :: "ipv4_header \<Rightarrow> u16" where
  "payload_length h = ip_len h - 4 * ucast (hlen h)"

definition pseudo_cksum :: "ipv4_header \<Rightarrow> u32" where
  "pseudo_cksum h =
     (let pcksum = drop_bit 16 (ip_src h) + (ip_src h AND 0xffff);
          pcksum = pcksum + (drop_bit 16 (ip_dst h) + (ip_dst h AND 0xffff));
          pcksum = pcksum + ucast (proto h);
          pcksum = pcksum + ucast (payload_length h)
      in pcksum)"

definition ipv4_to_string :: "ipv4_header \<Rightarrow> string" where
  "ipv4_to_string h =
     ''IP version: '' @ show_hex (unat (ver h)) @ newline @
     ''IP hdr len: '' @ show_hex (unat (hlen h)) @ newline @
     ''IP tos: '' @ show_hex (unat (tos h)) @ newline @
     ''IP dgram len: '' @ show_hex (unat (ip_len h)) @ newline @
     ''IP id: '' @ show_hex (unat (ip_id h)) @ newline @
     ''Flags: df: '' @ show_bool (df h) @ '' mf: '' @ show_bool (mf h) @ newline @
     ''Offset: '' @ show_hex (unat (ip_offset h)) @ newline @
     ''TTL: '' @ show_hex (unat (ttl h)) @ newline @
     ''Protocol: '' @ show_hex (unat (proto h)) @ newline @
     ''Checksum: '' @ show_hex (unat (ip_cksum h)) @ newline @
     ''Src addr: '' @ show_hex (unat (ip_src h)) @ newline @
     ''Dst addr: '' @ show_hex (unat (ip_dst h)) @ newline"

definition ipv4_summary :: "ipv4_header \<Rightarrow> string" where
  "ipv4_summary h =
     ''IPv'' @ show_hex (unat (ver h)) @ '', '' @
     ''len='' @ show_hex (unat (ip_len h)) @ '', '' @
     ''protocol='' @ show_hex (unat (proto h)) @ '', '' @
     (if 10 \<le> ttl h then [] else ''ttl='' @ show_dec (unat (ttl h)) @ '', '') @
     ''src='' @ inet_ntoa (ip_src h) @ '', '' @
     ''dst='' @ inet_ntoa (ip_dst h)"

section \<open>Datagrams\<close>

record ipv4_datagram =
  ip_header :: ipv4_header
  ip_payload :: buffer_list

definition new_ipv4_datagram :: ipv4_datagram where
  "new_ipv4_datagram = \<lparr>ip_header = new_ipv4_header, ip_payload = []\<rparr>"

definition ipv4_datagram_parse :: "ipv4_datagram \<Rightarrow> bytes \<Rightarrow> parse_result \<times> ipv4_datagram" where
  "ipv4_datagram_parse dg buffer =
     (case run_state (ipv4_header_parse (ip_header dg)) (new_net_parser buffer) of
        ((_, h), p) \<Rightarrow>
          let dg = \<lparr>ip_header = h, ip_payload = bl_of_string (np_buffer p)\<rparr>
          in if bl_size (ip_payload dg) \<noteq> ucast (payload_length h) then (PacketTooShort, dg)
             else (np_error p, dg))"

definition ipv4_datagram_serialize :: "ipv4_datagram \<Rightarrow> exn + buffer_list" where
  "ipv4_datagram_serialize dg =
     (if bl_size (ip_payload dg) \<noteq> ucast (payload_length (ip_header dg))
      then Inl (Runtime_Error ''IPv4Datagram::serialize: payload is wrong size'')
      else
        let header_out = (ip_header dg)\<lparr>ip_cksum := 0\<rparr> in
        case ipv4_header_serialize header_out of
          Inl e \<Rightarrow> Inl e
        | Inr header_zero_checksum \<Rightarrow>
            let check = ck_add (new_checksum 0) header_zero_checksum;
                header_out = header_out\<lparr>ip_cksum := ck_value check\<rparr>
            in case ipv4_header_serialize header_out of
                 Inl e \<Rightarrow> Inl e
               | Inr s \<Rightarrow> Inr (bl_append (bl_append [] (bl_of_string s)) (ip_payload dg)))"

section \<open>The serialised header\<close>

definition ip_pre :: "ipv4_header \<Rightarrow> bytes" where
  "ip_pre h = [ip_first_byte h, tos h] @ be_bytes (ip_len h) @ be_bytes (ip_id h) @ be_bytes (fo_val h) @ [ttl h, proto h]"

definition ip_post :: "ipv4_header \<Rightarrow> bytes" where
  "ip_post h = be_bytes (ip_src h) @ be_bytes (ip_dst h) @ replicate (4 * unat (hlen h) - 20) 0"

definition ipv4_header_valid :: "ipv4_header \<Rightarrow> bool" where
  "ipv4_header_valid h \<longleftrightarrow> ver h = 4 \<and> 5 \<le> hlen h \<and> hlen h < 16 \<and> ip_offset h < 0x2000"

lemma length_ip_pre [simp]: "length (ip_pre h) = 10"
  by (simp add: ip_pre_def)

lemma length_ip_post: "5 \<le> hlen h \<Longrightarrow> length (ip_post h) = 4 * unat (hlen h) - 12"
  by (simp add: ip_post_def word_le_nat_alt)

lemma ip_cksum_irrelevant [simp]:
  "ip_pre (h\<lparr>ip_cksum := c\<rparr>) = ip_pre h" "ip_post (h\<lparr>ip_cksum := c\<rparr>) = ip_post h"
  by (simp_all add: ip_pre_def ip_post_def ip_first_byte_def fo_val_def)

lemma ipv4_header_serialize_eq:
  "ver h = 4 \<Longrightarrow> 5 \<le> hlen h \<Longrightarrow> ipv4_header_serialize h = Inr (ip_pre h @ be_bytes (ip_cksum h) @ ip_post h)"
  by (simp add: ipv4_header_serialize_def ip_pre_def ip_post_def unparse_simps str_resize_def word_le_nat_alt not_less)

lemma take_bit_self: "(w :: 'a::len word) < 2 ^ n \<Longrightarrow> take_bit n w = w"
  by (simp add: take_bit_eq_mod mod_word_less)

lemma and_mask_self: "(w :: 'a::len word) < 2 ^ n \<Longrightarrow> w AND mask n = w"
  by (simp add: take_bit_self flip: take_bit_eq_mask)

lemma ip_first_byte_fields:
  assumes "ver h = 4" "hlen h < 16"
  shows "drop_bit 4 (ip_first_byte h) = ver h" "ip_first_byte h AND 0x0f = hlen h"
proof -
  have m: "(0xf :: u8) = mask 4" by (simp add: mask_eq_exp_minus_1)
  have "hlen h AND 0xf = hlen h" unfolding m using assms(2) by (intro and_mask_self) simp
  then have fb: "ip_first_byte h = push_bit 4 4 OR hlen h" using assms(1) by (simp add: ip_first_byte_def)
  have hl: "take_bit 4 (hlen h) = hlen h" using assms(2) by (intro take_bit_self) simp
  have "drop_bit 4 (ip_first_byte h) = drop_bit 4 (push_bit 4 4) OR drop_bit 4 (take_bit 4 (hlen h))"
    unfolding hl by (simp add: fb drop_bit_or)
  also have "drop_bit 4 (take_bit 4 (hlen h)) = 0" by (rule bit_word_eqI) (simp add: bit_simps)
  finally show "drop_bit 4 (ip_first_byte h) = ver h" using assms(1) by simp
  have "ip_first_byte h AND 0xf = take_bit 4 (push_bit 4 4) OR take_bit 4 (hlen h)"
    unfolding m fb by (simp flip: take_bit_eq_mask)
  then show "ip_first_byte h AND 0x0f = hlen h" using hl by simp
qed

lemma fo_val_fields:
  assumes "ip_offset h < 0x2000"
  shows "fo_val h AND 0x4000 \<noteq> 0 \<longleftrightarrow> df h" "fo_val h AND 0x2000 \<noteq> 0 \<longleftrightarrow> mf h" "fo_val h AND 0x1fff = ip_offset h"
proof -
  have m: "(0x1fff :: u16) = mask 13" by (simp add: mask_eq_exp_minus_1)
  have o: "ip_offset h AND 0x1fff = ip_offset h" unfolding m using assms by (intro and_mask_self) simp
  have z: "ip_offset h AND 0x4000 = 0" "ip_offset h AND 0x2000 = 0"
    by (subst o [symmetric], simp add: and.assoc)+
  show "fo_val h AND 0x4000 \<noteq> 0 \<longleftrightarrow> df h" "fo_val h AND 0x2000 \<noteq> 0 \<longleftrightarrow> mf h" "fo_val h AND 0x1fff = ip_offset h"
    using z o by (simp_all add: fo_val_def bit.conj_disj_distrib2 and.assoc)
qed

section \<open>Round trip\<close>

definition ip_bytes :: "ipv4_header \<Rightarrow> bytes" where
  "ip_bytes h = ip_pre h @ be_bytes (ip_cksum h) @ ip_post h"

lemma length_ip_bytes: "5 \<le> hlen h \<Longrightarrow> length (ip_bytes h) = 4 * unat (hlen h)"
  by (simp add: ip_bytes_def length_ip_post word_le_nat_alt)

lemma unat_u64_ucast_u8: "unat (ucast (w :: u8) :: u64) = unat w"
  using unat_u8_less [of w] by (simp add: unsigned_ucast_eq take_bit_eq_mod)

lemma unat_u64_ucast_u16: "unat (ucast (w :: u16) :: u64) = unat w"
  using unat_u16_less [of w] by (simp add: unsigned_ucast_eq take_bit_eq_mod)

lemma unat_hlen_4: "hlen h < 16 \<Longrightarrow> unat (4 * ucast (hlen h) :: u64) = 4 * unat (hlen h)"
  by (simp add: unat_word_ariths unat_u64_ucast_u8 word_less_nat_alt)

text \<open>What the parser does with a header whose length field is right, whatever its checksum field is.\<close>

lemma run_ipv4_header_parse:
  assumes "ipv4_header_valid h" "unat (ip_len h) = 4 * unat (hlen h) + length rest"
  shows "run_state (ipv4_header_parse h0) (new_net_parser (ip_bytes h @ rest)) =
    ((if ck_value (ck_add (new_checksum 0) (ip_bytes h)) \<noteq> 0 then BadChecksum else NoError, h), new_net_parser rest)"
proof -
  let ?b = "ip_bytes h @ rest"
  have v: "ver h = 4" "5 \<le> hlen h" "hlen h < 16" "5 \<le> unat (hlen h)" "unat (hlen h) < 16" "ip_offset h < 0x2000"
    using assms(1) by (auto simp: ipv4_header_valid_def word_less_nat_alt word_le_nat_alt)
  have len: "length ?b = unat (ip_len h)" "length ?b < two64" "length rest + 60 < two64"
    using length_ip_bytes [OF v(2)] assms(2) unat_u16_less [of "ip_len h"] by simp_all
  have sz: "str_size ?b = ucast (ip_len h)"
    using len by (intro word_unat_eq_iff [THEN iffD2]) (simp add: unat_str_size unat_u64_ucast_u16)
  have "\<not> str_size ?b < 20" "\<not> str_size ?b < 4 * ucast (hlen h)"
    unfolding sz using assms(2) v by (simp_all add: word_less_nat_alt unat_u64_ucast_u16 unat_hlen_4)
  moreover have "run_state (parser_remove_prefix (ucast (hlen h) * 4 - 20))
      \<lparr>np_buffer = replicate (4 * unat (hlen h) - 20) 0 @ rest, np_error = NoError\<rparr> =
      ((), \<lparr>np_buffer = rest, np_error = NoError\<rparr>)"
  proof -
    have "unat (ucast (hlen h) * 4 - 20 :: u64) = 4 * unat (hlen h) - 20"
      using unat_hlen_4 [OF v(3)] v(4) by (subst unat_sub) (simp_all add: word_le_nat_alt mult.commute)
    then show ?thesis using len(3) v(5) by (subst run_remove_prefix) simp_all
  qed
  moreover have "take (4 * unat (hlen h)) ?b = ip_bytes h" using length_ip_bytes [OF v(2)] by simp
  ultimately show ?thesis
    using v len(3) sz ip_first_byte_fields [OF v(1,3)] fo_val_fields [OF v(6)]
    by (simp add: ipv4_header_parse_def new_net_parser_def ip_bytes_def ip_pre_def ip_post_def parse_simps
        np_has_error_def Let_def not_less [symmetric])
qed

text \<open>A datagram that can be sent: a valid header whose length field counts the header and the payload.\<close>

definition ipv4_datagram_valid :: "ipv4_datagram \<Rightarrow> bool" where
  "ipv4_datagram_valid dg \<longleftrightarrow> ipv4_header_valid (ip_header dg) \<and>
     unat (ip_len (ip_header dg)) = 4 * unat (hlen (ip_header dg)) + length (bl_concatenate (ip_payload dg))"

definition ip_header_checksum :: "ipv4_header \<Rightarrow> u16" where
  "ip_header_checksum h = ck_value (ck_add (new_checksum 0) (ip_bytes (h\<lparr>ip_cksum := 0\<rparr>)))"

lemma unat_payload_length:
  assumes "hlen h < 16" "4 * unat (hlen h) \<le> unat (ip_len h)"
  shows "unat (payload_length h) = unat (ip_len h) - 4 * unat (hlen h)"
proof -
  have "unat (4 * ucast (hlen h) :: u16) = 4 * unat (hlen h)"
    using assms(1) unat_u8_less [of "hlen h"]
    by (simp add: unat_word_ariths unsigned_ucast_eq take_bit_eq_mod word_less_nat_alt)
  then show ?thesis using assms(2) by (simp add: payload_length_def unat_sub word_le_nat_alt)
qed

lemma valid_payload_size:
  "ipv4_datagram_valid dg \<Longrightarrow> bl_size (ip_payload dg) = ucast (payload_length (ip_header dg))"
  using unat_payload_length [of "ip_header dg"] unat_u16_less [of "ip_len (ip_header dg)"]
  by (intro word_unat_eq_iff [THEN iffD2])
    (simp add: ipv4_datagram_valid_def ipv4_header_valid_def bl_size_eq bl_concatenate_eq unat_str_size unat_u64_ucast_u16)

lemma ipv4_datagram_serialize_eq:
  assumes "bl_size (ip_payload dg) = ucast (payload_length (ip_header dg))" "ver (ip_header dg) = 4" "5 \<le> hlen (ip_header dg)"
  shows "ipv4_datagram_serialize dg =
    Inr (ip_bytes ((ip_header dg)\<lparr>ip_cksum := ip_header_checksum (ip_header dg)\<rparr>) # ip_payload dg)"
  using assms
  by (simp add: ipv4_datagram_serialize_def ipv4_header_serialize_eq bl_of_string_def bl_append_eq
      ip_header_checksum_def ip_bytes_def Let_def)

lemma ip_header_verifies:
  assumes "5 \<le> hlen h" "hlen h < 16"
  shows "ck_value (ck_add (new_checksum 0) (ip_bytes (h\<lparr>ip_cksum := ip_header_checksum h\<rparr>))) = 0"
proof -
  have "length (ip_pre h @ [0, 0] @ ip_post h) \<le> 65535"
    using assms by (simp add: length_ip_post word_less_nat_alt)
  then have "ck_total 0 (ip_pre h @ [0, 0] @ ip_post h) + 65535 < two32" by (intro ck_total_small) simp_all
  then show ?thesis
    using checksum_fill [of "ip_pre h" 0 "ip_post h"] by (simp add: ip_header_checksum_def ip_bytes_def be_bytes_u16_0)
qed

lemma ipv4_parse_serialize:
  assumes "ipv4_datagram_valid dg"
  shows "\<exists>bl. ipv4_datagram_serialize dg = Inr bl \<and>
    ipv4_datagram_parse dg0 (bl_concatenate bl) =
      (NoError, \<lparr>ip_header = (ip_header dg)\<lparr>ip_cksum := ip_header_checksum (ip_header dg)\<rparr>,
                 ip_payload = [bl_concatenate (ip_payload dg)]\<rparr>)"
proof -
  let ?h = "(ip_header dg)\<lparr>ip_cksum := ip_header_checksum (ip_header dg)\<rparr>"
  let ?pl = "bl_concatenate (ip_payload dg)"
  have v: "ipv4_header_valid ?h" "unat (ip_len ?h) = 4 * unat (hlen ?h) + length ?pl"
    "ver (ip_header dg) = 4" "5 \<le> hlen (ip_header dg)" "hlen (ip_header dg) < 16"
    using assms by (auto simp: ipv4_datagram_valid_def ipv4_header_valid_def)
  have sz: "bl_size (ip_payload dg) = ucast (payload_length ?h)" "payload_length ?h = payload_length (ip_header dg)"
    using valid_payload_size [OF assms] by (simp_all add: payload_length_def)
  have "bl_size [?pl] = bl_size (ip_payload dg)" by (simp add: bl_size_eq bl_concatenate_eq)
  then show ?thesis
    using sz v(3,4) ip_header_verifies [OF v(4,5)] run_ipv4_header_parse [OF v(1,2), of "ip_header dg0"]
    by (auto simp: ipv4_datagram_serialize_eq ipv4_datagram_parse_def bl_concatenate_eq bl_of_string_def
        new_net_parser_def Let_def)
qed

text \<open>
  C32. \<open>IPv4Datagram::parse\<close> undoes \<open>IPv4Datagram::serialize\<close>: a datagram whose header is valid and
  whose length field counts header and payload serialises without an exception, and parsing the
  concatenated bytes into any datagram object succeeds and gives back every header field (the
  checksum filled in) and the payload as one buffer.
\<close>

theorem ipv4_datagram_roundtrip:
  assumes "ipv4_datagram_valid dg"
  shows "\<exists>bl. ipv4_datagram_serialize dg = Inr bl \<and>
    ipv4_datagram_parse dg0 (bl_concatenate bl) =
      (NoError, \<lparr>ip_header = (ip_header dg)\<lparr>ip_cksum := ip_header_checksum (ip_header dg)\<rparr>,
                 ip_payload = [bl_concatenate (ip_payload dg)]\<rparr>)"
  using assms by (rule ipv4_parse_serialize)

abbreviation example_datagram :: ipv4_datagram where
  "example_datagram \<equiv>
     \<lparr>ip_header = new_ipv4_header\<lparr>ip_len := 23, ip_src := 0x0a000001, ip_dst := 0x0a000002\<rparr>, ip_payload = [[1], [2, 3]]\<rparr>"

theorem ipv4_datagram_roundtrip_witness:
  "\<exists>bl. ipv4_datagram_serialize example_datagram = Inr bl \<and>
    ipv4_datagram_parse new_ipv4_datagram (bl_concatenate bl) =
      (NoError, \<lparr>ip_header = (ip_header example_datagram)\<lparr>ip_cksum := ip_header_checksum (ip_header example_datagram)\<rparr>,
                 ip_payload = [bl_concatenate (ip_payload example_datagram)]\<rparr>)"
  by (rule ipv4_datagram_roundtrip)
    (simp add: ipv4_datagram_valid_def ipv4_header_valid_def new_ipv4_header_def bl_concatenate_eq)

section \<open>What a parsed datagram can be relied on for\<close>

lemma ipv4_parse_payload_size:
  "ipv4_datagram_parse dg0 b = (NoError, dg) \<Longrightarrow> bl_size (ip_payload dg) = ucast (payload_length (ip_header dg))"
  by (auto simp: ipv4_datagram_parse_def Let_def split: prod.splits if_splits)

lemma ipv4_serialize_fails_iff:
  "(\<exists>e. ipv4_datagram_serialize dg = Inl e) \<longleftrightarrow>
     bl_size (ip_payload dg) \<noteq> ucast (payload_length (ip_header dg)) \<or> ver (ip_header dg) \<noteq> 4 \<or> hlen (ip_header dg) < 5"
proof (cases "bl_size (ip_payload dg) = ucast (payload_length (ip_header dg)) \<and> ver (ip_header dg) = 4 \<and> 5 \<le> hlen (ip_header dg)")
  case True
  then show ?thesis by (simp add: ipv4_datagram_serialize_eq not_less)
next
  case False
  have "unat (hlen (ip_header dg)) < 5 \<longleftrightarrow> hlen (ip_header dg) < 5" by (simp add: word_less_nat_alt)
  with False show ?thesis by (auto simp: ipv4_datagram_serialize_def ipv4_header_serialize_def Let_def not_le)
qed

text \<open>
  Which accepted datagrams can be sent on: when \<open>IPv4Datagram::parse\<close> returns \<open>NoError\<close>, then
  \<open>IPv4Datagram::serialize\<close> of the parsed datagram throws if and only if the version field is not
  4 or the header length field is below 5. (The parser computes these two errors but
  \<open>IPv4Datagram::parse\<close> drops them.)
\<close>

theorem ipv4_accepted_serializes_iff:
  assumes "ipv4_datagram_parse dg0 b = (NoError, dg)"
  shows "(\<exists>bl. ipv4_datagram_serialize dg = Inr bl) \<longleftrightarrow> ver (ip_header dg) = 4 \<and> 5 \<le> hlen (ip_header dg)"
  using ipv4_serialize_fails_iff [of dg] ipv4_parse_payload_size [OF assms]
  by (cases "ipv4_datagram_serialize dg") (auto simp: not_less)

text \<open>A version 6 datagram of 20 bytes whose payload length wraps to 0 is accepted.\<close>

abbreviation wrong_version_bytes :: bytes where
  "wrong_version_bytes \<equiv> [0x65, 0, 0, 20, 0, 0, 0, 0, 64, 6, 0, 0, 10, 0, 0, 1, 10, 0, 0, 2]"

lemma wrong_version_accepted:
  "fst (ipv4_datagram_parse new_ipv4_datagram wrong_version_bytes) = NoError"
  "fst (fst (run_state (ipv4_header_parse new_ipv4_header) (new_net_parser wrong_version_bytes))) = WrongIPVersion"
  by code_simp+

lemma bad_checksum_accepted:
  "fst (ipv4_datagram_parse new_ipv4_datagram (0x45 # tl wrong_version_bytes)) = NoError"
  "fst (fst (run_state (ipv4_header_parse new_ipv4_header) (new_net_parser (0x45 # tl wrong_version_bytes)))) = BadChecksum"
  by code_simp+

theorem ipv4_accepted_serializes_iff_witness:
  "\<not> (\<exists>bl. ipv4_datagram_serialize (snd (ipv4_datagram_parse new_ipv4_datagram wrong_version_bytes)) = Inr bl)"
proof -
  let ?r = "ipv4_datagram_parse new_ipv4_datagram wrong_version_bytes"
  have "ver (ip_header (snd ?r)) = 6" by code_simp
  moreover have "?r = (NoError, snd ?r)" using wrong_version_accepted(1) by (metis prod.collapse)
  ultimately show ?thesis using ipv4_accepted_serializes_iff [of new_ipv4_datagram wrong_version_bytes "snd ?r"] by simp
qed

section \<open>The pseudo-header sum\<close>

lemma unat_add_le: "unat ((a :: u32) + b) \<le> unat a + unat b"
  by (simp add: unat_word_ariths)

lemma pseudo_cksum_small: "pseudo_cksum h < 0x100000"
proof -
  have half: "unat (drop_bit 16 a + (a AND 0xffff)) \<le> 131070" for a :: u32
    using unat_u32_less [of a] unfolding unat_fold_step by simp
  have "unat (ucast (proto h) :: u32) < 256"
    using unat_u8_less [of "proto h"] by (simp add: unsigned_ucast_eq take_bit_eq_mod)
  moreover have "unat (ucast (payload_length h) :: u32) < 65536"
    using unat_u16_less [of "payload_length h"] by (simp add: unsigned_ucast_eq take_bit_eq_mod)
  moreover have "unat (a + b + c + d) \<le> unat a + unat b + unat c + unat d" for a b c d :: u32
    using unat_add_le [of a b] unat_add_le [of "a + b" c] unat_add_le [of "a + b + c" d] by linarith
  ultimately have "unat (pseudo_cksum h) < 131070 + 131070 + 256 + 65536"
    using half [of "ip_src h"] half [of "ip_dst h"] unfolding pseudo_cksum_def Let_def
    by (meson add_le_less_mono add_le_mono add_less_mono le_less_trans)
  then show ?thesis by (simp add: word_less_nat_alt)
qed

end
