(* ===== verification/Ethernet.thy ===== *)
theory Ethernet
  imports Net_Parser Text_Format
begin

text \<open>
  \<open>EthernetHeader\<close> (src/libsponge/tcp_helpers/ethernet_header.hh and .cc) and \<open>EthernetFrame\<close>
  (src/libsponge/tcp_helpers/ethernet_frame.hh and .cc).  An address is an array of six bytes.
\<close>

type_synonym ethernet_address = bytes

definition ETHERNET_BROADCAST :: ethernet_address where
  "ETHERNET_BROADCAST = [0xff, 0xff, 0xff, 0xff, 0xff, 0xff]"

definition TYPE_IPv4 :: u16 where "TYPE_IPv4 = 0x800"
definition TYPE_ARP :: u16 where "TYPE_ARP = 0x806"

record ethernet_header =
  eth_dst :: ethernet_address
  eth_src :: ethernet_address
  eth_type :: u16

definition ethernet_header_parse :: "ethernet_header \<Rightarrow> (parse_result \<times> ethernet_header) parser" where
  "ethernet_header_parse h = do {
     p \<leftarrow> State_Monad.get;
     if str_size (np_buffer p) < 14 then State_Monad.return (PacketTooShort, h)
     else do {
       d \<leftarrow> parse_bytes 6;
       s \<leftarrow> parse_bytes 6;
       t \<leftarrow> parse_u16;
       p \<leftarrow> State_Monad.get;
       State_Monad.return (np_error p, \<lparr>eth_dst = d, eth_src = s, eth_type = t\<rparr>)
     }
   }"

definition ethernet_header_serialize :: "ethernet_header \<Rightarrow> bytes" where
  "ethernet_header_serialize h =
     (let ret = unparse_bytes [] (eth_dst h);
          ret = unparse_bytes ret (eth_src h);
          ret = unparse_u16 ret (eth_type h)
      in ret)"

definition ethernet_address_to_string :: "ethernet_address \<Rightarrow> string" where
  "ethernet_address_to_string address =
     concat (map (\<lambda>i. pad_zeros 2 (show_hex (unat (address ! i))) @ (if i \<noteq> length address - 1 then '':'' else []))
       [0..<length address])"

definition ethernet_header_to_string :: "ethernet_header \<Rightarrow> string" where
  "ethernet_header_to_string h =
     ''dst='' @ ethernet_address_to_string (eth_dst h) @
     '', src='' @ ethernet_address_to_string (eth_src h) @
     '', type='' @
     (if eth_type h = TYPE_IPv4 then ''IPv4''
      else if eth_type h = TYPE_ARP then ''ARP''
      else ''[unknown type '' @ show_hex (unat (eth_type h)) @ ''!]'')"

section \<open>Frames\<close>

record ethernet_frame =
  fr_header :: ethernet_header
  fr_payload :: buffer_list

definition new_ethernet_frame :: ethernet_frame where
  "new_ethernet_frame =
     \<lparr>fr_header = \<lparr>eth_dst = replicate 6 0, eth_src = replicate 6 0, eth_type = 0\<rparr>, fr_payload = []\<rparr>"

definition ethernet_frame_parse :: "ethernet_frame \<Rightarrow> bytes \<Rightarrow> parse_result \<times> ethernet_frame" where
  "ethernet_frame_parse fr buffer =
     (case run_state (ethernet_header_parse (fr_header fr)) (new_net_parser buffer) of
        ((_, h), p) \<Rightarrow> (np_error p, \<lparr>fr_header = h, fr_payload = bl_of_string (np_buffer p)\<rparr>))"

definition ethernet_frame_serialize :: "ethernet_frame \<Rightarrow> buffer_list" where
  "ethernet_frame_serialize fr =
     bl_append (bl_append [] (bl_of_string (ethernet_header_serialize (fr_header fr)))) (fr_payload fr)"

section \<open>Round trip\<close>

definition ethernet_header_valid :: "ethernet_header \<Rightarrow> bool" where
  "ethernet_header_valid h \<longleftrightarrow> length (eth_dst h) = 6 \<and> length (eth_src h) = 6"

lemma ethernet_header_serialize_eq:
  "ethernet_header_serialize h = eth_dst h @ eth_src h @ be_bytes (eth_type h)"
  by (simp add: ethernet_header_serialize_def unparse_simps)

lemma run_ethernet_header_parse:
  assumes "ethernet_header_valid h" "length rest + 14 < two64"
  shows "run_state (ethernet_header_parse h0) (new_net_parser (ethernet_header_serialize h @ rest)) =
    ((NoError, h), new_net_parser rest)"
proof -
  have "unat (str_size (ethernet_header_serialize h @ rest)) = length rest + 14"
    using assms by (simp add: unat_str_size ethernet_header_serialize_eq ethernet_header_valid_def)
  then have "\<not> str_size (ethernet_header_serialize h @ rest) < 14" by (simp add: word_less_nat_alt)
  then show ?thesis using assms
    by (simp add: ethernet_header_parse_def new_net_parser_def ethernet_header_serialize_eq ethernet_header_valid_def
        parse_simps del: parse_bytes.simps)
qed

interpretation eth_wire: wire_format "\<lambda>h. Inr (ethernet_header_serialize h)" ethernet_header_parse ethernet_header_valid 14
proof
  fix h assume "ethernet_header_valid h"
  then show "\<exists>b. Inr (ethernet_header_serialize h) = (Inr b :: exn + bytes) \<and> length b \<le> 14"
    by (simp add: ethernet_header_serialize_eq ethernet_header_valid_def)
qed (auto intro: run_ethernet_header_parse)

lemma ethernet_parse_serialize:
  assumes "ethernet_header_valid (fr_header fr)" "length (bl_concatenate (fr_payload fr)) + 14 < two64"
  shows "ethernet_frame_parse fr0 (bl_concatenate (ethernet_frame_serialize fr)) =
    (NoError, fr\<lparr>fr_payload := [bl_concatenate (fr_payload fr)]\<rparr>)"
  using eth_wire.par_ser [OF assms(1) refl assms(2), of "fr_header fr0"]
  by (simp add: ethernet_frame_parse_def ethernet_frame_serialize_def bl_append_eq bl_of_string_def bl_concatenate_eq
      new_net_parser_def)

text \<open>
  \<open>EthernetFrame::parse\<close> undoes \<open>EthernetFrame::serialize\<close>: parsing the bytes of a frame into any
  frame object gives back its addresses, its type and its payload, as one buffer.
\<close>

theorem ethernet_frame_roundtrip:
  assumes "ethernet_header_valid (fr_header fr)" "length (bl_concatenate (fr_payload fr)) + 14 < two64"
  shows "ethernet_frame_parse fr0 (bl_concatenate (ethernet_frame_serialize fr)) =
    (NoError, fr\<lparr>fr_payload := [bl_concatenate (fr_payload fr)]\<rparr>)"
  using assms by (rule ethernet_parse_serialize)

theorem ethernet_frame_roundtrip_witness:
  "ethernet_frame_parse new_ethernet_frame (bl_concatenate (ethernet_frame_serialize
       \<lparr>fr_header = \<lparr>eth_dst = ETHERNET_BROADCAST, eth_src = [1, 2, 3, 4, 5, 6], eth_type = TYPE_ARP\<rparr>, fr_payload = [[7], [8]]\<rparr>)) =
    (NoError, \<lparr>fr_header = \<lparr>eth_dst = ETHERNET_BROADCAST, eth_src = [1, 2, 3, 4, 5, 6], eth_type = TYPE_ARP\<rparr>, fr_payload = [[7, 8]]\<rparr>)"
  using ethernet_frame_roundtrip [of "\<lparr>fr_header = \<lparr>eth_dst = ETHERNET_BROADCAST, eth_src = [1, 2, 3, 4, 5, 6], eth_type = TYPE_ARP\<rparr>,
      fr_payload = [[7], [8]]\<rparr>" new_ethernet_frame]
  by (simp add: ethernet_header_valid_def ETHERNET_BROADCAST_def bl_concatenate_eq)

text \<open>
  What \<open>EthernetFrame::parse\<close> does not check: the result of \<open>EthernetHeader::parse\<close> is dropped, and
  its early return sets no error in the parser, so a frame shorter than a header is accepted.
\<close>

lemma short_frame_accepted:
  "length b < 14 \<Longrightarrow> ethernet_frame_parse fr b = (NoError, \<lparr>fr_header = fr_header fr, fr_payload = [b]\<rparr>)"
proof -
  assume "length b < 14"
  then have "str_size b < 14" by (simp add: word_less_nat_alt unat_str_size)
  then show ?thesis
    by (simp add: ethernet_frame_parse_def ethernet_header_parse_def new_net_parser_def bl_of_string_def)
qed

text \<open>The printed form of an address determines it.\<close>

lemma length_padded_byte: "length (pad_zeros 2 (show_hex (unat (b :: u8)))) = 2"
  using length_show_hex_byte [OF unat_u8_less [of b]] by (simp add: pad_zeros_def)

lemma padded_byte_inj: "pad_zeros 2 (show_hex (unat (a :: u8))) = pad_zeros 2 (show_hex (unat b)) \<longleftrightarrow> a = b"
  by (simp add: pad_hex_inj word_unat_eq_iff)

lemma ethernet_address_to_string_inj:
  assumes "length a = 6" "length b = 6" "ethernet_address_to_string a = ethernet_address_to_string b"
  shows "a = b"
proof -
  obtain a0 a1 a2 a3 a4 a5 where a: "a = [a0, a1, a2, a3, a4, a5]"
    using assms(1) by (auto simp: numeral_eq_Suc length_Suc_conv)
  obtain b0 b1 b2 b3 b4 b5 where b: "b = [b0, b1, b2, b3, b4, b5]"
    using assms(2) by (auto simp: numeral_eq_Suc length_Suc_conv)
  show ?thesis using assms(3)
    by (simp add: a b ethernet_address_to_string_def upt_rec length_padded_byte padded_byte_inj append_eq_append_conv)
qed

end
