(* ===== verification/ARP_Message.thy ===== *)
theory ARP_Message
  imports Ethernet
begin

text \<open>
  \<open>ARPMessage\<close> (src/libsponge/tcp_helpers/arp_message.hh and .cc): the messages that resolve IPv4
  addresses to Ethernet addresses.
\<close>

definition TYPE_ETHERNET :: u16 where "TYPE_ETHERNET = 1"
definition OPCODE_REQUEST :: u16 where "OPCODE_REQUEST = 1"
definition OPCODE_REPLY :: u16 where "OPCODE_REPLY = 2"

record arp_message =
  hardware_type :: u16
  protocol_type :: u16
  hardware_address_size :: u8
  protocol_address_size :: u8
  opcode :: u16
  sender_ethernet_address :: ethernet_address
  sender_ip_address :: u32
  target_ethernet_address :: ethernet_address
  target_ip_address :: u32

definition new_arp_message :: arp_message where
  "new_arp_message =
     \<lparr>hardware_type = TYPE_ETHERNET, protocol_type = TYPE_IPv4, hardware_address_size = 6,
      protocol_address_size = 4, opcode = 0, sender_ethernet_address = replicate 6 0, sender_ip_address = 0,
      target_ethernet_address = replicate 6 0, target_ip_address = 0\<rparr>"

definition arp_supported :: "arp_message \<Rightarrow> bool" where
  "arp_supported m \<longleftrightarrow>
     hardware_type m = TYPE_ETHERNET \<and> protocol_type m = TYPE_IPv4 \<and> hardware_address_size m = 6 \<and>
     protocol_address_size m = 4 \<and> (opcode m = OPCODE_REQUEST \<or> opcode m = OPCODE_REPLY)"

definition arp_parser :: "arp_message \<Rightarrow> (parse_result \<times> arp_message) parser" where
  "arp_parser m = do {
     p \<leftarrow> State_Monad.get;
     if str_size (np_buffer p) < 28 then State_Monad.return (PacketTooShort, m)
     else do {
       ht \<leftarrow> parse_u16;
       pt \<leftarrow> parse_u16;
       hs \<leftarrow> parse_u8;
       ps \<leftarrow> parse_u8;
       oc \<leftarrow> parse_u16;
       let m = m\<lparr>hardware_type := ht, protocol_type := pt, hardware_address_size := hs,
                 protocol_address_size := ps, opcode := oc\<rparr>;
       if \<not> arp_supported m then State_Monad.return (Unsupported, m)
       else do {
         se \<leftarrow> parse_bytes 6;
         si \<leftarrow> parse_u32;
         te \<leftarrow> parse_bytes 6;
         ti \<leftarrow> parse_u32;
         p \<leftarrow> State_Monad.get;
         State_Monad.return (np_error p,
           m\<lparr>sender_ethernet_address := se, sender_ip_address := si, target_ethernet_address := te,
             target_ip_address := ti\<rparr>)
       }
     }
   }"

definition arp_parse :: "arp_message \<Rightarrow> bytes \<Rightarrow> parse_result \<times> arp_message" where
  "arp_parse m buffer = fst (run_state (arp_parser m) (new_net_parser buffer))"

definition arp_serialize :: "arp_message \<Rightarrow> exn + bytes" where
  "arp_serialize m =
     (if \<not> arp_supported m
      then Inl (Runtime_Error ''ARPMessage::serialize(): unsupported field combination (must be Ethernet/IP, and request or reply)'')
      else
        let ret = unparse_u16 [] (hardware_type m);
            ret = unparse_u16 ret (protocol_type m);
            ret = unparse_u8 ret (hardware_address_size m);
            ret = unparse_u8 ret (protocol_address_size m);
            ret = unparse_u16 ret (opcode m);
            ret = unparse_bytes ret (sender_ethernet_address m);
            ret = unparse_u32 ret (sender_ip_address m);
            ret = unparse_bytes ret (target_ethernet_address m);
            ret = unparse_u32 ret (target_ip_address m)
        in Inr ret)"

definition arp_to_string :: "arp_message \<Rightarrow> string" where
  "arp_to_string m =
     (let opcode_str = ''(unknown type)'';
          opcode_str = (if opcode m = OPCODE_REQUEST then ''REQUEST'' else opcode_str);
          opcode_str = (if opcode m = OPCODE_REPLY then ''REPLY'' else opcode_str)
      in ''opcode='' @ opcode_str @ '', sender='' @ ethernet_address_to_string (sender_ethernet_address m) @ ''/'' @
         inet_ntoa (sender_ip_address m) @ '', target='' @ ethernet_address_to_string (target_ethernet_address m) @
         ''/'' @ inet_ntoa (target_ip_address m))"

section \<open>Round trip\<close>

definition arp_valid :: "arp_message \<Rightarrow> bool" where
  "arp_valid m \<longleftrightarrow>
     arp_supported m \<and> length (sender_ethernet_address m) = 6 \<and> length (target_ethernet_address m) = 6"

definition arp_bytes :: "arp_message \<Rightarrow> bytes" where
  "arp_bytes m =
     be_bytes (hardware_type m) @ be_bytes (protocol_type m) @ [hardware_address_size m, protocol_address_size m] @
     be_bytes (opcode m) @ sender_ethernet_address m @ be_bytes (sender_ip_address m) @
     target_ethernet_address m @ be_bytes (target_ip_address m)"

lemma arp_serialize_eq: "arp_supported m \<Longrightarrow> arp_serialize m = Inr (arp_bytes m)"
  by (simp add: arp_serialize_def arp_bytes_def unparse_simps)

lemma length_arp_bytes: "arp_valid m \<Longrightarrow> length (arp_bytes m) = 28"
  by (simp add: arp_bytes_def arp_valid_def)

lemma run_arp_parser:
  assumes "arp_valid m" "length rest + 28 < two64"
  shows "run_state (arp_parser m0) (new_net_parser (arp_bytes m @ rest)) = ((NoError, m), new_net_parser rest)"
proof -
  have "unat (str_size (arp_bytes m @ rest)) = length rest + 28"
    using assms by (simp add: unat_str_size length_arp_bytes)
  then have "\<not> str_size (arp_bytes m @ rest) < 28" by (simp add: word_less_nat_alt)
  then show ?thesis using assms
    by (simp add: arp_parser_def new_net_parser_def arp_bytes_def arp_valid_def arp_supported_def parse_simps Let_def
        del: parse_bytes.simps)
qed

interpretation arp_wire: wire_format arp_serialize arp_parser arp_valid 28
proof
  fix h assume "arp_valid h"
  then show "\<exists>b. arp_serialize h = Inr b \<and> length b \<le> 28"
    using length_arp_bytes [of h] by (simp add: arp_serialize_eq arp_valid_def)
next
  fix h h0 and b rest :: bytes
  assume "arp_valid h" "arp_serialize h = Inr b" "length rest + 28 < two64"
  then show "run_state (arp_parser h0) (new_net_parser (b @ rest)) = ((NoError, h), new_net_parser rest)"
    using run_arp_parser [of h rest h0] by (simp add: arp_serialize_eq arp_valid_def)
qed

text \<open>
  \<open>ARPMessage::parse\<close> undoes \<open>ARPMessage::serialize\<close>, also when the buffer holds more bytes (the
  padding of a frame): every message with a supported field combination serialises, and parsing
  the bytes into any message object gives the message back.
\<close>

theorem arp_roundtrip:
  assumes "arp_valid m" "length padding + 28 < two64"
  shows "\<exists>b. arp_serialize m = Inr b \<and> arp_parse m0 (b @ padding) = (NoError, m)"
  using arp_wire.ser_valid [OF assms(1)] arp_wire.par_ser [OF assms(1) _ assms(2), of _ m0]
  by (auto simp: arp_parse_def)

abbreviation example_arp :: arp_message where
  "example_arp \<equiv> new_arp_message\<lparr>opcode := OPCODE_REQUEST, sender_ip_address := 0x0a000001, target_ip_address := 0x0a000002\<rparr>"

theorem arp_roundtrip_witness:
  "\<exists>b. arp_serialize example_arp = Inr b \<and> arp_parse new_arp_message (b @ [0, 0]) = (NoError, example_arp)"
  by (rule arp_roundtrip) (simp_all add: arp_valid_def arp_supported_def new_arp_message_def)

text \<open>A message that parses is supported, so it can be sent again.\<close>

lemma arp_parse_supported: "arp_parse m0 b = (NoError, m) \<Longrightarrow> arp_supported m"
proof -
  assume a: "arp_parse m0 b = (NoError, m)"
  then show ?thesis
    by (auto simp: arp_parse_def arp_parser_def Let_def arp_supported_def simp del: parse_bytes.simps
        split: if_splits prod.splits)
qed

end
