(* ===== verification/Network_Interface.thy ===== *)
theory Network_Interface
  imports IPv4 ARP_Message
begin

text \<open>
  \<open>NetworkInterface\<close> (src/libsponge/network_interface.hh and .cc): IP datagrams in Ethernet frames,
  with address resolution.  An \<open>Address\<close> is its 32-bit number.  An operation returns what it throws
  or returns together with the state it leaves.
\<close>

section \<open>The class\<close>

record network_interface =
  ni_ethernet_address :: ethernet_address
  ni_ip_address :: u32
  frames_out :: "ethernet_frame list"
  ethernet_addr_cache :: "u32 \<rightharpoonup> ethernet_address \<times> u64"
  queueing_IP_datagrams :: "(ipv4_datagram \<times> u32) list"
  arp_timer :: "u32 \<rightharpoonup> u64"

definition ARP_REQ_TIME :: u64 where "ARP_REQ_TIME = 5 * 1000"
definition CACHE_VALID_TIME :: u64 where "CACHE_VALID_TIME = 30 * 1000"

definition new_network_interface :: "ethernet_address \<Rightarrow> u32 \<Rightarrow> network_interface" where
  "new_network_interface e ip =
     \<lparr>ni_ethernet_address = e, ni_ip_address = ip, frames_out = [], ethernet_addr_cache = Map.empty,
      queueing_IP_datagrams = [], arp_timer = Map.empty\<rparr>"

definition push_frame :: "network_interface \<Rightarrow> ethernet_frame \<Rightarrow> network_interface" where
  "push_frame ni fr = ni\<lparr>frames_out := frames_out ni @ [fr]\<rparr>"

definition send_datagram :: "network_interface \<Rightarrow> ipv4_datagram \<Rightarrow> u32 \<Rightarrow> (exn + unit) \<times> network_interface" where
  "send_datagram ni dgram next_hop_ip =
     (case ethernet_addr_cache ni next_hop_ip of
        Some (e, _) \<Rightarrow>
          let frame_header = \<lparr>eth_dst = e, eth_src = ni_ethernet_address ni, eth_type = TYPE_IPv4\<rparr>
          in (case ipv4_datagram_serialize dgram of
                Inl ex \<Rightarrow> (Inl ex, ni)
              | Inr bl \<Rightarrow> (Inr (), push_frame ni \<lparr>fr_header = frame_header, fr_payload = bl\<rparr>))
      | None \<Rightarrow>
          let (r, ni) =
            (if arp_timer ni next_hop_ip = None \<or> ARP_REQ_TIME \<le> the (arp_timer ni next_hop_ip)
             then
               let ni = ni\<lparr>arp_timer := (arp_timer ni)(next_hop_ip \<mapsto> 0)\<rparr>;
                   arp_req = new_arp_message\<lparr>opcode := OPCODE_REQUEST,
                     sender_ethernet_address := ni_ethernet_address ni, sender_ip_address := ni_ip_address ni,
                     target_ethernet_address := replicate 6 0, target_ip_address := next_hop_ip\<rparr>;
                   frame_header = \<lparr>eth_dst = ETHERNET_BROADCAST, eth_src = ni_ethernet_address ni, eth_type = TYPE_ARP\<rparr>
               in (case arp_serialize arp_req of
                     Inl ex \<Rightarrow> (Inl ex, ni)
                   | Inr b \<Rightarrow> (Inr (), push_frame ni \<lparr>fr_header = frame_header, fr_payload = bl_of_string b\<rparr>))
             else (Inr (), ni))
          in case r of
               Inl ex \<Rightarrow> (Inl ex, ni)
             | Inr _ \<Rightarrow> (Inr (), ni\<lparr>queueing_IP_datagrams := queueing_IP_datagrams ni @ [(dgram, next_hop_ip)]\<rparr>))"

text \<open>
  The loop of \<open>recv_frame\<close> over the waiting datagrams, with the list split at the iterator. The
  address is in the cache at this point, so \<open>send_datagram\<close> leaves the list alone
  (\<open>send_cached_queue\<close>).
\<close>

fun send_queued :: "network_interface \<Rightarrow> u32 \<Rightarrow> (ipv4_datagram \<times> u32) list \<Rightarrow> (ipv4_datagram \<times> u32) list
    \<Rightarrow> (exn + unit) \<times> network_interface" where
  "send_queued ni ip kept [] = (Inr (), ni\<lparr>queueing_IP_datagrams := kept\<rparr>)"
| "send_queued ni ip kept ((dgram, k) # rest) =
     (if k = ip
      then (case send_datagram ni dgram k of
              (Inl ex, ni) \<Rightarrow> (Inl ex, ni\<lparr>queueing_IP_datagrams := kept @ (dgram, k) # rest\<rparr>)
            | (Inr _, ni) \<Rightarrow> send_queued ni ip kept rest)
      else send_queued ni ip (kept @ [(dgram, k)]) rest)"

definition answer_request :: "network_interface \<Rightarrow> arp_message \<Rightarrow> (exn + unit) \<times> network_interface" where
  "answer_request ni msg =
     (if opcode msg = OPCODE_REQUEST \<and> target_ip_address msg = ni_ip_address ni
      then
        let arp_rep = new_arp_message\<lparr>opcode := OPCODE_REPLY,
              sender_ethernet_address := ni_ethernet_address ni, sender_ip_address := ni_ip_address ni,
              target_ethernet_address := sender_ethernet_address msg, target_ip_address := sender_ip_address msg\<rparr>;
            header_to_send = \<lparr>eth_dst = sender_ethernet_address msg, eth_src = ni_ethernet_address ni, eth_type = TYPE_ARP\<rparr>
        in (case arp_serialize arp_rep of
              Inl ex \<Rightarrow> (Inl ex, ni)
            | Inr b \<Rightarrow> (Inr (), push_frame ni \<lparr>fr_header = header_to_send, fr_payload = bl_of_string b\<rparr>))
      else (Inr (), ni))"

definition recv_arp :: "network_interface \<Rightarrow> arp_message \<Rightarrow> (exn + ipv4_datagram option) \<times> network_interface" where
  "recv_arp ni msg =
     (let ni = ni\<lparr>ethernet_addr_cache := (ethernet_addr_cache ni)(sender_ip_address msg \<mapsto> (sender_ethernet_address msg, 0))\<rparr>;
          ni = ni\<lparr>arp_timer := (arp_timer ni)(sender_ip_address msg := None)\<rparr>
      in case send_queued ni (sender_ip_address msg) [] (queueing_IP_datagrams ni) of
           (Inl ex, ni) \<Rightarrow> (Inl ex, ni)
         | (Inr _, ni) \<Rightarrow>
             (case answer_request ni msg of
                (Inl ex, ni) \<Rightarrow> (Inl ex, ni)
              | (Inr _, ni) \<Rightarrow> (Inr None, ni)))"

definition recv_frame :: "network_interface \<Rightarrow> ethernet_frame \<Rightarrow> (exn + ipv4_datagram option) \<times> network_interface" where
  "recv_frame ni frame =
     (let frame_header = fr_header frame in
      if \<not> (eth_dst frame_header = ETHERNET_BROADCAST \<or> eth_dst frame_header = ni_ethernet_address ni)
      then (Inr None, ni)
      else case bl_to_buffer (fr_payload frame) of
        Inl ex \<Rightarrow> (Inl ex, ni)
      | Inr buffer \<Rightarrow>
          if eth_type frame_header = TYPE_IPv4
          then (case ipv4_datagram_parse new_ipv4_datagram buffer of
                  (NoError, dgram) \<Rightarrow> (Inr (Some dgram), ni)
                | _ \<Rightarrow> (Inr None, ni))
          else (case arp_parse new_arp_message buffer of
                  (NoError, msg) \<Rightarrow> recv_arp ni msg
                | _ \<Rightarrow> (Inr None, ni)))"

text \<open>
  \<open>tick\<close> adds the time to every cache entry, erases the ones that have become too old, and adds the
  time to every request timer.
\<close>

definition ni_tick :: "network_interface \<Rightarrow> u64 \<Rightarrow> network_interface" where
  "ni_tick ni ms =
     (let aged = (\<lambda>k. map_option (\<lambda>(e, t). (e, t + ms)) (ethernet_addr_cache ni k));
          kept = (\<lambda>k. case aged k of
                        Some (e, t) \<Rightarrow> if CACHE_VALID_TIME \<le> t then None else Some (e, t)
                      | None \<Rightarrow> None)
      in ni\<lparr>ethernet_addr_cache := kept, arp_timer := (\<lambda>k. map_option (\<lambda>t. t + ms) (arp_timer ni k))\<rparr>)"

section \<open>Sending\<close>

text \<open>The frames the interface can put out.\<close>

definition request_frame :: "network_interface \<Rightarrow> u32 \<Rightarrow> ethernet_frame" where
  "request_frame ni ip =
     \<lparr>fr_header = \<lparr>eth_dst = ETHERNET_BROADCAST, eth_src = ni_ethernet_address ni, eth_type = TYPE_ARP\<rparr>,
      fr_payload = [arp_bytes (new_arp_message\<lparr>opcode := OPCODE_REQUEST,
        sender_ethernet_address := ni_ethernet_address ni, sender_ip_address := ni_ip_address ni,
        target_ethernet_address := replicate 6 0, target_ip_address := ip\<rparr>)]\<rparr>"

definition reply_frame :: "network_interface \<Rightarrow> arp_message \<Rightarrow> ethernet_frame" where
  "reply_frame ni msg =
     \<lparr>fr_header = \<lparr>eth_dst = sender_ethernet_address msg, eth_src = ni_ethernet_address ni, eth_type = TYPE_ARP\<rparr>,
      fr_payload = [arp_bytes (new_arp_message\<lparr>opcode := OPCODE_REPLY,
        sender_ethernet_address := ni_ethernet_address ni, sender_ip_address := ni_ip_address ni,
        target_ethernet_address := sender_ethernet_address msg, target_ip_address := sender_ip_address msg\<rparr>)]\<rparr>"

definition datagram_frame :: "network_interface \<Rightarrow> ethernet_address \<Rightarrow> ipv4_datagram \<Rightarrow> ethernet_frame" where
  "datagram_frame ni e dgram =
     \<lparr>fr_header = \<lparr>eth_dst = e, eth_src = ni_ethernet_address ni, eth_type = TYPE_IPv4\<rparr>,
      fr_payload = (case ipv4_datagram_serialize dgram of Inl _ \<Rightarrow> [] | Inr bl \<Rightarrow> bl)\<rparr>"

definition sendable :: "ipv4_datagram \<Rightarrow> bool" where
  "sendable dgram \<longleftrightarrow> (case ipv4_datagram_serialize dgram of Inl _ \<Rightarrow> False | Inr _ \<Rightarrow> True)"

lemma example_sendable: "sendable example_datagram"
  by code_simp

lemma send_cached:
  "ethernet_addr_cache ni ip = Some (e, t) \<Longrightarrow> sendable dgram \<Longrightarrow>
   send_datagram ni dgram ip = (Inr (), push_frame ni (datagram_frame ni e dgram))"
  by (auto simp: send_datagram_def sendable_def datagram_frame_def split: sum.splits)

lemma send_cached_queue:
  "ethernet_addr_cache ni ip = Some (e, t) \<Longrightarrow>
   queueing_IP_datagrams (snd (send_datagram ni dgram ip)) = queueing_IP_datagrams ni"
  by (auto simp: send_datagram_def push_frame_def split: sum.splits)

definition request_due :: "network_interface \<Rightarrow> u32 \<Rightarrow> bool" where
  "request_due ni ip \<longleftrightarrow> (case arp_timer ni ip of None \<Rightarrow> True | Some t \<Rightarrow> ARP_REQ_TIME \<le> t)"

lemma send_uncached:
  "ethernet_addr_cache ni ip = None \<Longrightarrow>
   send_datagram ni dgram ip =
     (Inr (), ni\<lparr>queueing_IP_datagrams := queueing_IP_datagrams ni @ [(dgram, ip)],
                 frames_out := frames_out ni @ (if request_due ni ip then [request_frame ni ip] else []),
                 arp_timer := (if request_due ni ip then (arp_timer ni)(ip \<mapsto> 0) else arp_timer ni)\<rparr>)"
  by (cases "arp_timer ni ip")
    (simp_all add: send_datagram_def request_due_def arp_serialize_eq arp_supported_def new_arp_message_def
      push_frame_def request_frame_def bl_of_string_def)

section \<open>Receiving an ARP message\<close>

lemma frame_simps [simp]:
  "datagram_frame (ni\<lparr>frames_out := f\<rparr>) = datagram_frame ni"
  "datagram_frame (ni\<lparr>queueing_IP_datagrams := q\<rparr>) = datagram_frame ni"
  "datagram_frame (ni\<lparr>arp_timer := a\<rparr>) = datagram_frame ni"
  "datagram_frame (ni\<lparr>ethernet_addr_cache := c\<rparr>) = datagram_frame ni"
  "reply_frame (ni\<lparr>frames_out := f\<rparr>) = reply_frame ni"
  "reply_frame (ni\<lparr>queueing_IP_datagrams := q\<rparr>) = reply_frame ni"
  "reply_frame (ni\<lparr>arp_timer := a\<rparr>) = reply_frame ni"
  "reply_frame (ni\<lparr>ethernet_addr_cache := c\<rparr>) = reply_frame ni"
  by (simp_all add: datagram_frame_def reply_frame_def fun_eq_iff)

lemma send_queued_eq:
  assumes "ethernet_addr_cache ni ip = Some (e, t)" "\<And>d. (d, ip) \<in> set rest \<Longrightarrow> sendable d"
  shows "send_queued ni ip kept rest =
    (Inr (), ni\<lparr>queueing_IP_datagrams := kept @ filter (\<lambda>x. snd x \<noteq> ip) rest,
                frames_out := frames_out ni @ map (\<lambda>x. datagram_frame ni e (fst x)) (filter (\<lambda>x. snd x = ip) rest)\<rparr>)"
  using assms
proof (induction rest arbitrary: ni kept)
  case (Cons x rest)
  obtain d k where x: "x = (d, k)" by force
  show ?case
  proof (cases "k = ip")
    case True
    then have "sendable d" using Cons.prems x by simp
    then show ?thesis
      using True Cons.IH [of "push_frame ni (datagram_frame ni e d)" kept] Cons.prems x
      by (simp add: send_cached push_frame_def)
  next
    case False
    then show ?thesis using Cons.IH [of ni "kept @ [x]"] Cons.prems x by simp
  qed
qed simp

lemma answer_request_eq:
  "answer_request ni msg =
     (Inr (), ni\<lparr>frames_out := frames_out ni @
        (if opcode msg = OPCODE_REQUEST \<and> target_ip_address msg = ni_ip_address ni then [reply_frame ni msg] else [])\<rparr>)"
  by (simp add: answer_request_def arp_serialize_eq arp_supported_def new_arp_message_def push_frame_def reply_frame_def
      bl_of_string_def Let_def)

lemma recv_arp_eq:
  assumes "\<And>d. (d, sender_ip_address msg) \<in> set (queueing_IP_datagrams ni) \<Longrightarrow> sendable d"
  shows "recv_arp ni msg = (Inr None, ni\<lparr>
     frames_out := frames_out ni @
       map (\<lambda>x. datagram_frame ni (sender_ethernet_address msg) (fst x))
         (filter (\<lambda>x. snd x = sender_ip_address msg) (queueing_IP_datagrams ni)) @
       (if opcode msg = OPCODE_REQUEST \<and> target_ip_address msg = ni_ip_address ni then [reply_frame ni msg] else []),
     ethernet_addr_cache := (ethernet_addr_cache ni)(sender_ip_address msg \<mapsto> (sender_ethernet_address msg, 0)),
     queueing_IP_datagrams := filter (\<lambda>x. snd x \<noteq> sender_ip_address msg) (queueing_IP_datagrams ni),
     arp_timer := (arp_timer ni)(sender_ip_address msg := None)\<rparr>)"
  using assms unfolding recv_arp_def Let_def
  by (subst send_queued_eq) (auto simp: answer_request_eq)

section \<open>The invariant\<close>

text \<open>
  Cached addresses are younger than thirty seconds and have no request timer; a request is timed
  for every waiting datagram, which can be sent once it is answered; the frames put out carry the
  address of the interface.
\<close>

definition ni_inv :: "network_interface \<Rightarrow> bool" where
  "ni_inv ni \<longleftrightarrow>
     length (ni_ethernet_address ni) = 6 \<and>
     (\<forall>ip e t. ethernet_addr_cache ni ip = Some (e, t) \<longrightarrow>
        length e = 6 \<and> t < CACHE_VALID_TIME \<and> arp_timer ni ip = None) \<and>
     (\<forall>(d, ip) \<in> set (queueing_IP_datagrams ni). arp_timer ni ip \<noteq> None \<and> sendable d) \<and>
     (\<forall>fr \<in> set (frames_out ni). eth_src (fr_header fr) = ni_ethernet_address ni \<and> ethernet_header_valid (fr_header fr))"

lemma ni_invD:
  assumes "ni_inv ni"
  shows "length (ni_ethernet_address ni) = 6"
    and "ethernet_addr_cache ni ip = Some (e, t) \<Longrightarrow> length e = 6 \<and> t < CACHE_VALID_TIME \<and> arp_timer ni ip = None"
    and "(d, ip) \<in> set (queueing_IP_datagrams ni) \<Longrightarrow> arp_timer ni ip \<noteq> None \<and> sendable d"
    and "fr \<in> set (frames_out ni) \<Longrightarrow> eth_src (fr_header fr) = ni_ethernet_address ni \<and> ethernet_header_valid (fr_header fr)"
  using assms by (auto simp: ni_inv_def)

lemma ni_inv_new: "length e = 6 \<Longrightarrow> ni_inv (new_network_interface e ip)"
  by (simp add: ni_inv_def new_network_interface_def)

lemma frame_valid:
  "length (ni_ethernet_address ni) = 6 \<Longrightarrow> ethernet_header_valid (fr_header (request_frame ni ip))"
  "length (ni_ethernet_address ni) = 6 \<Longrightarrow> length e = 6 \<Longrightarrow> ethernet_header_valid (fr_header (datagram_frame ni e d))"
  "length (ni_ethernet_address ni) = 6 \<Longrightarrow> length (sender_ethernet_address m) = 6 \<Longrightarrow> ethernet_header_valid (fr_header (reply_frame ni m))"
  "eth_src (fr_header (request_frame ni ip)) = ni_ethernet_address ni"
  "eth_src (fr_header (datagram_frame ni e d)) = ni_ethernet_address ni"
  "eth_src (fr_header (reply_frame ni m)) = ni_ethernet_address ni"
  by (simp_all add: request_frame_def datagram_frame_def reply_frame_def ethernet_header_valid_def ETHERNET_BROADCAST_def)

lemma ni_inv_send: "ni_inv ni \<Longrightarrow> sendable d \<Longrightarrow> ni_inv (snd (send_datagram ni d ip))"
proof (cases "ethernet_addr_cache ni ip")
  case None
  assume "ni_inv ni" "sendable d"
  with None show ?thesis
    by (auto simp: send_uncached ni_inv_def frame_valid request_due_def split: option.splits)
next
  case (Some et)
  obtain e t where et: "et = (e, t)" by force
  assume "ni_inv ni" "sendable d"
  with Some et show ?thesis
    by (auto simp: send_cached push_frame_def ni_inv_def frame_valid)
qed

lemma length_parse_bytes: "run_state (parse_bytes n) p = (bs, q) \<Longrightarrow> length bs = n"
  by (induction n arbitrary: p bs q) (auto split: prod.splits)

lemma arp_parse_lengths: "arp_parse m0 b = (NoError, m) \<Longrightarrow> length (sender_ethernet_address m) = 6"
  by (auto simp: arp_parse_def arp_parser_def Let_def dest: length_parse_bytes simp del: parse_bytes.simps
      split: if_splits prod.splits)

lemma ni_inv_recv_arp:
  assumes "ni_inv ni" "length (sender_ethernet_address msg) = 6"
  shows "ni_inv (snd (recv_arp ni msg))"
  using assms ni_invD(3) [OF assms(1)]
  by (subst recv_arp_eq) (auto simp: ni_inv_def frame_valid CACHE_VALID_TIME_def)

lemma recv_frame_cases:
  "recv_frame ni fr = (Inr None, ni) \<or>
   (\<exists>ex. bl_to_buffer (fr_payload fr) = Inl ex \<and> recv_frame ni fr = (Inl ex, ni)) \<or>
   (\<exists>b d. bl_to_buffer (fr_payload fr) = Inr b \<and> eth_type (fr_header fr) = TYPE_IPv4 \<and>
      ipv4_datagram_parse new_ipv4_datagram b = (NoError, d) \<and> recv_frame ni fr = (Inr (Some d), ni)) \<or>
   (\<exists>b msg. bl_to_buffer (fr_payload fr) = Inr b \<and> eth_type (fr_header fr) \<noteq> TYPE_IPv4 \<and>
      arp_parse new_arp_message b = (NoError, msg) \<and> recv_frame ni fr = recv_arp ni msg)"
proof (cases "bl_to_buffer (fr_payload fr)")
  case (Inr b)
  obtain r d where p: "ipv4_datagram_parse new_ipv4_datagram b = (r, d)" by force
  obtain s m where q: "arp_parse new_arp_message b = (s, m)" by force
  show ?thesis using Inr p q unfolding recv_frame_def Let_def by (cases r; cases s) auto
qed (auto simp: recv_frame_def Let_def)

lemma ni_inv_recv: "ni_inv ni \<Longrightarrow> ni_inv (snd (recv_frame ni fr))"
  using recv_frame_cases [of ni fr] by (auto intro!: ni_inv_recv_arp dest: arp_parse_lengths)

lemma ni_inv_tick: "ni_inv ni \<Longrightarrow> ni_inv (ni_tick ni ms)"
  by (auto simp: ni_inv_def ni_tick_def Let_def not_le split: option.splits prod.splits if_splits)

section \<open>Traces\<close>

datatype ni_op = Ni_Send ipv4_datagram u32 | Ni_Recv ethernet_frame | Ni_Tick u64 | Ni_Pop

definition ni_exec :: "network_interface \<Rightarrow> ni_op \<Rightarrow> network_interface" where
  "ni_exec ni x =
     (case x of
        Ni_Send d ip \<Rightarrow> snd (send_datagram ni d ip)
      | Ni_Recv fr \<Rightarrow> snd (recv_frame ni fr)
      | Ni_Tick ms \<Rightarrow> ni_tick ni ms
      | Ni_Pop \<Rightarrow> ni\<lparr>frames_out := tl (frames_out ni)\<rparr>)"

definition ni_fair :: "network_interface \<Rightarrow> ni_op \<Rightarrow> bool" where
  "ni_fair ni x \<longleftrightarrow> (case x of Ni_Send d ip \<Rightarrow> sendable d | _ \<Rightarrow> True)"

interpretation nim: guarded_machine ni_exec ni_fair ni_inv
proof
  fix ni x assume "ni_inv ni" "ni_fair ni x"
  moreover from this have "ni_inv (ni\<lparr>frames_out := tl (frames_out ni)\<rparr>)"
    by (cases "frames_out ni") (auto simp: ni_inv_def)
  ultimately show "ni_inv (ni_exec ni x)"
    by (auto simp: ni_exec_def ni_fair_def ni_inv_send ni_inv_recv ni_inv_tick split: ni_op.splits)
qed

text \<open>
  C28. The network interface keeps its invariant, whatever arrives on the wire: after any sequence of
  sends (of datagrams that serialise), arbitrary received frames, clock ticks and frames taken
  from the output queue, every cached address has six bytes, is younger than 30 seconds and has no
  pending request; for every waiting datagram a request has been sent whose timer runs; and every
  outgoing frame carries the address of the interface.
\<close>

theorem interface_invariant:
  assumes "length e = 6" "guarded ni_exec ni_fair (new_network_interface e ip) ops"
  shows "ni_inv (foldl ni_exec (new_network_interface e ip) ops)"
  using nim.run_inv [OF ni_inv_new [OF assms(1)] assms(2)] .

abbreviation example_interface :: network_interface where
  "example_interface \<equiv> new_network_interface [2, 0, 0, 0, 0, 1] 0x0a000001"

theorem interface_invariant_witness:
  "ni_inv (foldl ni_exec example_interface [Ni_Send example_datagram 0x0a000002, Ni_Tick 5000, Ni_Pop,
     Ni_Send example_datagram 0x0a000002])"
  using interface_invariant [of "[2, 0, 0, 0, 0, 1]" "0x0a000001" "[Ni_Send example_datagram 0x0a000002, Ni_Tick 5000, Ni_Pop,
     Ni_Send example_datagram 0x0a000002]"] example_sendable
  by (simp add: ni_fair_def)

section \<open>Across the wire\<close>

text \<open>What the receiver of a frame gets: the bytes of the frame, parsed again.\<close>

definition on_wire :: "ethernet_frame \<Rightarrow> ethernet_frame" where
  "on_wire fr = snd (ethernet_frame_parse new_ethernet_frame (bl_concatenate (ethernet_frame_serialize fr)))"

lemma on_wire_eq:
  "ethernet_header_valid (fr_header fr) \<Longrightarrow> length (concat (fr_payload fr)) + 14 < two64 \<Longrightarrow>
   on_wire fr = fr\<lparr>fr_payload := [concat (fr_payload fr)]\<rparr>"
  using ethernet_parse_serialize [of fr] by (simp add: on_wire_def bl_concatenate_eq)

lemma arp_parse_bytes: "arp_valid m \<Longrightarrow> arp_parse m0 (arp_bytes m) = (NoError, m)"
  using run_arp_parser [of m "[]" m0] by (simp add: arp_parse_def)

lemma valid_sendable: "ipv4_datagram_valid d \<Longrightarrow> sendable d"
  using ipv4_parse_serialize [of d d] by (auto simp: sendable_def)

lemma datagram_frame_length:
  assumes "ipv4_datagram_valid d"
  shows "length (concat (fr_payload (datagram_frame ni e d))) < 65536"
proof -
  let ?bl = "ip_bytes ((ip_header d)\<lparr>ip_cksum := ip_header_checksum (ip_header d)\<rparr>) # ip_payload d"
  have "ipv4_datagram_serialize d = Inr ?bl"
    using assms valid_payload_size [OF assms]
    by (simp add: ipv4_datagram_serialize_eq ipv4_datagram_valid_def ipv4_header_valid_def)
  moreover have "length (concat ?bl) = unat (ip_len (ip_header d))"
    using assms by (simp add: length_ip_bytes ipv4_datagram_valid_def ipv4_header_valid_def bl_concatenate_eq)
  ultimately show ?thesis
    using unat_u16_less [of "ip_len (ip_header d)"] by (simp add: datagram_frame_def)
qed

lemma recv_datagram_frame:
  assumes "ipv4_datagram_valid d" "length (ni_ethernet_address ni) = 6" "length (ni_ethernet_address peer) = 6"
  shows "recv_frame peer (on_wire (datagram_frame ni (ni_ethernet_address peer) d)) =
    (Inr (Some \<lparr>ip_header = (ip_header d)\<lparr>ip_cksum := ip_header_checksum (ip_header d)\<rparr>,
                ip_payload = [bl_concatenate (ip_payload d)]\<rparr>), peer)"
proof -
  obtain bl where bl: "ipv4_datagram_serialize d = Inr bl"
    "ipv4_datagram_parse new_ipv4_datagram (bl_concatenate bl) =
      (NoError, \<lparr>ip_header = (ip_header d)\<lparr>ip_cksum := ip_header_checksum (ip_header d)\<rparr>,
                 ip_payload = [bl_concatenate (ip_payload d)]\<rparr>)"
    using ipv4_parse_serialize [OF assms(1)] by blast
  have "length (concat bl) + 14 < two64"
    using datagram_frame_length [OF assms(1), of ni] bl(1) by (simp add: datagram_frame_def)
  moreover have "ethernet_header_valid (fr_header (datagram_frame ni (ni_ethernet_address peer) d))"
    using assms(2,3) by (simp add: frame_valid)
  ultimately have "on_wire (datagram_frame ni (ni_ethernet_address peer) d) =
      (datagram_frame ni (ni_ethernet_address peer) d)\<lparr>fr_payload := [concat bl]\<rparr>"
    using on_wire_eq [of "datagram_frame ni (ni_ethernet_address peer) d"] bl(1) by (simp add: datagram_frame_def)
  then show ?thesis
    using bl by (simp add: recv_frame_def datagram_frame_def bl_to_buffer_def bl_concatenate_eq)
qed

text \<open>
  A datagram sent to a known neighbour arrives there: when the next hop is cached,
  \<open>send_datagram\<close> queues exactly one frame, and when that frame is serialised, carried and parsed
  again, the \<open>recv_frame\<close> of the interface that owns the cached Ethernet address returns the same
  datagram (header checksum filled in, payload in one buffer).
\<close>

theorem datagram_reaches_neighbour:
  assumes "ni_inv ni" "ni_inv peer"
    and "ethernet_addr_cache ni ip = Some (ni_ethernet_address peer, t)" "ipv4_datagram_valid d"
  shows "\<exists>fr. send_datagram ni d ip = (Inr (), ni\<lparr>frames_out := frames_out ni @ [fr]\<rparr>) \<and>
    recv_frame peer (on_wire fr) =
      (Inr (Some \<lparr>ip_header = (ip_header d)\<lparr>ip_cksum := ip_header_checksum (ip_header d)\<rparr>,
                  ip_payload = [bl_concatenate (ip_payload d)]\<rparr>), peer)"
proof (intro exI conjI)
  let ?fr = "datagram_frame ni (ni_ethernet_address peer) d"
  show "send_datagram ni d ip = (Inr (), ni\<lparr>frames_out := frames_out ni @ [?fr]\<rparr>)"
    using send_cached [OF assms(3) valid_sendable [OF assms(4)]] by (simp add: push_frame_def)
  show "recv_frame peer (on_wire ?fr) =
      (Inr (Some \<lparr>ip_header = (ip_header d)\<lparr>ip_cksum := ip_header_checksum (ip_header d)\<rparr>,
                  ip_payload = [bl_concatenate (ip_payload d)]\<rparr>), peer)"
    using recv_datagram_frame [OF assms(4)] ni_invD(1) [OF assms(1)] ni_invD(1) [OF assms(2)] by blast
qed

text \<open>Both halves of an ARP exchange.\<close>

lemma recv_request_frame:
  assumes "ni_inv ni" "ni_inv peer" "ni_ip_address peer = ip"
  shows "\<exists>m. recv_frame peer (on_wire (request_frame ni ip)) = recv_arp peer m \<and>
    opcode m = OPCODE_REQUEST \<and> target_ip_address m = ip \<and>
    sender_ethernet_address m = ni_ethernet_address ni \<and> sender_ip_address m = ni_ip_address ni"
proof -
  let ?m = "new_arp_message\<lparr>opcode := OPCODE_REQUEST, sender_ethernet_address := ni_ethernet_address ni,
    sender_ip_address := ni_ip_address ni, target_ethernet_address := replicate 6 0, target_ip_address := ip\<rparr>"
  have v: "arp_valid ?m" using ni_invD(1) [OF assms(1)] by (simp add: arp_valid_def arp_supported_def new_arp_message_def)
  then have "on_wire (request_frame ni ip) = request_frame ni ip"
    using on_wire_eq [of "request_frame ni ip"] ni_invD(1) [OF assms(1)] length_arp_bytes [OF v]
    by (simp add: ethernet_header_valid_def ETHERNET_BROADCAST_def request_frame_def)
  then have "recv_frame peer (on_wire (request_frame ni ip)) = recv_arp peer ?m"
    using arp_parse_bytes [OF v] by (simp add: recv_frame_def request_frame_def bl_to_buffer_def TYPE_ARP_def TYPE_IPv4_def)
  then show ?thesis by (intro exI [of _ ?m]) simp
qed

lemma recv_reply_frame:
  assumes "ni_inv ni" "ni_inv peer" "sender_ethernet_address msg = ni_ethernet_address ni"
  shows "\<exists>m. recv_frame ni (on_wire (reply_frame peer msg)) = recv_arp ni m \<and>
    opcode m = OPCODE_REPLY \<and> sender_ethernet_address m = ni_ethernet_address peer \<and> sender_ip_address m = ni_ip_address peer"
proof -
  let ?m = "new_arp_message\<lparr>opcode := OPCODE_REPLY, sender_ethernet_address := ni_ethernet_address peer,
    sender_ip_address := ni_ip_address peer, target_ethernet_address := sender_ethernet_address msg,
    target_ip_address := sender_ip_address msg\<rparr>"
  have v: "arp_valid ?m"
    using ni_invD(1) [OF assms(1)] ni_invD(1) [OF assms(2)] assms(3)
    by (simp add: arp_valid_def arp_supported_def new_arp_message_def)
  then have "on_wire (reply_frame peer msg) = reply_frame peer msg"
    using on_wire_eq [of "reply_frame peer msg"] ni_invD(1) [OF assms(1)] ni_invD(1) [OF assms(2)] length_arp_bytes [OF v] assms(3)
    by (simp add: ethernet_header_valid_def reply_frame_def)
  then have "recv_frame ni (on_wire (reply_frame peer msg)) = recv_arp ni ?m"
    using arp_parse_bytes [OF v] assms(3)
    by (simp add: recv_frame_def reply_frame_def bl_to_buffer_def TYPE_ARP_def TYPE_IPv4_def)
  then show ?thesis by (intro exI [of _ ?m]) simp
qed

text \<open>
  C27. Address resolution works end to end.  Interface A sends a datagram to an address it does not
  know and for which a request is due; the broadcast request is carried to interface B, which owns
  that address; B's answer is carried back to A.  Then A has cached B's Ethernet address, no
  datagram for that address is waiting any more, the frame A puts out last is the datagram
  addressed to B, and B has learnt the address of A on the way.
\<close>

theorem arp_exchange_delivers:
  assumes "ni_inv A" "ni_inv B" "ni_ip_address B = ip"
    and "ethernet_addr_cache A ip = None" "request_due A ip" "sendable d"
  defines "A1 \<equiv> snd (send_datagram A d ip)"
  defines "B1 \<equiv> snd (recv_frame B (on_wire (last (frames_out A1))))"
  defines "A2 \<equiv> snd (recv_frame A1 (on_wire (last (frames_out B1))))"
  shows "ethernet_addr_cache A2 ip = Some (ni_ethernet_address B, 0) \<and>
    ip \<notin> snd ` set (queueing_IP_datagrams A2) \<and>
    last (frames_out A2) = datagram_frame A (ni_ethernet_address B) d \<and>
    ethernet_addr_cache B1 (ni_ip_address A) = Some (ni_ethernet_address A, 0)"
proof (intro conjI)
  have A1: "A1 = A\<lparr>queueing_IP_datagrams := queueing_IP_datagrams A @ [(d, ip)],
      frames_out := frames_out A @ [request_frame A ip], arp_timer := (arp_timer A)(ip \<mapsto> 0)\<rparr>"
    using assms(4,5) by (simp add: A1_def send_uncached)
  have inv: "ni_inv A1" unfolding A1_def using assms(1,6) by (rule ni_inv_send)
  obtain m where m: "recv_frame B (on_wire (request_frame A ip)) = recv_arp B m"
    "opcode m = OPCODE_REQUEST" "target_ip_address m = ip" "sender_ethernet_address m = ni_ethernet_address A"
    "sender_ip_address m = ni_ip_address A"
    using recv_request_frame [OF assms(1-3)] by blast
  have B1: "B1 = snd (recv_arp B m)" using m(1) by (simp add: B1_def A1)
  have q: "sendable c" if "(c, sender_ip_address m) \<in> set (queueing_IP_datagrams B)" for c
    using ni_invD(3) [OF assms(2)] that by blast
  show "ethernet_addr_cache B1 (ni_ip_address A) = Some (ni_ethernet_address A, 0)"
    using m q unfolding B1 by (subst recv_arp_eq) auto
  have last_B1: "last (frames_out B1) = reply_frame B m"
    using m q assms(3) unfolding B1 by (subst recv_arp_eq) auto
  obtain r where r: "recv_frame A1 (on_wire (reply_frame B m)) = recv_arp A1 r" "opcode r = OPCODE_REPLY"
    "sender_ethernet_address r = ni_ethernet_address B" "sender_ip_address r = ip"
    using recv_reply_frame [OF inv assms(2), of m] m(4) assms(3) by (auto simp: A1)
  have A2: "A2 = snd (recv_arp A1 r)" using r(1) by (simp add: A2_def last_B1)
  have q1: "sendable c" if "(c, sender_ip_address r) \<in> set (queueing_IP_datagrams A1)" for c
    using ni_invD(3) [OF inv] that by blast
  show "ethernet_addr_cache A2 ip = Some (ni_ethernet_address B, 0)" "ip \<notin> snd ` set (queueing_IP_datagrams A2)"
    using r q1 unfolding A2 by (subst recv_arp_eq; auto)+
  show "last (frames_out A2) = datagram_frame A (ni_ethernet_address B) d"
    using r q1 unfolding A2 by (subst recv_arp_eq) (auto simp: A1 OPCODE_REPLY_def OPCODE_REQUEST_def)
qed

section \<open>Time\<close>

text \<open>The frame is an ARP message whose sender is \<open>ip\<close>.\<close>

definition arp_from :: "ethernet_frame \<Rightarrow> u32 \<Rightarrow> bool" where
  "arp_from fr ip \<longleftrightarrow>
     (case bl_to_buffer (fr_payload fr) of
        Inl _ \<Rightarrow> False
      | Inr b \<Rightarrow> (case arp_parse new_arp_message b of (r, m) \<Rightarrow> r = NoError \<and> sender_ip_address m = ip))"

definition quiet :: "u32 \<Rightarrow> ni_op \<Rightarrow> bool" where
  "quiet ip x \<longleftrightarrow> (case x of Ni_Recv fr \<Rightarrow> \<not> arp_from fr ip | _ \<Rightarrow> True)"

definition op_time :: "ni_op \<Rightarrow> nat" where
  "op_time x = (case x of Ni_Tick ms \<Rightarrow> unat ms | _ \<Rightarrow> 0)"

lemma recv_quiet:
  assumes "ni_inv ni" "\<not> arp_from fr ip"
  shows "ethernet_addr_cache (snd (recv_frame ni fr)) ip = ethernet_addr_cache ni ip"
    and "arp_timer (snd (recv_frame ni fr)) ip = arp_timer ni ip"
proof -
  have "ethernet_addr_cache (snd (recv_arp ni m)) ip = ethernet_addr_cache ni ip"
    "arp_timer (snd (recv_arp ni m)) ip = arp_timer ni ip" if "sender_ip_address m \<noteq> ip" for m
    using that ni_invD(3) [OF assms(1)] by (subst recv_arp_eq; auto)+
  then show "ethernet_addr_cache (snd (recv_frame ni fr)) ip = ethernet_addr_cache ni ip"
    "arp_timer (snd (recv_frame ni fr)) ip = arp_timer ni ip"
    using recv_frame_cases [of ni fr] assms(2) by (auto simp: arp_from_def)
qed

lemma send_cache: "ethernet_addr_cache (snd (send_datagram ni d ip')) = ethernet_addr_cache ni"
proof (cases "ethernet_addr_cache ni ip'")
  case (Some et)
  then show ?thesis by (cases et) (auto simp: send_datagram_def push_frame_def split: sum.splits)
qed (simp add: send_uncached)

lemma send_timer:
  "arp_timer ni ip = Some t \<Longrightarrow> t < ARP_REQ_TIME \<Longrightarrow> arp_timer (snd (send_datagram ni d ip')) ip = Some t"
proof (cases "ethernet_addr_cache ni ip'")
  case (Some et)
  assume "arp_timer ni ip = Some t"
  with Some show ?thesis by (cases et) (auto simp: send_datagram_def push_frame_def split: sum.splits)
qed (auto simp: send_uncached request_due_def)

lemma timer_step:
  assumes "ni_inv ni" "quiet ip x" "arp_timer ni ip = Some t" "t < ARP_REQ_TIME"
  shows "arp_timer (ni_exec ni x) ip = Some (t + of_nat (op_time x))"
  using assms
  by (cases x) (simp_all add: ni_exec_def quiet_def op_time_def send_timer recv_quiet ni_tick_def Let_def)

lemma timer_run:
  assumes "ni_inv ni" "guarded ni_exec ni_fair ni ops" "\<forall>x \<in> set ops. quiet ip x"
    and "arp_timer ni ip = Some t" "unat t + sum_list (map op_time ops) < 5000"
  shows "\<exists>t'. arp_timer (foldl ni_exec ni ops) ip = Some t' \<and> unat t' = unat t + sum_list (map op_time ops)"
  using assms
proof (induction ops arbitrary: ni t)
  case (Cons x ops)
  have "unat (t + of_nat (op_time x)) = unat t + op_time x"
    using Cons.prems(5) by (simp add: unat_word_ariths unat_of_nat)
  moreover have "arp_timer (ni_exec ni x) ip = Some (t + of_nat (op_time x))"
    using Cons.prems by (intro timer_step) (auto simp: ARP_REQ_TIME_def word_less_nat_alt)
  moreover have "ni_inv (ni_exec ni x)" using Cons.prems by (auto intro: nim.step_inv)
  ultimately show ?case using Cons.IH [of "ni_exec ni x" "t + of_nat (op_time x)"] Cons.prems by auto
qed simp

text \<open>
  C29. No ARP flood: once a request for an address has been sent (its timer runs), then for as long
  as less than 5 seconds have passed and no ARP message has come from that address, another
  datagram for it, after any other traffic in between, is only queued: no frame is put out and the
  timer is not restarted.
\<close>

theorem no_arp_flood:
  assumes "ni_inv ni" "guarded ni_exec ni_fair ni ops" "\<forall>x \<in> set ops. quiet ip x"
    and "arp_timer ni ip = Some t" "unat t + sum_list (map op_time ops) < 5000"
  defines "s \<equiv> foldl ni_exec ni ops"
  shows "send_datagram s d ip = (Inr (), s\<lparr>queueing_IP_datagrams := queueing_IP_datagrams s @ [(d, ip)]\<rparr>)"
proof -
  obtain t' where t': "arp_timer s ip = Some t'" "unat t' < 5000"
    using timer_run [OF assms(1-5)] assms(5) by (auto simp: s_def)
  have "ni_inv s" unfolding s_def using nim.run_inv assms(1,2) by blast
  then have "ethernet_addr_cache s ip = None" using ni_invD(2) t'(1) by (metis not_None_eq prod.collapse)
  moreover have "\<not> request_due s ip" using t' by (simp add: request_due_def ARP_REQ_TIME_def word_le_nat_alt)
  ultimately show ?thesis by (simp add: send_uncached)
qed

lemma cache_step:
  assumes "ni_inv ni" "quiet ip x"
    and "ethernet_addr_cache ni ip = (if a < 30000 then Some (e, of_nat a) else None)" "a + op_time x < two64"
  shows "ethernet_addr_cache (ni_exec ni x) ip =
    (if a + op_time x < 30000 then Some (e, of_nat (a + op_time x)) else None)"
proof (cases x)
  case (Ni_Tick ms)
  have "CACHE_VALID_TIME \<le> of_nat a + ms \<longleftrightarrow> \<not> a + op_time x < 30000" if "a < 30000"
  proof -
    have "unat (of_nat a + ms) = a + op_time x"
      using Ni_Tick assms(4) by (simp add: op_time_def unat_word_ariths unat_of_nat)
    then show ?thesis by (simp add: CACHE_VALID_TIME_def word_le_nat_alt not_less)
  qed
  then show ?thesis using Ni_Tick assms(3) by (auto simp: ni_exec_def ni_tick_def Let_def op_time_def)
qed (use assms in \<open>simp_all add: ni_exec_def quiet_def op_time_def send_cache recv_quiet\<close>)

lemma cache_run:
  assumes "ni_inv ni" "guarded ni_exec ni_fair ni ops" "\<forall>x \<in> set ops. quiet ip x"
    and "ethernet_addr_cache ni ip = (if a < 30000 then Some (e, of_nat a) else None)"
    and "a + sum_list (map op_time ops) < two64"
  shows "ethernet_addr_cache (foldl ni_exec ni ops) ip =
    (if a + sum_list (map op_time ops) < 30000 then Some (e, of_nat (a + sum_list (map op_time ops))) else None)"
  using assms
proof (induction ops arbitrary: ni a)
  case (Cons x ops)
  have "ethernet_addr_cache (ni_exec ni x) ip =
      (if a + op_time x < 30000 then Some (e, of_nat (a + op_time x)) else None)"
    using Cons.prems by (intro cache_step) auto
  moreover have "ni_inv (ni_exec ni x)" using Cons.prems by (auto intro: nim.step_inv)
  ultimately show ?case using Cons.IH [of "ni_exec ni x" "a + op_time x"] Cons.prems by (auto simp: add.assoc)
qed simp

text \<open>
  A learnt address lives exactly 30 seconds: after an ARP message has been received from an
  address, and any further traffic without another ARP message from it, the Ethernet address is in
  the cache if and only if the clock ticks since then add up to less than 30000 ms.
\<close>

theorem learnt_address_lifetime:
  assumes "ni_inv ni" "length (sender_ethernet_address msg) = 6"
    and "guarded ni_exec ni_fair (snd (recv_arp ni msg)) ops" "\<forall>x \<in> set ops. quiet (sender_ip_address msg) x"
    and "sum_list (map op_time ops) < two64"
  shows "map_option fst (ethernet_addr_cache (foldl ni_exec (snd (recv_arp ni msg)) ops) (sender_ip_address msg)) =
    (if sum_list (map op_time ops) < 30000 then Some (sender_ethernet_address msg) else None)"
proof -
  let ?s = "snd (recv_arp ni msg)"
  have "ethernet_addr_cache ?s (sender_ip_address msg) = Some (sender_ethernet_address msg, 0)"
    using ni_invD(3) [OF assms(1)] by (subst recv_arp_eq) auto
  then show ?thesis
    using cache_run [OF ni_inv_recv_arp [OF assms(1,2)] assms(3,4), of 0 "sender_ethernet_address msg"] assms(5) by simp
qed

section \<open>Examples\<close>

abbreviation example_peer :: network_interface where
  "example_peer \<equiv> new_network_interface [2, 0, 0, 0, 0, 2] 0x0a000002"

lemma example_invs: "ni_inv example_interface" "ni_inv example_peer"
  by (simp_all add: ni_inv_new)

abbreviation example_msg :: arp_message where
  "example_msg \<equiv> new_arp_message\<lparr>opcode := OPCODE_REPLY, sender_ethernet_address := [2, 0, 0, 0, 0, 2],
     sender_ip_address := 0x0a000002\<rparr>"

lemma example_recv_arp:
  "snd (recv_arp example_interface example_msg) =
     example_interface\<lparr>ethernet_addr_cache := [0x0a000002 \<mapsto> ([2, 0, 0, 0, 0, 2], 0)]\<rparr>"
  by (subst recv_arp_eq) (simp_all add: new_network_interface_def OPCODE_REPLY_def OPCODE_REQUEST_def)

theorem datagram_reaches_neighbour_witness:
  "\<exists>fr. send_datagram (snd (recv_arp example_interface example_msg)) example_datagram 0x0a000002 =
      (Inr (), (snd (recv_arp example_interface example_msg))\<lparr>frames_out := frames_out (snd (recv_arp example_interface example_msg)) @ [fr]\<rparr>) \<and>
    recv_frame example_peer (on_wire fr) =
      (Inr (Some \<lparr>ip_header = (ip_header example_datagram)\<lparr>ip_cksum := ip_header_checksum (ip_header example_datagram)\<rparr>,
                  ip_payload = [bl_concatenate (ip_payload example_datagram)]\<rparr>), example_peer)"
proof (rule datagram_reaches_neighbour [where t = 0])
  show "ni_inv (snd (recv_arp example_interface example_msg))"
    by (rule ni_inv_recv_arp [OF example_invs(1)]) simp
  show "ethernet_addr_cache (snd (recv_arp example_interface example_msg)) 0x0a000002 = Some (ni_ethernet_address example_peer, 0)"
    unfolding example_recv_arp by (simp add: new_network_interface_def)
  show "ipv4_datagram_valid example_datagram"
    by (simp add: ipv4_datagram_valid_def ipv4_header_valid_def new_ipv4_header_def bl_concatenate_eq)
qed (rule example_invs(2))

lemma example_request_due:
  "ni_ip_address example_peer = 0x0a000002" "ethernet_addr_cache example_interface 0x0a000002 = None"
  "request_due example_interface 0x0a000002"
  by (simp_all add: new_network_interface_def request_due_def)

theorem arp_exchange_delivers_witness:
  "(let A1 = snd (send_datagram example_interface example_datagram 0x0a000002);
        B1 = snd (recv_frame example_peer (on_wire (last (frames_out A1))));
        A2 = snd (recv_frame A1 (on_wire (last (frames_out B1))))
    in last (frames_out A2) = datagram_frame example_interface (ni_ethernet_address example_peer) example_datagram)"
  using arp_exchange_delivers [OF example_invs example_request_due example_sendable] unfolding Let_def by blast

theorem no_arp_flood_witness:
  "(let s = foldl ni_exec (snd (send_datagram example_interface example_datagram 0x0a000002)) [Ni_Tick 4000, Ni_Pop]
    in send_datagram s example_datagram 0x0a000002 =
         (Inr (), s\<lparr>queueing_IP_datagrams := queueing_IP_datagrams s @ [(example_datagram, 0x0a000002)]\<rparr>))"
  unfolding Let_def
proof (rule no_arp_flood [where t = 0])
  show "ni_inv (snd (send_datagram example_interface example_datagram 0x0a000002))"
    using example_invs(1) example_sendable by (rule ni_inv_send)
  show "arp_timer (snd (send_datagram example_interface example_datagram 0x0a000002)) 0x0a000002 = Some 0"
    by (simp add: send_uncached new_network_interface_def request_due_def)
qed (simp_all add: ni_fair_def quiet_def op_time_def)

theorem learnt_address_lifetime_witness:
  "map_option fst (ethernet_addr_cache (foldl ni_exec (snd (recv_arp example_interface example_msg)) [Ni_Tick 29000, Ni_Tick 2000])
     (sender_ip_address example_msg)) = None"
  using learnt_address_lifetime [of example_interface example_msg "[Ni_Tick 29000, Ni_Tick 2000]"] example_invs(1)
  by (simp add: ni_fair_def quiet_def op_time_def)

end
