(* ===== verification/TCP_Adapters.thy ===== *)
theory TCP_Adapters
  imports Network_Interface
begin

text \<open>
  The adapters that carry TCP segments: \<open>FdAdapterBase\<close>, \<open>TCPOverUDPSocketAdapter\<close>
  (src/libsponge/tcp_helpers/fd_adapter.hh and .cc), \<open>TCPOverIPv4Adapter\<close> (tcp_over_ip.hh and .cc),
  the TUN and TAP adapters (tuntap_adapter.hh and .cc) and \<open>LossyFdAdapter\<close>
  (lossy_fd_adapter.hh).  Reading and writing the device are an argument and a result: the bytes
  that the device returns and the buffers that are written to it.
\<close>

section \<open>Configuration and base class\<close>

text \<open>An IPv4 socket address.\<close>

record address =
  a_ip :: u32
  a_port :: u16

record fd_adapter_config =
  source :: address
  destination :: address
  loss_rate_dn :: u16
  loss_rate_up :: u16

definition new_fd_adapter_config :: fd_adapter_config where
  "new_fd_adapter_config =
     \<lparr>source = \<lparr>a_ip = 0, a_port = 0\<rparr>, destination = \<lparr>a_ip = 0, a_port = 0\<rparr>, loss_rate_dn = 0, loss_rate_up = 0\<rparr>"

record fd_adapter =
  ad_cfg :: fd_adapter_config
  ad_listen :: bool

definition new_fd_adapter :: fd_adapter where
  "new_fd_adapter = \<lparr>ad_cfg = new_fd_adapter_config, ad_listen = False\<rparr>"

definition set_listening :: "fd_adapter \<Rightarrow> bool \<Rightarrow> fd_adapter" where
  "set_listening a l = a\<lparr>ad_listen := l\<rparr>"

section \<open>TCP in IPv4\<close>

definition unwrap_tcp_in_ip :: "fd_adapter \<Rightarrow> ipv4_datagram \<Rightarrow> (exn + tcp_segment option) \<times> fd_adapter" where
  "unwrap_tcp_in_ip a ip_dgram =
     (let h = ip_header ip_dgram in
      if \<not> ad_listen a \<and> ip_dst h \<noteq> a_ip (source (ad_cfg a)) then (Inr None, a)
      else if \<not> ad_listen a \<and> ip_src h \<noteq> a_ip (destination (ad_cfg a)) then (Inr None, a)
      else if proto h \<noteq> PROTO_TCP then (Inr None, a)
      else case bl_to_buffer (ip_payload ip_dgram) of
        Inl ex \<Rightarrow> (Inl ex, a)
      | Inr buffer \<Rightarrow>
         (case tcp_segment_parse new_tcp_segment buffer (pseudo_cksum h) of
            (res, tcp_seg) \<Rightarrow>
              if res \<noteq> NoError then (Inr None, a)
              else if dport (seg_header tcp_seg) \<noteq> a_port (source (ad_cfg a)) then (Inr None, a)
              else if ad_listen a
              then if syn (seg_header tcp_seg) \<and> \<not> rst (seg_header tcp_seg)
                   then let cfg = (ad_cfg a)\<lparr>source := \<lparr>a_ip = ip_dst h, a_port = a_port (source (ad_cfg a))\<rparr>\<rparr>;
                            cfg = cfg\<lparr>destination := \<lparr>a_ip = ip_src h, a_port = sport (seg_header tcp_seg)\<rparr>\<rparr>;
                            a = set_listening (a\<lparr>ad_cfg := cfg\<rparr>) False
                        in if sport (seg_header tcp_seg) \<noteq> a_port (destination (ad_cfg a)) then (Inr None, a)
                           else (Inr (Some tcp_seg), a)
                   else (Inr None, a)
              else if sport (seg_header tcp_seg) \<noteq> a_port (destination (ad_cfg a)) then (Inr None, a)
              else (Inr (Some tcp_seg), a)))"

definition set_ports :: "fd_adapter_config \<Rightarrow> tcp_segment \<Rightarrow> tcp_segment" where
  "set_ports cfg seg =
     seg\<lparr>seg_header := (seg_header seg)\<lparr>sport := a_port (source cfg), dport := a_port (destination cfg)\<rparr>\<rparr>"

text \<open>The header of the datagram; its length is truncated to 16 bits.\<close>

definition wrap_header :: "fd_adapter_config \<Rightarrow> tcp_segment \<Rightarrow> ipv4_header" where
  "wrap_header cfg seg =
     (let h = new_ipv4_header\<lparr>ip_src := a_ip (source cfg), ip_dst := a_ip (destination cfg)\<rparr>
      in h\<lparr>ip_len := ucast (ucast (hlen h) * 4 + ucast (doff (seg_header seg)) * 4 + str_size (seg_payload seg) :: u64)\<rparr>)"

definition wrap_tcp_in_ip :: "fd_adapter \<Rightarrow> tcp_segment \<Rightarrow> (exn + ipv4_datagram) \<times> tcp_segment" where
  "wrap_tcp_in_ip a seg =
     (let seg = set_ports (ad_cfg a) seg;
          h = wrap_header (ad_cfg a) seg
      in case tcp_segment_serialize seg (pseudo_cksum h) of
           Inl ex \<Rightarrow> (Inl ex, seg)
         | Inr bl \<Rightarrow> (Inr \<lparr>ip_header = h, ip_payload = bl\<rparr>, seg))"

section \<open>The TUN adapter\<close>

definition tun_read :: "fd_adapter \<Rightarrow> bytes \<Rightarrow> (exn + tcp_segment option) \<times> fd_adapter" where
  "tun_read a data =
     (case ipv4_datagram_parse new_ipv4_datagram data of
        (res, ip_dgram) \<Rightarrow> if res \<noteq> NoError then (Inr None, a) else unwrap_tcp_in_ip a ip_dgram)"

definition tun_write :: "fd_adapter \<Rightarrow> tcp_segment \<Rightarrow> exn + buffer_list" where
  "tun_write a seg =
     (case wrap_tcp_in_ip a seg of
        (Inl ex, _) \<Rightarrow> Inl ex
      | (Inr ip_dgram, _) \<Rightarrow> ipv4_datagram_serialize ip_dgram)"

section \<open>The UDP adapter\<close>

text \<open>The datagram that \<open>UDPSocket::recv\<close> returns: its source address and its payload.\<close>

definition udp_read :: "fd_adapter \<Rightarrow> address \<Rightarrow> bytes \<Rightarrow> tcp_segment option \<times> fd_adapter" where
  "udp_read a source_address data =
     (if \<not> ad_listen a \<and> source_address \<noteq> destination (ad_cfg a) then (None, a)
      else case tcp_segment_parse new_tcp_segment data 0 of
        (res, seg) \<Rightarrow>
          if res \<noteq> NoError then (None, a)
          else if ad_listen a
          then if syn (seg_header seg) \<and> \<not> rst (seg_header seg)
               then (Some seg, set_listening (a\<lparr>ad_cfg := (ad_cfg a)\<lparr>destination := source_address\<rparr>\<rparr>) False)
               else (None, a)
          else (Some seg, a))"

definition udp_write :: "fd_adapter \<Rightarrow> tcp_segment \<Rightarrow> exn + (address \<times> buffer_list)" where
  "udp_write a seg =
     (case tcp_segment_serialize (set_ports (ad_cfg a) seg) 0 of
        Inl ex \<Rightarrow> Inl ex
      | Inr bl \<Rightarrow> Inr (destination (ad_cfg a), bl))"

section \<open>The TAP adapter\<close>

record eth_adapter =
  ea_base :: fd_adapter
  ea_tap :: "buffer_list list"
  ea_interface :: network_interface
  ea_next_hop :: u32

text \<open>\<open>send_pending\<close>: every queued frame is written to the device and popped.\<close>

fun send_pending_loop :: "ethernet_frame list \<Rightarrow> eth_adapter \<Rightarrow> eth_adapter" where
  "send_pending_loop [] ea = ea"
| "send_pending_loop (fr # frs) ea =
     send_pending_loop frs (ea\<lparr>ea_tap := ea_tap ea @ [ethernet_frame_serialize fr],
       ea_interface := (ea_interface ea)\<lparr>frames_out := frs\<rparr>\<rparr>)"

definition send_pending :: "eth_adapter \<Rightarrow> eth_adapter" where
  "send_pending ea = send_pending_loop (frames_out (ea_interface ea)) ea"

definition new_eth_adapter :: "ethernet_address \<Rightarrow> u32 \<Rightarrow> u32 \<Rightarrow> eth_adapter" where
  "new_eth_adapter eth_address ip_address next_hop =
     \<lparr>ea_base = new_fd_adapter, ea_tap = [ethernet_frame_serialize new_ethernet_frame],
      ea_interface = new_network_interface eth_address ip_address, ea_next_hop = next_hop\<rparr>"

definition eth_read :: "eth_adapter \<Rightarrow> bytes \<Rightarrow> (exn + tcp_segment option) \<times> eth_adapter" where
  "eth_read ea data =
     (case ethernet_frame_parse new_ethernet_frame data of
        (res, frame) \<Rightarrow>
          if res \<noteq> NoError then (Inr None, ea)
          else case recv_frame (ea_interface ea) frame of
            (Inl ex, ni) \<Rightarrow> (Inl ex, ea\<lparr>ea_interface := ni\<rparr>)
          | (Inr ip_dgram, ni) \<Rightarrow>
              let ea = send_pending (ea\<lparr>ea_interface := ni\<rparr>)
              in case ip_dgram of
                   Some dgram \<Rightarrow>
                     (case unwrap_tcp_in_ip (ea_base ea) dgram of (r, a) \<Rightarrow> (r, ea\<lparr>ea_base := a\<rparr>))
                 | None \<Rightarrow> (Inr None, ea))"

definition eth_tick :: "eth_adapter \<Rightarrow> u64 \<Rightarrow> eth_adapter" where
  "eth_tick ea ms = send_pending (ea\<lparr>ea_interface := ni_tick (ea_interface ea) ms\<rparr>)"

definition eth_write :: "eth_adapter \<Rightarrow> tcp_segment \<Rightarrow> (exn + unit) \<times> eth_adapter" where
  "eth_write ea seg =
     (case wrap_tcp_in_ip (ea_base ea) seg of
        (Inl ex, _) \<Rightarrow> (Inl ex, ea)
      | (Inr dgram, _) \<Rightarrow>
          (case send_datagram (ea_interface ea) dgram (ea_next_hop ea) of
             (Inl ex, ni) \<Rightarrow> (Inl ex, ea\<lparr>ea_interface := ni\<rparr>)
           | (Inr _, ni) \<Rightarrow> (Inr (), send_pending (ea\<lparr>ea_interface := ni\<rparr>))))"

section \<open>The lossy adapter\<close>

text \<open>
  A wrapper around any adapter; the number drawn from the random generator is an argument, and is
  not looked at when the loss rate is 0.
\<close>

definition should_drop :: "fd_adapter_config \<Rightarrow> u32 \<Rightarrow> bool \<Rightarrow> bool" where
  "should_drop cfg rnd uplink =
     (let loss = (if uplink then loss_rate_up cfg else loss_rate_dn cfg)
      in loss \<noteq> 0 \<and> (ucast rnd :: u16) < loss)"

definition lossy_read :: "('a \<Rightarrow> 'b option \<times> 'a) \<Rightarrow> ('a \<Rightarrow> fd_adapter_config) \<Rightarrow> u32 \<Rightarrow> 'a \<Rightarrow> 'b option \<times> 'a" where
  "lossy_read rd cfg rnd a =
     (let (ret, a) = rd a in if should_drop (cfg a) rnd False then (None, a) else (ret, a))"

definition lossy_write :: "('a \<Rightarrow> 'b \<Rightarrow> 'a) \<Rightarrow> ('a \<Rightarrow> fd_adapter_config) \<Rightarrow> u32 \<Rightarrow> 'a \<Rightarrow> 'b \<Rightarrow> 'a" where
  "lossy_write wr cfg rnd a seg = (if should_drop (cfg a) rnd True then a else wr a seg)"

section \<open>What an adapter carries\<close>

text \<open>
  The contract of a pair of adapters: what one end writes, the other end reads as the same segment
  (same payload, and headers that are equal for \<open>TCPHeader::operator==\<close>, which leaves out ports and
  checksum).
\<close>

definition same_tcp :: "tcp_segment \<Rightarrow> tcp_segment \<Rightarrow> bool" where
  "same_tcp s t \<longleftrightarrow> seg_payload s = seg_payload t \<and> tcp_header_eq (seg_header s) (seg_header t)"

locale segment_link =
  fixes put :: "'a \<Rightarrow> tcp_segment \<Rightarrow> exn + 'd"
    and get :: "'a \<Rightarrow> 'd \<Rightarrow> (exn + tcp_segment option) \<times> 'a"
    and linked :: "'a \<Rightarrow> 'a \<Rightarrow> bool"
    and fits :: "tcp_segment \<Rightarrow> bool"
  assumes get_put: "linked a b \<Longrightarrow> fits seg \<Longrightarrow> \<exists>d seg'. put a seg = Inr d \<and> get b d = (Inr (Some seg'), b) \<and> same_tcp seg' seg"
begin

text \<open>Every segment of a stream that is carried still is one, at the same place.\<close>

lemma genuine_carried:
  assumes "linked a b" "fits seg" "seg_genuine S isn n seg"
  shows "\<exists>d seg'. put a seg = Inr d \<and> get b d = (Inr (Some seg'), b) \<and> seg_genuine S isn n seg'"
proof -
  obtain d seg' where "put a seg = Inr d" "get b d = (Inr (Some seg'), b)" "same_tcp seg' seg"
    using get_put [OF assms(1,2)] by blast
  moreover from this have "seg_genuine S isn n seg'"
    using assms(3) by (auto simp: same_tcp_def tcp_header_eq_def seg_genuine_def wi_eq_def)
  ultimately show ?thesis by blast
qed

text \<open>A batch of segments is carried one for one, in order.\<close>

lemma batch_carried:
  assumes "linked a b" "\<forall>seg \<in> set segs. fits seg"
  shows "\<exists>ds. list_all2 (\<lambda>seg d. put a seg = Inr d \<and> (\<exists>seg'. get b d = (Inr (Some seg'), b) \<and> same_tcp seg' seg)) segs ds"
  using assms(2)
proof (induction segs)
  case (Cons seg segs)
  obtain d seg' where "put a seg = Inr d" "get b d = (Inr (Some seg'), b)" "same_tcp seg' seg"
    using get_put [OF assms(1), of seg] Cons.prems by auto
  moreover obtain ds where "list_all2 (\<lambda>seg d. put a seg = Inr d \<and> (\<exists>seg'. get b d = (Inr (Some seg'), b) \<and> same_tcp seg' seg)) segs ds"
    using Cons by auto
  ultimately show ?case by (intro exI [of _ "d # ds"]) auto
qed (auto intro: exI [of _ "[]"])

end

section \<open>TUN\<close>

definition mirrored :: "fd_adapter \<Rightarrow> fd_adapter \<Rightarrow> bool" where
  "mirrored a b \<longleftrightarrow> \<not> ad_listen b \<and> source (ad_cfg b) = destination (ad_cfg a) \<and> destination (ad_cfg b) = source (ad_cfg a)"

definition fits_ip :: "tcp_segment \<Rightarrow> bool" where
  "fits_ip seg \<longleftrightarrow> tcp_header_valid (seg_header seg) \<and> 20 + 4 * unat (doff (seg_header seg)) + length (seg_payload seg) \<le> 65535"

lemma unat_wrap_len:
  assumes "fits_ip seg"
  shows "unat (ip_len (wrap_header cfg seg)) = 20 + 4 * unat (doff (seg_header seg)) + length (seg_payload seg)"
proof -
  let ?w = "ucast (5 :: u8) * 4 + ucast (doff (seg_header seg)) * 4 + str_size (seg_payload seg) :: u64"
  have "unat ?w = 20 + 4 * unat (doff (seg_header seg)) + length (seg_payload seg)"
    using assms unat_u8_less [of "doff (seg_header seg)"]
    by (simp add: fits_ip_def unat_word_ariths unat_u64_ucast_u8 unat_str_size)
  then show ?thesis
    using assms by (simp add: wrap_header_def new_ipv4_header_def fits_ip_def unsigned_ucast_eq take_bit_eq_mod)
qed

lemma set_ports_simps [simp]:
  "seg_payload (set_ports cfg seg) = seg_payload seg" "doff (seg_header (set_ports cfg seg)) = doff (seg_header seg)"
  "sport (seg_header (set_ports cfg seg)) = a_port (source cfg)" "dport (seg_header (set_ports cfg seg)) = a_port (destination cfg)"
  "syn (seg_header (set_ports cfg seg)) = syn (seg_header seg)" "rst (seg_header (set_ports cfg seg)) = rst (seg_header seg)"
  "wrap_header c (set_ports cfg seg) = wrap_header c seg"
  by (simp_all add: set_ports_def wrap_header_def)

definition carried_seg :: "fd_adapter_config \<Rightarrow> u32 \<Rightarrow> tcp_segment \<Rightarrow> tcp_segment" where
  "carried_seg cfg dlc seg =
     (let seg = set_ports cfg seg in seg\<lparr>seg_header := (seg_header seg)\<lparr>th_cksum := seg_checksum seg dlc\<rparr>\<rparr>)"

lemma carried_seg_same: "same_tcp (carried_seg cfg dlc seg) seg"
  by (simp add: same_tcp_def carried_seg_def set_ports_def tcp_header_eq_def wi_eq_def Let_def)

lemma carried_seg_simps [simp]:
  "sport (seg_header (carried_seg cfg dlc seg)) = a_port (source cfg)"
  "dport (seg_header (carried_seg cfg dlc seg)) = a_port (destination cfg)"
  "syn (seg_header (carried_seg cfg dlc seg)) = syn (seg_header seg)"
  "rst (seg_header (carried_seg cfg dlc seg)) = rst (seg_header seg)"
  by (simp_all add: carried_seg_def set_ports_def)

text \<open>The datagram that carries a segment is valid, and its payload parses back to the segment.\<close>

lemma wrapped_datagram:
  assumes "fits_ip seg"
  obtains dg where "wrap_tcp_in_ip a seg = (Inr dg, set_ports (ad_cfg a) seg)" "ipv4_datagram_valid dg"
    "ip_header dg = wrap_header (ad_cfg a) seg"
    "\<And>seg0. tcp_segment_parse seg0 (bl_concatenate (ip_payload dg)) (pseudo_cksum (wrap_header (ad_cfg a) seg)) =
       (NoError, carried_seg (ad_cfg a) (pseudo_cksum (wrap_header (ad_cfg a) seg)) seg)"
proof -
  let ?seg = "set_ports (ad_cfg a) seg" and ?h = "wrap_header (ad_cfg a) seg"
  have d: "5 \<le> doff (seg_header ?seg)" "5 \<le> unat (doff (seg_header seg))"
    using assms by (auto simp: fits_ip_def tcp_header_valid_def word_le_nat_alt)
  have fits: "tcp_fits ?seg (pseudo_cksum ?h)"
    using assms pseudo_cksum_small [of ?h] by (simp add: tcp_fits_def fits_ip_def tcp_header_valid_def)
  obtain bl where bl: "tcp_segment_serialize ?seg (pseudo_cksum ?h) = Inr bl"
    using tcp_parse_serialize [OF fits] by blast
  then have "length (bl_concatenate bl) = 4 * unat (doff (seg_header seg)) + length (seg_payload seg)"
    using d by (auto simp: tcp_segment_serialize_eq bl_concatenate_eq length_tcp_post)
  then have "ipv4_datagram_valid \<lparr>ip_header = ?h, ip_payload = bl\<rparr>"
    using unat_wrap_len [OF assms, of "ad_cfg a"]
    by (simp add: ipv4_datagram_valid_def ipv4_header_valid_def wrap_header_def new_ipv4_header_def)
  moreover have "tcp_segment_parse seg0 (bl_concatenate bl) (pseudo_cksum ?h) =
      (NoError, carried_seg (ad_cfg a) (pseudo_cksum ?h) seg)" for seg0
    using tcp_parse_serialize [OF fits, of seg0] bl by (auto simp: carried_seg_def Let_def)
  ultimately show thesis using bl that by (simp add: wrap_tcp_in_ip_def Let_def)
qed

text \<open>The same after the datagram has crossed the network in serialised form.\<close>

lemma unwrap_wrapped:
  assumes "fits_ip seg" "mirrored a b" "wrap_tcp_in_ip a seg = (Inr dg, s)"
  shows "unwrap_tcp_in_ip b \<lparr>ip_header = (ip_header dg)\<lparr>ip_cksum := ck\<rparr>, ip_payload = [bl_concatenate (ip_payload dg)]\<rparr> =
    (Inr (Some (carried_seg (ad_cfg a) (pseudo_cksum (ip_header dg)) seg)), b)"
proof -
  obtain dg' where w: "wrap_tcp_in_ip a seg = (Inr dg', set_ports (ad_cfg a) seg)"
    "ip_header dg' = wrap_header (ad_cfg a) seg"
    "tcp_segment_parse new_tcp_segment (bl_concatenate (ip_payload dg')) (pseudo_cksum (wrap_header (ad_cfg a) seg)) =
       (NoError, carried_seg (ad_cfg a) (pseudo_cksum (wrap_header (ad_cfg a) seg)) seg)"
    using wrapped_datagram [OF assms(1), of a] by metis
  then have dg: "dg' = dg" using assms(3) by simp
  have h: "ip_src (ip_header dg) = a_ip (source (ad_cfg a))" "ip_dst (ip_header dg) = a_ip (destination (ad_cfg a))"
    "proto (ip_header dg) = PROTO_TCP"
    using w(2) by (simp_all add: dg wrap_header_def new_ipv4_header_def)
  have "pseudo_cksum ((ip_header dg)\<lparr>ip_cksum := ck\<rparr>) = pseudo_cksum (ip_header dg)"
    by (simp add: pseudo_cksum_def payload_length_def)
  then show ?thesis
    using h w(2,3) assms(2) by (simp add: unwrap_tcp_in_ip_def bl_to_buffer_def mirrored_def dg)
qed

lemma tun_read_write:
  assumes "mirrored a b" "fits_ip seg"
  shows "\<exists>bl. tun_write a seg = Inr bl \<and> tun_read b (bl_concatenate bl) =
    (Inr (Some (carried_seg (ad_cfg a) (pseudo_cksum (wrap_header (ad_cfg a) seg)) seg)), b)"
proof -
  obtain dg where dg: "wrap_tcp_in_ip a seg = (Inr dg, set_ports (ad_cfg a) seg)" "ipv4_datagram_valid dg"
    "ip_header dg = wrap_header (ad_cfg a) seg"
    using wrapped_datagram [OF assms(2), of a] by metis
  obtain bl where "ipv4_datagram_serialize dg = Inr bl"
    "ipv4_datagram_parse new_ipv4_datagram (bl_concatenate bl) =
      (NoError, \<lparr>ip_header = (ip_header dg)\<lparr>ip_cksum := ip_header_checksum (ip_header dg)\<rparr>,
                 ip_payload = [bl_concatenate (ip_payload dg)]\<rparr>)"
    using ipv4_parse_serialize [OF dg(2)] by blast
  then show ?thesis
    using unwrap_wrapped [OF assms(2,1) dg(1)] dg by (simp add: tun_write_def tun_read_def)
qed

interpretation tun_link: segment_link "\<lambda>a seg. map_sum id bl_concatenate (tun_write a seg)" tun_read mirrored fits_ip
proof
  fix a b seg assume "mirrored a b" "fits_ip seg"
  from tun_read_write [OF this] show "\<exists>d seg'. map_sum id bl_concatenate (tun_write a seg) = Inr d \<and>
      tun_read b d = (Inr (Some seg'), b) \<and> same_tcp seg' seg"
    using carried_seg_same by fastforce
qed

section \<open>UDP\<close>

text \<open>A datagram in flight between two UDP sockets: the address of the sending socket and the payload.\<close>

definition udp_send :: "fd_adapter \<Rightarrow> tcp_segment \<Rightarrow> exn + (address \<times> bytes)" where
  "udp_send a seg = map_sum id (\<lambda>(dst, bl). (source (ad_cfg a), bl_concatenate bl)) (udp_write a seg)"

definition udp_recv :: "fd_adapter \<Rightarrow> address \<times> bytes \<Rightarrow> (exn + tcp_segment option) \<times> fd_adapter" where
  "udp_recv b d = (case udp_read b (fst d) (snd d) of (seg, b) \<Rightarrow> (Inr seg, b))"

definition fits_udp :: "tcp_segment \<Rightarrow> bool" where
  "fits_udp seg \<longleftrightarrow> tcp_fits seg 0"

interpretation udp_link: segment_link udp_send udp_recv mirrored fits_udp
proof
  fix a b seg assume m: "mirrored a b" and f: "fits_udp seg"
  have "tcp_fits (set_ports (ad_cfg a) seg) 0"
    using f by (simp add: fits_udp_def tcp_fits_def tcp_header_valid_def)
  from tcp_parse_serialize [OF this, of new_tcp_segment] obtain bl where
    "tcp_segment_serialize (set_ports (ad_cfg a) seg) 0 = Inr bl"
    "tcp_segment_parse new_tcp_segment (bl_concatenate bl) 0 = (NoError, carried_seg (ad_cfg a) 0 seg)"
    by (auto simp: carried_seg_def Let_def)
  then show "\<exists>d seg'. udp_send a seg = Inr d \<and> udp_recv b d = (Inr (Some seg'), b) \<and> same_tcp seg' seg"
    using m carried_seg_same [of "ad_cfg a" 0 seg]
    by (auto simp: udp_send_def udp_write_def udp_recv_def udp_read_def mirrored_def)
qed

section \<open>Filtering\<close>

text \<open>
  C25. The IPv4 adapter passes on only segments of its own connection: when \<open>unwrap_tcp_in_ip\<close>
  returns a segment, the adapter is no longer listening, the datagram is a TCP datagram from the
  address and port of its destination to the address and port of its source, the checksum over the
  pseudo-header was right; an adapter that was listening accepted a SYN without RST and an adapter
  that was not has not changed.
\<close>

theorem unwrap_only_own_connection:
  assumes "unwrap_tcp_in_ip a dg = (Inr (Some seg), a')"
  shows "\<not> ad_listen a' \<and> proto (ip_header dg) = PROTO_TCP \<and>
    ip_src (ip_header dg) = a_ip (destination (ad_cfg a')) \<and> ip_dst (ip_header dg) = a_ip (source (ad_cfg a')) \<and>
    sport (seg_header seg) = a_port (destination (ad_cfg a')) \<and> dport (seg_header seg) = a_port (source (ad_cfg a')) \<and>
    (\<exists>b. bl_to_buffer (ip_payload dg) = Inr b \<and> ck_value (ck_add (new_checksum (pseudo_cksum (ip_header dg))) b) = 0) \<and>
    (if ad_listen a then syn (seg_header seg) \<and> \<not> rst (seg_header seg) else a' = a)"
proof -
  have "ck_value (ck_add (new_checksum d) b) = 0" if "tcp_segment_parse seg0 b d = (NoError, s)" for seg0 b d s
    using that by (auto simp: tcp_segment_parse_def Let_def split: if_splits)
  then show ?thesis
    using assms
    by (auto simp: unwrap_tcp_in_ip_def Let_def set_listening_def split: if_splits sum.splits prod.splits)
qed

text \<open>
  A listening adapter learns its peer from the first SYN: when a connection is opened from \<open>a\<close> to
  a listening adapter on the right port, reading the SYN returns it, ends listening and leaves an
  adapter that mirrors \<open>a\<close>, so that both directions work from then on.
\<close>

theorem listener_learns_peer:
  assumes "ad_listen b" "a_port (source (ad_cfg b)) = a_port (destination (ad_cfg a))"
    and "fits_ip seg" "syn (seg_header seg)" "\<not> rst (seg_header seg)"
  shows "\<exists>bl seg' b'. tun_write a seg = Inr bl \<and> tun_read b (bl_concatenate bl) = (Inr (Some seg'), b') \<and>
    same_tcp seg' seg \<and> mirrored a b'"
proof -
  let ?dlc = "pseudo_cksum (wrap_header (ad_cfg a) seg)"
  obtain dg where dg: "wrap_tcp_in_ip a seg = (Inr dg, set_ports (ad_cfg a) seg)" "ipv4_datagram_valid dg"
    "ip_header dg = wrap_header (ad_cfg a) seg"
    "tcp_segment_parse new_tcp_segment (bl_concatenate (ip_payload dg)) ?dlc = (NoError, carried_seg (ad_cfg a) ?dlc seg)"
    using wrapped_datagram [OF assms(3), of a] by metis
  obtain bl where bl: "ipv4_datagram_serialize dg = Inr bl"
    "ipv4_datagram_parse new_ipv4_datagram (bl_concatenate bl) =
      (NoError, \<lparr>ip_header = (ip_header dg)\<lparr>ip_cksum := ip_header_checksum (ip_header dg)\<rparr>,
                 ip_payload = [bl_concatenate (ip_payload dg)]\<rparr>)"
    using ipv4_parse_serialize [OF dg(2)] by blast
  let ?b = "b\<lparr>ad_cfg := (ad_cfg b)\<lparr>source := \<lparr>a_ip = a_ip (destination (ad_cfg a)), a_port = a_port (source (ad_cfg b))\<rparr>,
    destination := \<lparr>a_ip = a_ip (source (ad_cfg a)), a_port = a_port (source (ad_cfg a))\<rparr>\<rparr>, ad_listen := False\<rparr>"
  have "pseudo_cksum ((ip_header dg)\<lparr>ip_cksum := ck\<rparr>) = ?dlc" for ck
    using dg(3) by (simp add: pseudo_cksum_def payload_length_def)
  moreover have "ip_src (wrap_header (ad_cfg a) seg) = a_ip (source (ad_cfg a))"
    "ip_dst (wrap_header (ad_cfg a) seg) = a_ip (destination (ad_cfg a))" "proto (wrap_header (ad_cfg a) seg) = PROTO_TCP"
    by (simp_all add: wrap_header_def new_ipv4_header_def)
  ultimately have "tun_read b (bl_concatenate bl) = (Inr (Some (carried_seg (ad_cfg a) ?dlc seg)), ?b)"
    using assms bl dg by (simp add: tun_read_def unwrap_tcp_in_ip_def bl_to_buffer_def set_listening_def Let_def)
  moreover have "mirrored a ?b" using assms(2) by (simp add: mirrored_def)
  moreover have "tun_write a seg = Inr bl" using dg(1) bl(1) by (simp add: tun_write_def)
  ultimately show ?thesis using carried_seg_same by blast
qed

section \<open>TAP\<close>

lemma send_pending_loop_eq:
  "send_pending_loop frs ea =
     (if frs = [] then ea
      else ea\<lparr>ea_tap := ea_tap ea @ map ethernet_frame_serialize frs, ea_interface := (ea_interface ea)\<lparr>frames_out := []\<rparr>\<rparr>)"
  by (induction frs arbitrary: ea) auto

lemma send_pending_eq:
  "send_pending ea = ea\<lparr>ea_tap := ea_tap ea @ map ethernet_frame_serialize (frames_out (ea_interface ea)),
     ea_interface := (ea_interface ea)\<lparr>frames_out := []\<rparr>\<rparr>"
  by (simp add: send_pending_def send_pending_loop_eq)

text \<open>
  What happens to a segment on its way: \<open>a\<close> wraps it, the interface \<open>ni\<close> puts it into one frame, and
  at the peer the bytes of the frame are parsed, received and unwrapped by \<open>b\<close>.
\<close>

lemma segment_frame:
  assumes "ni_inv ni" "ni_inv peer" "ethernet_addr_cache ni hop = Some (ni_ethernet_address peer, t)"
    and "mirrored a b" "fits_ip seg"
  obtains dg s fr fr' dg' seg' where "wrap_tcp_in_ip a seg = (Inr dg, s)" "send_datagram ni dg hop = (Inr (), push_frame ni fr)"
    "ethernet_frame_parse new_ethernet_frame (bl_concatenate (ethernet_frame_serialize fr)) = (NoError, fr')"
    "recv_frame peer fr' = (Inr (Some dg'), peer)" "unwrap_tcp_in_ip b dg' = (Inr (Some seg'), b)" "same_tcp seg' seg"
    "length (concat (fr_payload fr)) < 65536" "length (eth_dst (fr_header fr)) = 6" "length (eth_src (fr_header fr)) = 6"
proof -
  obtain dg where dg: "wrap_tcp_in_ip a seg = (Inr dg, set_ports (ad_cfg a) seg)" "ipv4_datagram_valid dg"
    using wrapped_datagram [OF assms(5), of a] by metis
  let ?fr = "datagram_frame ni (ni_ethernet_address peer) dg"
  let ?dg' = "\<lparr>ip_header = (ip_header dg)\<lparr>ip_cksum := ip_header_checksum (ip_header dg)\<rparr>,
    ip_payload = [bl_concatenate (ip_payload dg)]\<rparr>"
  have len: "length (ni_ethernet_address ni) = 6" "length (ni_ethernet_address peer) = 6"
    using ni_invD(1) assms(1,2) by blast+
  note small = datagram_frame_length [OF dg(2), of ni "ni_ethernet_address peer"]
  have "ethernet_frame_parse new_ethernet_frame (bl_concatenate (ethernet_frame_serialize ?fr)) = (NoError, on_wire ?fr)"
    using ethernet_parse_serialize [of ?fr] small frame_valid(2) [OF len] by (simp add: on_wire_def bl_concatenate_eq)
  moreover have "send_datagram ni dg hop = (Inr (), push_frame ni ?fr)"
    by (rule send_cached [OF assms(3) valid_sendable [OF dg(2)]])
  moreover have "recv_frame peer (on_wire ?fr) = (Inr (Some ?dg'), peer)" by (rule recv_datagram_frame [OF dg(2) len])
  moreover have "unwrap_tcp_in_ip b ?dg' = (Inr (Some (carried_seg (ad_cfg a) (pseudo_cksum (ip_header dg)) seg)), b)"
    by (rule unwrap_wrapped [OF assms(5,4) dg(1)])
  moreover have "length (eth_dst (fr_header ?fr)) = 6" "length (eth_src (fr_header ?fr)) = 6"
    using frame_valid(2) [OF len] by (simp_all add: ethernet_header_valid_def)
  ultimately show thesis using that dg(1) carried_seg_same small by blast
qed

text \<open>
  C24. A segment crosses the whole stack: written to the TAP adapter of a host that knows the Ethernet
  address of its peer, it becomes exactly one frame on the device (TCP in IPv4 in Ethernet, with
  both checksums), and the adapter of the peer that reads the bytes of that frame returns the same
  segment; apart from that the peer only flushes the frames it had pending.
\<close>

theorem segment_crosses_stack:
  assumes "ni_inv (ea_interface A)" "ni_inv (ea_interface B)" "frames_out (ea_interface A) = []"
    and "ethernet_addr_cache (ea_interface A) (ea_next_hop A) = Some (ni_ethernet_address (ea_interface B), t)"
    and "mirrored (ea_base A) (ea_base B)" "fits_ip seg"
  shows "\<exists>fr seg'. eth_write A seg = (Inr (), A\<lparr>ea_tap := ea_tap A @ [fr]\<rparr>) \<and>
    eth_read B (bl_concatenate fr) = (Inr (Some seg'), send_pending B) \<and> same_tcp seg' seg"
proof -
  obtain dg s fr fr' dg' seg' where f: "wrap_tcp_in_ip (ea_base A) seg = (Inr dg, s)"
    "send_datagram (ea_interface A) dg (ea_next_hop A) = (Inr (), push_frame (ea_interface A) fr)"
    "ethernet_frame_parse new_ethernet_frame (bl_concatenate (ethernet_frame_serialize fr)) = (NoError, fr')"
    "recv_frame (ea_interface B) fr' = (Inr (Some dg'), ea_interface B)"
    "unwrap_tcp_in_ip (ea_base B) dg' = (Inr (Some seg'), ea_base B)" "same_tcp seg' seg"
    using segment_frame [OF assms(1,2,4-6)] by metis
  have "eth_write A seg = (Inr (), A\<lparr>ea_tap := ea_tap A @ [ethernet_frame_serialize fr]\<rparr>)"
    using f(1,2) assms(3) by (simp add: eth_write_def send_pending_eq push_frame_def)
  moreover have "eth_read B (bl_concatenate (ethernet_frame_serialize fr)) = (Inr (Some seg'), send_pending B)"
    using f(3-5) by (simp add: eth_read_def send_pending_eq)
  ultimately show ?thesis using f(6) by blast
qed

section \<open>Loss\<close>

text \<open>
  The lossy adapter only loses: a read returns nothing or exactly what the adapter below
  returned, a write does nothing or exactly what the adapter below does, and with a loss rate of 0
  it is the adapter below.
\<close>

lemma lossy_only_loses:
  "fst (lossy_read rd cfg rnd a) \<in> {None, fst (rd a)} \<and> snd (lossy_read rd cfg rnd a) = snd (rd a) \<and>
   lossy_write wr cfg rnd a seg \<in> {a, wr a seg} \<and>
   (loss_rate_dn (cfg (snd (rd a))) = 0 \<longrightarrow> lossy_read rd cfg rnd a = rd a) \<and>
   (loss_rate_up (cfg a) = 0 \<longrightarrow> lossy_write wr cfg rnd a seg = wr a seg)"
  by (simp add: lossy_read_def lossy_write_def should_drop_def split_beta)

section \<open>Examples\<close>

abbreviation example_adapter :: fd_adapter where
  "example_adapter \<equiv> \<lparr>ad_cfg = new_fd_adapter_config\<lparr>source := \<lparr>a_ip = 0x0a000001, a_port = 1000\<rparr>,
     destination := \<lparr>a_ip = 0x0a000002, a_port = 80\<rparr>\<rparr>, ad_listen = False\<rparr>"

abbreviation example_server :: fd_adapter where
  "example_server \<equiv> \<lparr>ad_cfg = new_fd_adapter_config\<lparr>source := \<lparr>a_ip = 0x0a000002, a_port = 80\<rparr>,
     destination := \<lparr>a_ip = 0x0a000001, a_port = 1000\<rparr>\<rparr>, ad_listen = False\<rparr>"

abbreviation example_listener :: fd_adapter where
  "example_listener \<equiv> \<lparr>ad_cfg = new_fd_adapter_config\<lparr>source := \<lparr>a_ip = 0, a_port = 80\<rparr>\<rparr>, ad_listen = True\<rparr>"

abbreviation opening_segment :: tcp_segment where
  "opening_segment \<equiv> new_tcp_segment\<lparr>seg_header := new_tcp_header\<lparr>syn := True\<rparr>\<rparr>"

lemma opening_fits: "fits_ip opening_segment"
  by (simp add: fits_ip_def tcp_header_valid_def new_tcp_segment_def new_tcp_header_def)

theorem unwrap_only_own_connection_witness:
  "\<exists>bl dg seg. tun_write example_adapter opening_segment = Inr bl \<and>
     ipv4_datagram_parse new_ipv4_datagram (bl_concatenate bl) = (NoError, dg) \<and>
     unwrap_tcp_in_ip example_server dg = (Inr (Some seg), example_server) \<and> dport (seg_header seg) = 80"
proof -
  have m: "mirrored example_adapter example_server" by (simp add: mirrored_def)
  obtain bl where bl: "tun_write example_adapter opening_segment = Inr bl"
    "\<exists>seg. tun_read example_server (bl_concatenate bl) = (Inr (Some seg), example_server)"
    using tun_read_write [OF m opening_fits] by blast
  then obtain seg dg where "ipv4_datagram_parse new_ipv4_datagram (bl_concatenate bl) = (NoError, dg)"
    "unwrap_tcp_in_ip example_server dg = (Inr (Some seg), example_server)"
    by (auto simp: tun_read_def split: prod.splits if_splits)
  moreover from unwrap_only_own_connection [OF this(2)] have "dport (seg_header seg) = 80" by simp
  ultimately show ?thesis using bl(1) by blast
qed

theorem listener_learns_peer_witness:
  "\<exists>bl seg' b'. tun_write example_adapter opening_segment = Inr bl \<and>
    tun_read example_listener (bl_concatenate bl) = (Inr (Some seg'), b') \<and>
    same_tcp seg' opening_segment \<and> mirrored example_adapter b'"
  by (rule listener_learns_peer [OF _ _ opening_fits]) (simp_all add: new_tcp_header_def)

abbreviation example_tap :: eth_adapter where
  "example_tap \<equiv> \<lparr>ea_base = example_adapter, ea_tap = [],
     ea_interface = example_interface\<lparr>ethernet_addr_cache := [0x0a000002 \<mapsto> ([2, 0, 0, 0, 0, 2], 0)]\<rparr>, ea_next_hop = 0x0a000002\<rparr>"

abbreviation example_tap_peer :: eth_adapter where
  "example_tap_peer \<equiv> \<lparr>ea_base = example_server, ea_tap = [], ea_interface = example_peer, ea_next_hop = 0x0a000001\<rparr>"

theorem segment_crosses_stack_witness:
  "\<exists>fr seg'. eth_write example_tap opening_segment = (Inr (), example_tap\<lparr>ea_tap := ea_tap example_tap @ [fr]\<rparr>) \<and>
    eth_read example_tap_peer (bl_concatenate fr) = (Inr (Some seg'), send_pending example_tap_peer) \<and>
    same_tcp seg' opening_segment"
proof (rule segment_crosses_stack [where t = 0])
  show "ni_inv (ea_interface example_tap)"
    by (simp add: ni_inv_def new_network_interface_def CACHE_VALID_TIME_def)
  show "ni_inv (ea_interface example_tap_peer)" using example_invs(2) by simp
qed (simp_all add: opening_fits mirrored_def new_network_interface_def)

end
