(* ===== verification/Sockets.thy ===== *)
theory Sockets
  imports TCP_Adapters File_Descriptor
begin

text \<open>
  \<open>Address\<close> (src/libsponge/util/address.hh and .cc) and the sockets of
  src/libsponge/util/socket.hh and .cc.  An \<open>Address\<close> is the raw bytes of a \<open>sockaddr_storage\<close>
  (little-endian \<open>ss_family\<close>, as on the platforms the program is built for) and a size; the
  resolver and the system calls are arguments.
\<close>

unbundle bit_operations_syntax

section \<open>Addresses\<close>

record sock_address =
  sa_size :: u32
  sa_storage :: bytes

abbreviation sizeof_storage :: nat where "sizeof_storage \<equiv> 128"
abbreviation sizeof_sockaddr_in :: u32 where "sizeof_sockaddr_in \<equiv> 16"
abbreviation AF_INET :: u16 where "AF_INET \<equiv> 2"

text \<open>\<open>addr\<close> holds at least \<open>size\<close> bytes; the rest of the storage is zero.\<close>

definition address_of_raw :: "bytes \<Rightarrow> u64 \<Rightarrow> exn + sock_address" where
  "address_of_raw addr sz =
     (if of_nat sizeof_storage < sz then Inl (Runtime_Error ''invalid sockaddr size'')
      else Inr \<lparr>sa_size = ucast sz, sa_storage = take (unat sz) addr @ replicate (sizeof_storage - unat sz) 0\<rparr>)"

text \<open>The answer of \<open>getaddrinfo(3)\<close>: an error number, or the entries with their length.\<close>

definition resolve_address :: "string \<Rightarrow> string \<Rightarrow> (bytes \<times> u64) list reply \<Rightarrow> exn + sock_address" where
  "resolve_address node service r =
     (case r of
        Sys_Err e \<Rightarrow> Inl (Unix_Error (''getaddrinfo('' @ node @ '', '' @ service @ '')'') e)
      | Sys_Ok [] \<Rightarrow> Inl (Runtime_Error ''getaddrinfo returned successfully but with no results'')
      | Sys_Ok ((addr, len) # _) \<Rightarrow> address_of_raw addr len)"

definition address_to_string :: "(string \<times> u16) reply \<Rightarrow> exn + string" where
  "address_to_string r =
     (case r of
        Sys_Err e \<Rightarrow> Inl (Unix_Error ''getnameinfo'' e)
      | Sys_Ok (ip, port) \<Rightarrow> Inr (ip @ '':'' @ show_dec (unat port)))"

definition ss_family :: "sock_address \<Rightarrow> u16" where
  "ss_family a = ucast (sa_storage a ! 0) + push_bit 8 (ucast (sa_storage a ! 1))"

text \<open>\<open>sin_addr\<close> is at offset 4, in network byte order.\<close>

definition ipv4_numeric :: "sock_address \<Rightarrow> exn + u32" where
  "ipv4_numeric a =
     (if ss_family a \<noteq> AF_INET \<or> sa_size a \<noteq> sizeof_sockaddr_in
      then Inl (Runtime_Error ''ipv4_numeric called on non-IPV4 address'')
      else Inr (be_int (take 4 (drop 4 (sa_storage a)))))"

definition from_ipv4_numeric :: "u32 \<Rightarrow> exn + sock_address" where
  "from_ipv4_numeric ip_address =
     address_of_raw ([2, 0] @ [0, 0] @ be_bytes ip_address @ replicate 8 0) 16"

definition address_eq :: "sock_address \<Rightarrow> sock_address \<Rightarrow> bool" where
  "address_eq a b \<longleftrightarrow>
     sa_size a = sa_size b \<and> take (unat (sa_size a)) (sa_storage a) = take (unat (sa_size a)) (sa_storage b)"

lemma from_ipv4_numeric_eq:
  "from_ipv4_numeric n = Inr \<lparr>sa_size = 16, sa_storage = [2, 0, 0, 0] @ be_bytes n @ replicate 120 0\<rparr>"
  using replicate_add [of 8 112 "0 :: u8"]
  by (simp add: from_ipv4_numeric_def address_of_raw_def word_less_nat_alt)

lemma ipv4_numeric_from:
  assumes "from_ipv4_numeric n = Inr a"
  shows "ipv4_numeric a = Inr n"
  using assms by (auto simp: from_ipv4_numeric_eq ipv4_numeric_def ss_family_def be_int_be_bytes [where n = 4])

lemma from_ipv4_numeric_address_eq:
  assumes "from_ipv4_numeric m = Inr a" "from_ipv4_numeric n = Inr b"
  shows "address_eq a b \<longleftrightarrow> m = n"
proof -
  have "be_int (be_bytes m) = m" "be_int (be_bytes n) = n" by (simp_all add: be_int_be_bytes [where n = 4])
  then have "be_bytes m = be_bytes n \<longleftrightarrow> m = n" by metis
  then show ?thesis using assms by (auto simp: from_ipv4_numeric_eq address_eq_def)
qed

section \<open>Sockets\<close>

definition new_socket :: "nat reply \<Rightarrow> exn + file_descriptor" where
  "new_socket r =
     (case system_call ''socket'' (ret_of r) (errno_of r) 0 of
        Inl ex \<Rightarrow> Inl ex
      | Inr fd \<Rightarrow> new_file_descriptor fd)"

text \<open>The two answers of \<open>getsockopt(2)\<close>: the length written and the value.\<close>

definition check_option :: "nat reply \<Rightarrow> u32 \<times> int \<Rightarrow> int \<Rightarrow> string \<Rightarrow> exn + unit" where
  "check_option r answer expected what =
     (case system_call ''getsockopt'' (ret_of r) (errno_of r) 0 of
        Inl ex \<Rightarrow> Inl ex
      | Inr _ \<Rightarrow> if fst answer \<noteq> 4 \<or> snd answer \<noteq> expected then Inl (Runtime_Error what) else Inr ())"

definition socket_of_fd :: "file_descriptor \<Rightarrow> int \<Rightarrow> int \<Rightarrow> nat reply \<times> u32 \<times> int \<Rightarrow> nat reply \<times> u32 \<times> int
    \<Rightarrow> exn + file_descriptor" where
  "socket_of_fd fd domain_value type_value d t =
     (case check_option (fst d) (snd d) domain_value ''socket domain mismatch'' of
        Inl ex \<Rightarrow> Inl ex
      | Inr _ \<Rightarrow>
          case check_option (fst t) (snd t) type_value ''socket type mismatch'' of
            Inl ex \<Rightarrow> Inl ex
          | Inr _ \<Rightarrow> Inr fd)"

definition get_address :: "string \<Rightarrow> nat reply \<Rightarrow> bytes \<Rightarrow> u32 \<Rightarrow> exn + sock_address" where
  "get_address name_of_function r addr sz =
     (case system_call name_of_function (ret_of r) (errno_of r) 0 of
        Inl ex \<Rightarrow> Inl ex
      | Inr _ \<Rightarrow> address_of_raw addr (ucast sz))"

definition local_address :: "nat reply \<Rightarrow> bytes \<Rightarrow> u32 \<Rightarrow> exn + sock_address" where
  "local_address r addr sz = get_address ''getsockname'' r addr sz"

definition peer_address :: "nat reply \<Rightarrow> bytes \<Rightarrow> u32 \<Rightarrow> exn + sock_address" where
  "peer_address r addr sz = get_address ''getpeername'' r addr sz"

text \<open>The wrappers around calls of which only success or failure is looked at.\<close>

definition checked_call :: "string \<Rightarrow> nat reply \<Rightarrow> exn + unit" where
  "checked_call attempt r = map_sum (\<lambda>ex. ex) (\<lambda>_. ()) (system_call attempt (ret_of r) (errno_of r) 0)"

definition sock_bind :: "nat reply \<Rightarrow> exn + unit" where "sock_bind r = checked_call ''bind'' r"
definition sock_connect :: "nat reply \<Rightarrow> exn + unit" where "sock_connect r = checked_call ''connect'' r"
definition sock_listen :: "nat reply \<Rightarrow> exn + unit" where "sock_listen r = checked_call ''listen'' r"
definition set_reuseaddr :: "nat reply \<Rightarrow> exn + unit" where "set_reuseaddr r = checked_call ''setsockopt'' r"

text \<open>\<open>SHUT_RD\<close>, \<open>SHUT_WR\<close> and \<open>SHUT_RDWR\<close> are 0, 1 and 2.\<close>

definition sock_shutdown :: "file_descriptor \<Rightarrow> int \<Rightarrow> nat reply \<Rightarrow> (exn + unit) \<times> file_descriptor" where
  "sock_shutdown fd how r =
     (case system_call ''shutdown'' (ret_of r) (errno_of r) 0 of
        Inl ex \<Rightarrow> (Inl ex, fd)
      | Inr _ \<Rightarrow>
          if how = 0 then (Inr (), register_read fd)
          else if how = 1 then (Inr (), register_write fd)
          else if how = 2 then (Inr (), register_write (register_read fd))
          else (Inl (Runtime_Error ''Socket::shutdown() called with invalid `how`''), fd))"

text \<open>
  The answer of \<open>recvfrom(2)\<close> is the whole datagram with its sender; because of \<open>MSG_TRUNC\<close> its
  length is returned even when the buffer of \<open>mtu\<close> bytes is shorter.
\<close>

definition udp_recvfrom :: "file_descriptor \<Rightarrow> u64 \<Rightarrow> ((bytes \<times> u32) \<times> bytes) reply
    \<Rightarrow> (exn + sock_address \<times> bytes) \<times> file_descriptor" where
  "udp_recvfrom fd mtu r =
     (case r of
        Sys_Err e \<Rightarrow>
          (case system_call ''recvfrom'' (- 1) e 0 of
             Inl ex \<Rightarrow> (Inl ex, fd)
           | Inr _ \<Rightarrow> (Inl (Length_Error ''basic_string::resize''), register_read fd))
      | Sys_Ok ((addr, fromlen), datagram) \<Rightarrow>
          if sint mtu < int (length datagram) then (Inl (Runtime_Error ''recvfrom (oversized datagram)''), fd)
          else case address_of_raw addr (ucast fromlen) of
                 Inl ex \<Rightarrow> (Inl ex, register_read fd)
               | Inr source_address \<Rightarrow> (Inr (source_address, datagram), register_read fd))"

definition sendmsg_helper :: "buffer_view_list \<Rightarrow> nat reply \<Rightarrow> exn + unit" where
  "sendmsg_helper payload r =
     (case system_call ''sendmsg'' (ret_of r) (errno_of r) 0 of
        Inl ex \<Rightarrow> Inl ex
      | Inr bytes_sent \<Rightarrow>
          if (of_int bytes_sent :: u64) \<noteq> bvl_size payload
          then Inl (Runtime_Error ''datagram payload too big for sendmsg()'') else Inr ())"

definition udp_sendto :: "file_descriptor \<Rightarrow> buffer_view_list \<Rightarrow> nat reply \<Rightarrow> (exn + unit) \<times> file_descriptor" where
  "udp_sendto fd payload r =
     (case sendmsg_helper payload r of
        Inl ex \<Rightarrow> (Inl ex, fd)
      | Inr _ \<Rightarrow> (Inr (), register_write fd))"

text \<open>Without a destination; the kernel sends to the connected address.\<close>

definition udp_socket_send :: "file_descriptor \<Rightarrow> buffer_view_list \<Rightarrow> nat reply \<Rightarrow> (exn + unit) \<times> file_descriptor" where
  "udp_socket_send fd payload r =
     (case sendmsg_helper payload r of
        Inl ex \<Rightarrow> (Inl ex, fd)
      | Inr _ \<Rightarrow> (Inr (), register_write fd))"

text \<open>\<open>AF_INET\<close> and \<open>SOCK_STREAM\<close> are 2 and 1.\<close>

definition tcp_accept :: "file_descriptor \<Rightarrow> nat reply \<Rightarrow> nat reply \<times> u32 \<times> int \<Rightarrow> nat reply \<times> u32 \<times> int
    \<Rightarrow> (exn + file_descriptor) \<times> file_descriptor" where
  "tcp_accept fd r d t =
     (let fd = register_read fd
      in case system_call ''accept'' (ret_of r) (errno_of r) 0 of
           Inl ex \<Rightarrow> (Inl ex, fd)
         | Inr n \<Rightarrow>
             (case new_file_descriptor n of Inl ex \<Rightarrow> Inl ex | Inr accepted \<Rightarrow> socket_of_fd accepted 2 1 d t, fd))"

text \<open>
  Numeric addresses round-trip: an \<open>Address\<close> made from an IPv4 number always exists, gives that
  number back, and two of them compare equal exactly when the numbers are equal.
\<close>

theorem address_numeric_roundtrip:
  "\<exists>a b. from_ipv4_numeric m = Inr a \<and> from_ipv4_numeric n = Inr b \<and>
     ipv4_numeric a = Inr m \<and> ipv4_numeric b = Inr n \<and> (address_eq a b \<longleftrightarrow> m = n)"
proof -
  obtain a b where ab: "from_ipv4_numeric m = Inr a" "from_ipv4_numeric n = Inr b"
    by (simp add: from_ipv4_numeric_eq)
  then show ?thesis using ipv4_numeric_from from_ipv4_numeric_address_eq [OF ab] by blast
qed

text \<open>What a received datagram is: no longer than the buffer, and never cut off.\<close>

lemma udp_recvfrom_ok:
  assumes "udp_recvfrom fd mtu r = (Inr (a, dg), fd')"
  shows "\<exists>src. r = Sys_Ok (src, dg)" "int (length dg) \<le> sint mtu" "fd' = register_read fd"
  using assms
  by (auto simp: udp_recvfrom_def system_call_def split: reply.splits prod.splits if_splits sum.splits)

section \<open>TUN and TAP devices\<close>

text \<open>
  \<open>TunTapFD\<close> (src/libsponge/util/tun.hh and .cc).  The request of the \<open>ioctl(2)\<close>: \<open>IFF_TUN\<close>,
  \<open>IFF_TAP\<close> and \<open>IFF_NO_PI\<close> are 1, 2 and 0x1000, and \<open>IFNAMSIZ\<close> is 16.
\<close>

record ifreq =
  ifr_flags :: u16
  ifr_name :: string

abbreviation IFNAMSIZ :: nat where "IFNAMSIZ \<equiv> 16"

text \<open>\<open>strncpy\<close> into a zeroed array: up to the terminating zero of the source, filled up with zeros.\<close>

definition strncpy :: "string \<Rightarrow> nat \<Rightarrow> string" where
  "strncpy s n = (let t = take n (takeWhile (\<lambda>c. c \<noteq> CHR 0x00) s) in t @ replicate (n - length t) (CHR 0x00))"

definition tun_request :: "string \<Rightarrow> bool \<Rightarrow> ifreq" where
  "tun_request devname is_tun =
     \<lparr>ifr_flags = (if is_tun then 0x0001 else 0x0002) OR 0x1000,
      ifr_name = strncpy devname (IFNAMSIZ - 1) @ [CHR 0x00]\<rparr>"

definition open_tun_tap :: "string \<Rightarrow> bool \<Rightarrow> nat reply \<Rightarrow> (ifreq \<Rightarrow> nat reply) \<Rightarrow> exn + file_descriptor" where
  "open_tun_tap devname is_tun opened ioctl =
     (case system_call ''open'' (ret_of opened) (errno_of opened) 0 of
        Inl ex \<Rightarrow> Inl ex
      | Inr n \<Rightarrow>
          (case new_file_descriptor n of
             Inl ex \<Rightarrow> Inl ex
           | Inr fd \<Rightarrow>
               (case checked_call ''ioctl'' (ioctl (tun_request devname is_tun)) of
                  Inl ex \<Rightarrow> Inl ex
                | Inr _ \<Rightarrow> Inr fd)))"

text \<open>The name handed to the kernel fills the array, ends with a zero and is the device's, cut to 15 characters.\<close>

lemma tun_request_name:
  assumes "CHR 0x00 \<notin> set devname"
  shows "length (ifr_name (tun_request devname is_tun)) = IFNAMSIZ"
    and "takeWhile (\<lambda>c. c \<noteq> CHR 0x00) (ifr_name (tun_request devname is_tun)) = take 15 devname"
proof -
  have t: "takeWhile (\<lambda>c. c \<noteq> CHR 0x00) devname = devname" using assms by (auto simp: takeWhile_eq_all_conv)
  show "length (ifr_name (tun_request devname is_tun)) = IFNAMSIZ"
    by (simp add: tun_request_def strncpy_def Let_def t)
  have "takeWhile (\<lambda>c. c \<noteq> CHR 0x00) (take 15 devname @ replicate k (CHR 0x00) @ [CHR 0x00]) = take 15 devname" for k
    using assms by (subst takeWhile_append2) (auto dest: in_set_takeD simp: takeWhile_replicate takeWhile_append)
  then show "takeWhile (\<lambda>c. c \<noteq> CHR 0x00) (ifr_name (tun_request devname is_tun)) = take 15 devname"
    by (simp add: tun_request_def strncpy_def Let_def t)
qed

end
