(* ===== verification/Command_Line.thy ===== *)
theory Command_Line
  imports TCP_Adapters
begin

text \<open>
  The command lines of the applications: the functions of the C library they use
  (\<open>strncmp\<close>, \<open>strtol\<close>), and \<open>get_config\<close> of src/apps/tcp_udp.cc, src/apps/tcp_ipv4.cc and
  src/apps/tcp_ip_ethernet.cc.  The arguments from index \<open>curr\<close> on are a list, so that
  \<open>argc - curr > 2\<close> says that it has three elements at least.  The address resolver and the
  conversion of a loss rate from a floating point number are arguments of the functions.
\<close>

section \<open>The C library\<close>

text \<open>\<open>strncmp(a, b, n) == 0\<close> for C strings: the terminating zero is compared too.\<close>

definition strncmp_eq :: "string \<Rightarrow> string \<Rightarrow> nat \<Rightarrow> bool" where
  "strncmp_eq a b n \<longleftrightarrow> take n (a @ [CHR 0x00]) = take n (b @ [CHR 0x00])"

definition isspace :: "char \<Rightarrow> bool" where
  "isspace c \<longleftrightarrow> c = CHR '' '' \<or> (9 \<le> (of_char c :: nat) \<and> (of_char c :: nat) \<le> 13)"

definition alnum_val :: "char \<Rightarrow> nat" where
  "alnum_val c = (let n = (of_char c :: nat) in
     if 48 \<le> n \<and> n \<le> 57 then n - 48 else if 97 \<le> n \<and> n \<le> 122 then n - 87
     else if 65 \<le> n \<and> n \<le> 90 then n - 55 else 36)"

fun scan_digits :: "nat \<Rightarrow> nat \<Rightarrow> string \<Rightarrow> nat" where
  "scan_digits base acc [] = acc"
| "scan_digits base acc (c # cs) = (if alnum_val c < base then scan_digits base (acc * base + alnum_val c) cs else acc)"

text \<open>Base 0: \<open>0x\<close> before a hexadecimal digit, or \<open>0\<close>, selects the base.\<close>

definition scan_number :: "string \<Rightarrow> nat" where
  "scan_number s =
     (case s of
        z # x # d # ds \<Rightarrow>
          if z = CHR ''0'' \<and> (x = CHR ''x'' \<or> x = CHR ''X'') \<and> alnum_val d < 16 then scan_digits 16 0 (d # ds)
          else scan_digits (if z = CHR ''0'' then 8 else 10) 0 s
      | z # _ \<Rightarrow> scan_digits (if z = CHR ''0'' then 8 else 10) 0 s
      | [] \<Rightarrow> 0)"

abbreviation LONG_MAX :: int where "LONG_MAX \<equiv> 9223372036854775807"

text \<open>\<open>strtol(s, nullptr, 0)\<close>: out of range values are clamped.\<close>

definition strtol :: "string \<Rightarrow> int" where
  "strtol s =
     (case dropWhile isspace s of
        [] \<Rightarrow> 0
      | c # cs \<Rightarrow>
          if c = CHR ''-'' then max (- LONG_MAX - 1) (- int (scan_number cs))
          else min LONG_MAX (int (scan_number (if c = CHR ''+'' then cs else c # cs))))"

section \<open>Outcomes\<close>

text \<open>A program ends with an exit status after a message, an exception leaves it, or it goes on.\<close>

datatype 'a outcome = Exits int string | Raises exn | Proceeds 'a

fun proceed_with :: "'a outcome \<Rightarrow> ('a \<Rightarrow> 'b outcome) \<Rightarrow> 'b outcome" where
  "proceed_with (Exits n msg) f = Exits n msg"
| "proceed_with (Raises ex) f = Raises ex"
| "proceed_with (Proceeds x) f = f x"

definition lift_exn :: "exn + 'a \<Rightarrow> 'a outcome" where
  "lift_exn r = (case r of Inl ex \<Rightarrow> Raises ex | Inr x \<Rightarrow> Proceeds x)"

text \<open>\<open>check_argc\<close>: \<open>rest\<close> is what follows the option, its argument and one more word.\<close>

definition check_argc :: "string list \<Rightarrow> string \<Rightarrow> 'a outcome \<Rightarrow> 'a outcome" where
  "check_argc rest err go = (if rest = [] then Exits 1 err else go)"

type_synonym resolver = "string \<Rightarrow> string \<Rightarrow> exn + address"

section \<open>tcp_udp\<close>

record tcp_options =
  c_fsm :: tcp_config
  c_filt :: fd_adapter_config
  o_listen :: bool

definition new_tcp_options :: tcp_options where
  "new_tcp_options = \<lparr>c_fsm = new_tcp_config, c_filt = new_fd_adapter_config, o_listen = False\<rparr>"

definition set_window :: "string \<Rightarrow> 'a tcp_options_scheme \<Rightarrow> 'a tcp_options_scheme" where
  "set_window arg c = c\<lparr>c_fsm := (c_fsm c)\<lparr>recv_capacity := of_int (strtol arg)\<rparr>\<rparr>"

definition set_timeout :: "string \<Rightarrow> 'a tcp_options_scheme \<Rightarrow> 'a tcp_options_scheme" where
  "set_timeout arg c = c\<lparr>c_fsm := (c_fsm c)\<lparr>rt_timeout := of_int (strtol arg)\<rparr>\<rparr>"

definition set_loss_up :: "(string \<Rightarrow> u16) \<Rightarrow> string \<Rightarrow> 'a tcp_options_scheme \<Rightarrow> 'a tcp_options_scheme" where
  "set_loss_up lossrate arg c = c\<lparr>c_filt := (c_filt c)\<lparr>loss_rate_up := lossrate arg\<rparr>\<rparr>"

definition set_loss_dn :: "(string \<Rightarrow> u16) \<Rightarrow> string \<Rightarrow> 'a tcp_options_scheme \<Rightarrow> 'a tcp_options_scheme" where
  "set_loss_dn lossrate arg c = c\<lparr>c_filt := (c_filt c)\<lparr>loss_rate_dn := lossrate arg\<rparr>\<rparr>"

fun udp_option_loop :: "(string \<Rightarrow> u16) \<Rightarrow> tcp_options \<Rightarrow> string list \<Rightarrow> (tcp_options \<times> string list) outcome" where
  "udp_option_loop lossrate c (opt # arg # w # rest) =
     (if strncmp_eq ''-l'' opt 3 then udp_option_loop lossrate (c\<lparr>o_listen := True\<rparr>) (arg # w # rest)
      else if strncmp_eq ''-w'' opt 3
      then check_argc rest ''ERROR: -w requires one argument.'' (udp_option_loop lossrate (set_window arg c) (w # rest))
      else if strncmp_eq ''-t'' opt 3
      then check_argc rest ''ERROR: -t requires one argument.'' (udp_option_loop lossrate (set_timeout arg c) (w # rest))
      else if strncmp_eq ''-Lu'' opt 3
      then check_argc rest ''ERROR: -Lu requires one argument.'' (udp_option_loop lossrate (set_loss_up lossrate arg c) (w # rest))
      else if strncmp_eq ''-Ld'' opt 3
      then check_argc rest ''ERROR: -Lu requires one argument.'' (udp_option_loop lossrate (set_loss_dn lossrate arg c) (w # rest))
      else if strncmp_eq ''-h'' opt 3 then Exits 0 []
      else Exits 1 (''ERROR: unrecognized option '' @ opt))"
| "udp_option_loop lossrate c args = Proceeds (c, args)"

text \<open>The arguments without the name of the program; the last two are \<open>argv[argc - 2]\<close> and \<open>argv[argc - 1]\<close>.\<close>

definition udp_get_config :: "resolver \<Rightarrow> (string \<Rightarrow> u16) \<Rightarrow> string list \<Rightarrow> tcp_options outcome" where
  "udp_get_config resolve lossrate args =
     proceed_with (udp_option_loop lossrate new_tcp_options args) (\<lambda>(c, _).
       if o_listen c
       then proceed_with (lift_exn (resolve ''0'' (last args)))
              (\<lambda>a. Proceeds (c\<lparr>c_filt := (c_filt c)\<lparr>source := a\<rparr>\<rparr>))
       else proceed_with (lift_exn (resolve (last (butlast args)) (last args)))
              (\<lambda>a. Proceeds (c\<lparr>c_filt := (c_filt c)\<lparr>destination := a\<rparr>\<rparr>)))"

definition udp_main_config :: "resolver \<Rightarrow> (string \<Rightarrow> u16) \<Rightarrow> string list \<Rightarrow> tcp_options outcome" where
  "udp_main_config resolve lossrate args =
     (if length args < 2 then Exits 1 ''ERROR: required arguments are missing.''
      else udp_get_config resolve lossrate args)"

section \<open>tcp_ipv4\<close>

record ipv4_options = tcp_options +
  source_address :: string
  source_port :: string
  device :: "string option"

definition new_ipv4_options :: "u16 \<Rightarrow> ipv4_options" where
  "new_ipv4_options rnd =
     \<lparr>c_fsm = new_tcp_config, c_filt = new_fd_adapter_config, o_listen = False,
      source_address = ''169.254.144.9'', source_port = show_dec (unat rnd), device = None\<rparr>"

fun ipv4_option_loop :: "(string \<Rightarrow> u16) \<Rightarrow> ipv4_options \<Rightarrow> string list \<Rightarrow> (ipv4_options \<times> string list) outcome" where
  "ipv4_option_loop lossrate c (opt # arg # w # rest) =
     (if strncmp_eq ''-l'' opt 3 then ipv4_option_loop lossrate (c\<lparr>o_listen := True\<rparr>) (arg # w # rest)
      else if strncmp_eq ''-a'' opt 3
      then check_argc rest ''ERROR: -a requires one argument.'' (ipv4_option_loop lossrate (c\<lparr>source_address := arg\<rparr>) (w # rest))
      else if strncmp_eq ''-s'' opt 3
      then check_argc rest ''ERROR: -s requires one argument.'' (ipv4_option_loop lossrate (c\<lparr>source_port := arg\<rparr>) (w # rest))
      else if strncmp_eq ''-w'' opt 3
      then check_argc rest ''ERROR: -w requires one argument.'' (ipv4_option_loop lossrate (set_window arg c) (w # rest))
      else if strncmp_eq ''-t'' opt 3
      then check_argc rest ''ERROR: -t requires one argument.'' (ipv4_option_loop lossrate (set_timeout arg c) (w # rest))
      else if strncmp_eq ''-d'' opt 3
      then check_argc rest ''ERROR: -t requires one argument.'' (ipv4_option_loop lossrate (c\<lparr>device := Some arg\<rparr>) (w # rest))
      else if strncmp_eq ''-Lu'' opt 3
      then check_argc rest ''ERROR: -Lu requires one argument.'' (ipv4_option_loop lossrate (set_loss_up lossrate arg c) (w # rest))
      else if strncmp_eq ''-Ld'' opt 3
      then check_argc rest ''ERROR: -Lu requires one argument.'' (ipv4_option_loop lossrate (set_loss_dn lossrate arg c) (w # rest))
      else if strncmp_eq ''-h'' opt 3 then Exits 0 []
      else Exits 1 (''ERROR: unrecognized option '' @ opt))"
| "ipv4_option_loop lossrate c args = Proceeds (c, args)"

text \<open>\<open>args\<close> are at last the words \<open>argv[curr]\<close> and \<open>argv[curr + 1]\<close>.\<close>

definition ipv4_get_config :: "resolver \<Rightarrow> (string \<Rightarrow> u16) \<Rightarrow> u16 \<Rightarrow> string list \<Rightarrow> ipv4_options outcome" where
  "ipv4_get_config resolve lossrate rnd args =
     proceed_with (ipv4_option_loop lossrate (new_ipv4_options rnd) args) (\<lambda>(c, args).
       if o_listen c
       then proceed_with (lift_exn (resolve ''0'' (args ! 1))) (\<lambda>a.
              if a_port a = 0 then Exits 1 ''ERROR: listen port cannot be zero in server mode.''
              else Proceeds (c\<lparr>c_filt := (c_filt c)\<lparr>source := a\<rparr>\<rparr>))
       else proceed_with (lift_exn (resolve (args ! 0) (args ! 1))) (\<lambda>d.
            proceed_with (lift_exn (resolve (source_address c) (source_port c))) (\<lambda>s.
              Proceeds (c\<lparr>c_filt := (c_filt c)\<lparr>destination := d, source := s\<rparr>\<rparr>))))"

definition ipv4_main_config :: "resolver \<Rightarrow> (string \<Rightarrow> u16) \<Rightarrow> u16 \<Rightarrow> string list \<Rightarrow> ipv4_options outcome" where
  "ipv4_main_config resolve lossrate rnd args =
     (if length args < 2 then Exits 1 ''ERROR: required arguments are missing.''
      else ipv4_get_config resolve lossrate rnd args)"

text \<open>The device that \<open>main\<close> opens.\<close>

definition tun_dev_name :: "ipv4_options \<Rightarrow> string" where
  "tun_dev_name c = (case device c of None \<Rightarrow> ''tun144'' | Some d \<Rightarrow> d)"

section \<open>tcp_ip_ethernet\<close>

record eth_options =
  e_fsm :: tcp_config
  e_filt :: fd_adapter_config
  e_source_address :: string
  e_source_port :: string
  next_hop_address :: string
  tapdev :: string

definition new_eth_options :: "u16 \<Rightarrow> eth_options" where
  "new_eth_options rnd =
     \<lparr>e_fsm = new_tcp_config, e_filt = new_fd_adapter_config, e_source_address = ''169.254.10.9'',
      e_source_port = show_dec (unat rnd), next_hop_address = ''169.254.10.1'', tapdev = ''tap10''\<rparr>"

fun eth_option_loop :: "eth_options \<Rightarrow> string list \<Rightarrow> (eth_options \<times> string list) outcome" where
  "eth_option_loop c (opt # arg # w # rest) =
     (if strncmp_eq ''-a'' opt 3
      then check_argc rest ''ERROR: -a requires one argument.'' (eth_option_loop (c\<lparr>e_source_address := arg\<rparr>) (w # rest))
      else if strncmp_eq ''-s'' opt 3
      then check_argc rest ''ERROR: -s requires one argument.'' (eth_option_loop (c\<lparr>e_source_port := arg\<rparr>) (w # rest))
      else if strncmp_eq ''-n'' opt 3
      then check_argc rest ''ERROR: -n requires one argument.'' (eth_option_loop (c\<lparr>next_hop_address := arg\<rparr>) (w # rest))
      else if strncmp_eq ''-w'' opt 3
      then check_argc rest ''ERROR: -w requires one argument.''
             (eth_option_loop (c\<lparr>e_fsm := (e_fsm c)\<lparr>recv_capacity := of_int (strtol arg)\<rparr>\<rparr>) (w # rest))
      else if strncmp_eq ''-t'' opt 3
      then check_argc rest ''ERROR: -t requires one argument.''
             (eth_option_loop (c\<lparr>e_fsm := (e_fsm c)\<lparr>rt_timeout := of_int (strtol arg)\<rparr>\<rparr>) (w # rest))
      else if strncmp_eq ''-d'' opt 3
      then check_argc rest ''ERROR: -t requires one argument.'' (eth_option_loop (c\<lparr>tapdev := arg\<rparr>) (w # rest))
      else if strncmp_eq ''-h'' opt 3 then Exits 0 []
      else Exits 1 (''ERROR: unrecognized option '' @ opt))"
| "eth_option_loop c args = Proceeds (c, args)"

definition eth_get_config :: "resolver \<Rightarrow> u16 \<Rightarrow> string list \<Rightarrow> (eth_options \<times> address) outcome" where
  "eth_get_config resolve rnd args =
     proceed_with (eth_option_loop (new_eth_options rnd) args) (\<lambda>(c, args).
       proceed_with (lift_exn (resolve (args ! 0) (args ! 1))) (\<lambda>d.
       proceed_with (lift_exn (resolve (e_source_address c) (e_source_port c))) (\<lambda>s.
       proceed_with (lift_exn (resolve (next_hop_address c) ''0'')) (\<lambda>next_hop.
         Proceeds (c\<lparr>e_filt := (e_filt c)\<lparr>destination := d, source := s\<rparr>\<rparr>, next_hop)))))"

definition eth_main_config :: "resolver \<Rightarrow> u16 \<Rightarrow> string list \<Rightarrow> (eth_options \<times> address) outcome" where
  "eth_main_config resolve rnd args =
     (if length args < 2 then Exits 1 ''ERROR: required arguments are missing.''
      else eth_get_config resolve rnd args)"

section \<open>Numbers are read back\<close>

lemma digit_char_alnum:
  "n < 10 \<Longrightarrow> alnum_val (digit_char n) = n \<and> \<not> isspace (digit_char n) \<and>
     digit_char n \<noteq> CHR ''-'' \<and> digit_char n \<noteq> CHR ''+'' \<and> (digit_char n = CHR ''0'' \<longleftrightarrow> n = 0) \<and>
     digit_char n \<noteq> CHR ''x'' \<and> digit_char n \<noteq> CHR ''X''"
proof -
  assume "n < 10"
  moreover have "\<forall>n \<in> set [0..<10]. alnum_val (digit_char n) = n \<and> \<not> isspace (digit_char n) \<and>
     digit_char n \<noteq> CHR ''-'' \<and> digit_char n \<noteq> CHR ''+'' \<and> (digit_char n = CHR ''0'' \<longleftrightarrow> n = 0) \<and>
     digit_char n \<noteq> CHR ''x'' \<and> digit_char n \<noteq> CHR ''X''" by code_simp
  ultimately show ?thesis by simp
qed

lemma scan_digits_append:
  "\<forall>c \<in> set s. alnum_val c < base \<Longrightarrow> scan_digits base acc (s @ t) = scan_digits base (scan_digits base acc s) t"
  by (induction s arbitrary: acc) auto

lemma show_dec_digits: "c \<in> set (show_dec n) \<Longrightarrow> \<exists>k < 10. c = digit_char k"
proof (induction n rule: show_dec.induct)
  case (1 n)
  have "\<exists>k < 10. digit_char (n mod 10) = digit_char k" by (rule exI [of _ "n mod 10"]) simp
  with 1 show ?case by (subst (asm) (2) show_dec.simps) (auto split: if_splits)
qed

lemma scan_show_dec: "scan_digits 10 0 (show_dec n) = n"
proof (induction n rule: show_dec.induct)
  case (1 n)
  have "\<forall>c \<in> set (show_dec (n div 10)). alnum_val c < 10"
    using show_dec_digits digit_char_alnum by fastforce
  then show ?case
    using 1 by (subst show_dec.simps) (auto simp: scan_digits_append digit_char_alnum)
qed

text \<open>The first digit is zero only for the number 0.\<close>

lemma show_dec_hd: "\<exists>k ds. k < 10 \<and> show_dec n = digit_char k # ds \<and> (k = 0 \<longrightarrow> n = 0 \<and> ds = [])"
proof (induction n rule: show_dec.induct)
  case (1 n)
  show ?case
  proof (cases "n < 10")
    case False
    then obtain k ds where "k < 10" "show_dec (n div 10) = digit_char k # ds" "k = 0 \<longrightarrow> n div 10 = 0 \<and> ds = []"
      using 1 by blast
    moreover from this False have "k \<noteq> 0" by (auto simp: div_eq_0_iff)
    ultimately show ?thesis using False by (subst show_dec.simps) auto
  qed (subst show_dec.simps, auto)
qed

lemma scan_number_show_dec: "scan_number (show_dec n) = n"
proof -
  obtain k ds where k: "k < 10" "show_dec n = digit_char k # ds" "k = 0 \<longrightarrow> n = 0 \<and> ds = []"
    using show_dec_hd by blast
  show ?thesis
  proof (cases "k = 0")
    case True
    then show ?thesis using k by (simp add: scan_number_def digit_char_alnum)
  next
    case False
    then have "digit_char k \<noteq> CHR ''0''" using k digit_char_alnum by blast
    then have "scan_number (show_dec n) = scan_digits 10 0 (show_dec n)"
      unfolding scan_number_def by (auto simp: k(2) split: list.split)
    then show ?thesis by (simp add: scan_show_dec)
  qed
qed

lemma strtol_show_dec: "int n \<le> LONG_MAX \<Longrightarrow> strtol (show_dec n) = int n"
proof -
  assume n: "int n \<le> LONG_MAX"
  obtain k ds where k: "k < 10" "show_dec n = digit_char k # ds" using show_dec_hd by blast
  then have "strtol (show_dec n) = min LONG_MAX (int (scan_number (show_dec n)))"
    using digit_char_alnum [OF k(1)] by (simp add: strtol_def)
  with n show ?thesis by (simp add: scan_number_show_dec)
qed

section \<open>Settings and their words\<close>











text \<open>Where the code departs from its usage text: the default window, and the address to bind.\<close>

lemma default_window: "recv_capacity (c_fsm (new_ipv4_options rnd)) = 64000 \<and> MAX_PAYLOAD_SIZE = 1000"
  by (simp add: new_ipv4_options_def new_tcp_config_def MAX_PAYLOAD_SIZE_def DEFAULT_CAPACITY_def)

lemma server_ignores_host:
  "resolve ''0'' port = Inr l \<Longrightarrow> a_port l \<noteq> 0 \<Longrightarrow>
   ipv4_main_config resolve lr rnd [''-l'', host, port] =
     Proceeds ((new_ipv4_options rnd)\<lparr>o_listen := True, c_filt := new_fd_adapter_config\<lparr>source := l\<rparr>\<rparr>)"
  by (simp add: ipv4_main_config_def ipv4_get_config_def strncmp_eq_def lift_exn_def) (simp add: new_ipv4_options_def)

text \<open>
  What is not checked: the values.  A timeout above 65535 is reduced modulo 65536, and a negative
  window becomes a huge one.
\<close>

lemma timeout_wraps: "rt_timeout (c_fsm (set_timeout (show_dec 65536) c)) = 0"
  by (simp add: set_timeout_def strtol_show_dec)

lemma negative_window: "recv_capacity (c_fsm (set_window ''-1'' c)) = 18446744073709551615"
  by (simp add: set_window_def strtol_def isspace_def scan_number_def alnum_val_def)

text \<open>Only three characters of \<open>-Lu\<close> and \<open>-Ld\<close> are compared, so longer words are taken for them.\<close>

lemma loss_option_prefix: "strncmp_eq ''-Lu'' ''-Lunch'' 3 \<and> \<not> strncmp_eq ''-l'' ''-loud'' 3"
  by code_simp

end
