(* ===== verification/Applications.thy ===== *)
theory Applications
  imports Event_Loop Sockets IPv4 Command_Line
begin

text \<open>
  Smaller applications: the UDP relay src/apps/bouncer.cc, the packet printer src/apps/tun.cc, the
  client src/apps/webget.cc (from the owner's side of its socket) and the command line of
  src/apps/tcp_native.cc.  The answers of the kernel are arguments; of the messages on
  \<open>cerr\<close> only the lookups that can throw are modelled.
\<close>

section \<open>The relay: model\<close>

text \<open>The ports of the first sockets of the pairs: a loop over a 16-bit counter.\<close>

function lower_ports :: "u16 \<Rightarrow> u16 list" where
  "lower_ports p = (if p \<le> 64000 then p # lower_ports (p + 2) else [])"
  by pat_completeness auto

termination lower_ports
proof (relation "measure (\<lambda>p. 64002 - unat p)")
  fix p :: u16
  assume p: "p \<le> 64000"
  then have "unat p \<le> 64000" by (simp add: word_le_nat_alt)
  moreover from this have "unat (p + 2) = unat p + 2" by (simp add: unat_word_ariths)
  ultimately show "(p + 2, p) \<in> measure (\<lambda>p. 64002 - unat p)" by simp
qed simp

declare lower_ports.simps [simp del]

text \<open>Socket \<open>2 n\<close> is the \<open>x\<close> and \<open>2 n + 1\<close> the \<open>y\<close> of pair \<open>n\<close>: two sockets are created and bound.\<close>

fun open_pairs :: "(u16 \<Rightarrow> nat reply) \<Rightarrow> (u16 \<Rightarrow> nat reply) \<Rightarrow> u16 list \<Rightarrow> exn + file_descriptor list" where
  "open_pairs create bind_to [] = Inr []"
| "open_pairs create bind_to (p # ps) =
     (case (new_socket (create p), new_socket (create (p + 1))) of
        (Inr x, Inr y) \<Rightarrow>
          (case sock_bind (bind_to p) of
             Inl ex \<Rightarrow> Inl ex
           | Inr _ \<Rightarrow>
               (case sock_bind (bind_to (p + 1)) of
                  Inl ex \<Rightarrow> Inl ex
                | Inr _ \<Rightarrow>
                    (case open_pairs create bind_to ps of
                       Inl ex \<Rightarrow> Inl ex
                     | Inr fds \<Rightarrow> Inr (x # y # fds))))
      | (Inl ex, _) \<Rightarrow> Inl ex
      | (_, Inl ex) \<Rightarrow> Inl ex)"

text \<open>
  The state also records the datagrams received and those handed to the kernel, each with the
  index of its socket; a reception also says whether the message about a new sender, if one was
  due, could be made.
\<close>

type_synonym reception = "nat \<times> sock_address \<times> bytes \<times> bool"

record bouncer =
  bn_sockets :: "file_descriptor list"
  bn_peers :: "sock_address option list"
  bn_history :: "reception list"
  bn_sent :: "(nat \<times> sock_address \<times> bytes) list"

record bouncer_kernel =
  bk_recv :: "nat \<Rightarrow> ((bytes \<times> u32) \<times> bytes) reply"
  bk_send :: "nat \<Rightarrow> nat reply"
  bk_local :: "nat \<Rightarrow> nat reply \<times> bytes \<times> u32"
  bk_names :: "nat \<Rightarrow> (string \<times> u16) reply \<times> (string \<times> u16) reply"

definition new_bouncer :: "file_descriptor list \<Rightarrow> bouncer" where
  "new_bouncer fds = \<lparr>bn_sockets = fds, bn_peers = replicate (length fds) None, bn_history = [], bn_sent = []\<rparr>"

text \<open>The message names the address of the socket and the one of its new peer.\<close>

definition learn_message :: "bouncer_kernel \<Rightarrow> nat \<Rightarrow> exn + unit" where
  "learn_message k i =
     (let (r, addr, sz) = bk_local k i in
      case local_address r addr sz of Inl ex \<Rightarrow> Inl ex | Inr _ \<Rightarrow>
      case address_to_string (fst (bk_names k i)) of Inl ex \<Rightarrow> Inl ex | Inr _ \<Rightarrow>
      case address_to_string (snd (bk_names k i)) of Inl ex \<Rightarrow> Inl ex | Inr _ \<Rightarrow> Inr ())"

definition learn_peer :: "bouncer_kernel \<Rightarrow> nat \<Rightarrow> sock_address \<Rightarrow> bouncer \<Rightarrow> (exn + unit) \<times> bouncer" where
  "learn_peer k i src s =
     (if bn_peers s ! i = None \<or> \<not> address_eq (the (bn_peers s ! i)) src
      then (learn_message k i, s\<lparr>bn_peers := (bn_peers s)[i := Some src]\<rparr>) else (Inr (), s))"

text \<open>The callback of socket \<open>i\<close>, whose partner is socket \<open>j\<close>.\<close>

definition bounce :: "nat \<Rightarrow> nat \<Rightarrow> bouncer_kernel \<Rightarrow> bouncer \<Rightarrow> (exn + unit) \<times> bouncer" where
  "bounce i j k s =
     (case udp_recvfrom (bn_sockets s ! i) 65536 (bk_recv k i) of
        (Inl ex, fd) \<Rightarrow> (Inl ex, s\<lparr>bn_sockets := (bn_sockets s)[i := fd]\<rparr>)
      | (Inr (src, payload), fd) \<Rightarrow>
          (case learn_peer k i src (s\<lparr>bn_sockets := (bn_sockets s)[i := fd]\<rparr>) of
             (told, s) \<Rightarrow>
               let s = s\<lparr>bn_history := bn_history s @ [(i, src, payload, told = Inr ())]\<rparr> in
               if told \<noteq> Inr () then (told, s)
               else case bn_peers s ! j of
                 None \<Rightarrow> (Inr (), s)
               | Some peer \<Rightarrow>
                   if payload = [] then (Inr (), s)
                   else case udp_sendto (bn_sockets s ! j) [payload] (bk_send k j) of
                     (r, fd) \<Rightarrow> (r, s\<lparr>bn_sockets := (bn_sockets s)[j := fd], bn_sent := bn_sent s @ [(j, peer, payload)]\<rparr>)))"

definition pair_rules :: "nat \<Rightarrow> (bouncer_kernel, bouncer) rule list" where
  "pair_rules n =
     (let x = 2 * n; y = 2 * n + 1; always = (\<lambda>_. True); nothing = (\<lambda>s. (Inr (), s));
          rules = add_rule [] (\<lambda>s. bn_sockets s ! x) In (bounce x y) always nothing
      in add_rule rules (\<lambda>s. bn_sockets s ! y) In (bounce y x) always nothing)"

definition bouncer_rules :: "nat \<Rightarrow> (bouncer_kernel, bouncer) rule list" where
  "bouncer_rules pairs = concat (map pair_rules [0..<pairs])"

fun bouncer_loop :: "(bouncer_kernel \<times> (pollfd list \<Rightarrow> poll_answer)) list \<Rightarrow> (bouncer_kernel, bouncer) rule list \<Rightarrow> bouncer
    \<Rightarrow> (exn + unit) option \<times> bouncer" where
  "bouncer_loop [] rules s = (None, s)"
| "bouncer_loop ((k, poll) # env) rules s =
     (case wait_next_event k poll rules s of
        (Inl ex, rules, s) \<Rightarrow> (Some (Inl ex), s)
      | (Inr result, rules, s) \<Rightarrow> if result = Exit then (Some (Inr ()), s) else bouncer_loop env rules s)"

section \<open>The relay: what it sends\<close>

lemma lower_ports_eq: "n \<le> 31489 \<Longrightarrow> lower_ports (64002 - 2 * of_nat n) = map (\<lambda>k. 64002 - 2 * of_nat k) (rev [1..<Suc n])"
proof (induction n)
  case 0
  show ?case by (subst lower_ports.simps) simp
next
  case (Suc n)
  have u: "unat (64002 - 2 * of_nat (Suc n) :: u16) = 64002 - 2 * Suc n"
  proof -
    have "(64002 - 2 * of_nat (Suc n) :: u16) = of_nat (64002 - 2 * Suc n)" using Suc.prems by simp
    then show ?thesis using Suc.prems by (simp only: unat_of_nat) simp
  qed
  then have "(64002 - 2 * of_nat (Suc n) :: u16) \<le> 64000" by (simp add: word_le_nat_alt)
  moreover have "(64002 - 2 * of_nat (Suc n) :: u16) + 2 = 64002 - 2 * of_nat n" by simp
  ultimately have "lower_ports (64002 - 2 * of_nat (Suc n)) = (64002 - 2 * of_nat (Suc n)) # lower_ports (64002 - 2 * of_nat n)"
    by (subst lower_ports.simps) (simp only: if_True)
  with Suc show ?case by (simp del: of_nat_Suc)
qed

text \<open>
  The loop ends after 31489 pairs, although its counter has 16 bits; the vectors never grow beyond
  the 66000 elements reserved, so that the references the callbacks hold stay valid.
\<close>

lemma lower_ports_count: "length (lower_ports 1024) = 31489 \<and> 2 * length (lower_ports 1024) \<le> 66000"
  using lower_ports_eq [of 31489] by simp

lemma open_pairs_length: "open_pairs create bind_to ps = Inr fds \<Longrightarrow> length fds = 2 * length ps"
  by (induction ps arbitrary: fds) (auto split: sum.splits)

definition partner :: "nat \<Rightarrow> nat" where
  "partner i = (if even i then i + 1 else i - 1)"

text \<open>
  The reference: a non-empty datagram goes to the last sender seen at the partner, if there is one,
  unless the callback was cut off while it told about a new sender.
\<close>

definition last_source :: "nat \<Rightarrow> reception list \<Rightarrow> sock_address option" where
  "last_source i h = map_option (\<lambda>(_, src, _). src) (find (\<lambda>(j, _). j = i) (rev h))"

definition relay_one :: "reception list \<Rightarrow> reception \<Rightarrow> (nat \<times> sock_address \<times> bytes) list" where
  "relay_one h e =
     (let (i, _, payload, told) = e in
      case last_source (partner i) h of
        None \<Rightarrow> []
      | Some peer \<Rightarrow> if payload = [] \<or> \<not> told then [] else [(partner i, peer, payload)])"

definition relayed :: "reception list \<Rightarrow> (nat \<times> sock_address \<times> bytes) list" where
  "relayed h = concat (map (\<lambda>n. relay_one (take n h) (h ! n)) [0..<length h])"

lemma relayed_snoc: "relayed (h @ [e]) = relayed h @ relay_one h e"
proof -
  have "map (\<lambda>n. relay_one (take n (h @ [e])) ((h @ [e]) ! n)) [0..<length h] = map (\<lambda>n. relay_one (take n h) (h ! n)) [0..<length h]"
    by (rule map_cong) (simp_all add: nth_append)
  moreover have "take (length h) (h @ [e]) = h" by simp
  ultimately show ?thesis by (simp add: relayed_def del: take_append map_eq_conv)
qed

lemma last_source_snoc: "last_source i (h @ [(j, src, p)]) = (if i = j then Some src else last_source i h)"
  by (simp add: last_source_def)

text \<open>Addresses made from at least as many bytes as their size says are equal when they compare equal.\<close>

definition canonical :: "sock_address \<Rightarrow> bool" where
  "canonical a \<longleftrightarrow> unat (sa_size a) \<le> sizeof_storage \<and>
     (\<exists>bs. length bs = unat (sa_size a) \<and> sa_storage a = bs @ replicate (sizeof_storage - unat (sa_size a)) 0)"

lemma canonical_eq: "canonical a \<Longrightarrow> canonical b \<Longrightarrow> address_eq a b \<Longrightarrow> a = b"
  by (cases a; cases b) (auto simp: canonical_def address_eq_def)

definition kernel_ok :: "bouncer_kernel \<Rightarrow> bool" where
  "kernel_ok k \<longleftrightarrow> (\<forall>i addr len dg. bk_recv k i = Sys_Ok ((addr, len), dg) \<longrightarrow> unat len \<le> length addr)"

lemma unat_u64_of_u32: "unat (ucast (w :: u32) :: u64) = unat w"
proof -
  have "unat w < 2 ^ 32" using unsigned_less [of w] by simp
  then have "unat w < 2 ^ 64" by simp
  then show ?thesis by (simp add: unsigned_ucast_eq take_bit_nat_eq_self)
qed

lemma ucast_u64_of_u32: "ucast (ucast (w :: u32) :: u64) = w"
  by (rule unsigned_word_eqI) (simp add: unsigned_ucast_eq take_bit_word_eq_self)

lemma recv_canonical:
  assumes "udp_recvfrom fd mtu (bk_recv k i) = (Inr (src, dg), fd')" "kernel_ok k"
  shows "canonical src"
proof -
  from assms(1) obtain addr len where r: "bk_recv k i = Sys_Ok ((addr, len), dg)" "address_of_raw addr (ucast len) = Inr src"
    by (auto simp: udp_recvfrom_def system_call_def split: reply.splits prod.splits if_splits sum.splits)
  then have "unat len \<le> length addr" using assms(2) by (auto simp: kernel_ok_def)
  moreover have "unat (ucast len :: u64) = unat len" by (rule unat_u64_of_u32)
  moreover have "unat len \<le> 128" "src = \<lparr>sa_size = len, sa_storage = take (unat len) addr @ replicate (128 - unat len) 0\<rparr>"
    using r(2) calculation(2) by (auto simp: address_of_raw_def word_less_nat_alt ucast_u64_of_u32 split: if_splits)
  ultimately show ?thesis by (auto simp: canonical_def)
qed

definition bouncer_inv :: "nat \<Rightarrow> bouncer \<Rightarrow> bool" where
  "bouncer_inv n s \<longleftrightarrow> length (bn_peers s) = 2 * n \<and>
     (\<forall>i < 2 * n. bn_peers s ! i = last_source i (bn_history s)) \<and>
     (\<forall>i a. last_source i (bn_history s) = Some a \<longrightarrow> canonical a) \<and>
     bn_sent s = relayed (bn_history s)"

lemma learn_peer_eq:
  assumes "canonical src" "\<And>a. bn_peers s ! i = Some a \<Longrightarrow> canonical a" "learn_peer k i src s = (told, t)"
  shows "t = s\<lparr>bn_peers := (bn_peers s)[i := Some src]\<rparr>"
proof (cases "bn_peers s ! i = None \<or> \<not> address_eq (the (bn_peers s ! i)) src")
  case False
  then obtain a where "bn_peers s ! i = Some a" "a = src" using assms canonical_eq by fastforce
  then have "(bn_peers s)[i := Some src] = bn_peers s" by (metis list_update_id)
  with False assms(3) show ?thesis by (auto simp: learn_peer_def)
qed (use assms(3) in \<open>simp add: learn_peer_def\<close>)

lemma bounce_inv:
  assumes "bouncer_inv n s" "kernel_ok k" "i < 2 * n" "partner i < 2 * n"
  shows "bouncer_inv n (snd (bounce i (partner i) k s))"
proof -
  obtain r fd where rv: "udp_recvfrom (bn_sockets s ! i) 65536 (bk_recv k i) = (r, fd)"
    by (cases "udp_recvfrom (bn_sockets s ! i) 65536 (bk_recv k i)")
  show ?thesis
  proof (cases r)
    case (Inl ex)
    then show ?thesis using assms(1) rv by (simp add: bounce_def bouncer_inv_def)
  next
    case (Inr sp)
    obtain src payload where sp: "sp = (src, payload)" by (cases sp)
    let ?s1 = "s\<lparr>bn_sockets := (bn_sockets s)[i := fd]\<rparr>"
    obtain told s2 where lp: "learn_peer k i src ?s1 = (told, s2)" by (cases "learn_peer k i src ?s1")
    let ?h = "bn_history s @ [(i, src, payload, told = Inr ())]"
    have can: "canonical src" using recv_canonical rv Inr sp assms(2) by blast
    have s2: "s2 = ?s1\<lparr>bn_peers := (bn_peers s)[i := Some src]\<rparr>"
      using learn_peer_eq [OF can _ lp] assms(1,3) by (auto simp: bouncer_inv_def)
    have ne: "partner i \<noteq> i" by (simp add: partner_def) presburger
    have pj: "bn_peers s2 ! partner i = last_source (partner i) (bn_history s)"
      using assms(1,4) ne by (simp add: s2 bouncer_inv_def)
    have base: "length (bn_peers s2) = 2 * n" "\<And>m. m < 2 * n \<Longrightarrow> bn_peers s2 ! m = last_source m ?h"
      "\<And>m a. last_source m ?h = Some a \<Longrightarrow> canonical a"
      using assms(1) can by (auto simp: bouncer_inv_def s2 nth_list_update last_source_snoc split: if_splits)
    have sent: "bn_sent (snd (bounce i (partner i) k s)) = relayed ?h" "bn_history (snd (bounce i (partner i) k s)) = ?h"
      "bn_peers (snd (bounce i (partner i) k s)) = bn_peers s2"
      using assms(1) rv Inr sp pj lp s2
      by (auto simp: bounce_def bouncer_inv_def relayed_snoc relay_one_def Let_def split: option.splits prod.splits)
    show ?thesis unfolding bouncer_inv_def sent using base by simp
  qed
qed

lemma bouncer_rule_bounce:
  assumes "r \<in> set (bouncer_rules n)"
  obtains i where "i < 2 * n" "partner i < 2 * n" "r_callback r = bounce i (partner i)" "r_cancel r = (\<lambda>s. (Inr (), s))"
proof -
  from assms obtain m where "m < n" "r \<in> set (pair_rules m)" by (auto simp: bouncer_rules_def)
  then show thesis using that [of "2 * m"] that [of "2 * m + 1"]
    by (auto simp: pair_rules_def add_rule_def Let_def partner_def)
qed

interpretation bouncer: event_inv "bouncer_rules n" kernel_ok "bouncer_inv n"
  by unfold_locales (auto elim!: bouncer_rule_bounce intro: bounce_inv)

lemma bouncer_loop_inv:
  "\<lbrakk>bouncer_loop env rules s = (res, s'); set rules \<subseteq> set (bouncer_rules n); \<forall>(k, poll) \<in> set env. kernel_ok k; bouncer_inv n s\<rbrakk>
   \<Longrightarrow> bouncer_inv n s'"
proof (induction env arbitrary: rules s)
  case (Cons e env)
  obtain k poll where e: "e = (k, poll)" by (cases e)
  obtain r rules1 s1 where w: "wait_next_event k poll rules s = (r, rules1, s1)" by (metis prod_cases3)
  have "bouncer_inv n s1" "set rules1 \<subseteq> set (bouncer_rules n)"
    using bouncer.wait_next_event_kept [OF w Cons.prems(2) _ Cons.prems(4)] Cons.prems(3) e by auto
  with Cons show ?case by (auto simp: e w split: sum.splits if_splits)
qed simp

lemma bouncer_inv_new: "length fds = 2 * n \<Longrightarrow> bouncer_inv n (new_bouncer fds)"
  by (simp add: bouncer_inv_def new_bouncer_def last_source_def relayed_def)

text \<open>
  C37. The relay forwards exactly: in every run, whatever arrives in whatever order and even after an
  exception, the datagrams it has handed to the kernel are those that the history of receptions
  determines: each non-empty datagram received at one socket of a pair goes out of the other socket
  to the last sender seen there before, and to nobody if there is none or if telling about a new
  sender raised an exception, which ends the program; pairs do not influence each other.  (The
  kernel returns no more address bytes than it has written.)
\<close>

theorem bouncer_relays:
  assumes "bouncer_loop env (bouncer_rules n) (new_bouncer fds) = (res, s)"
    and "length fds = 2 * n" "\<forall>(k, poll) \<in> set env. kernel_ok k"
  shows "bn_sent s = relayed (bn_history s)"
  using bouncer_loop_inv [OF assms(1) subset_refl assms(3) bouncer_inv_new [OF assms(2)]] by (simp add: bouncer_inv_def)

definition relay_example :: "(bouncer_kernel \<times> (pollfd list \<Rightarrow> poll_answer)) list" where
  "relay_example =
     (let k = \<lparr>bk_recv = (\<lambda>i. Sys_Ok ((replicate 16 (of_nat i), 16), [1, 2])), bk_send = (\<lambda>_. Sys_Ok 2),
        bk_local = (\<lambda>_. (Sys_Ok 0, replicate 16 0, 16)), bk_names = (\<lambda>_. (Sys_Ok ([], 0), Sys_Ok ([], 0)))\<rparr> in
      [(k, \<lambda>_. (Sys_Ok 1, \<lambda>i. if i = 1 then POLLIN else 0)), (k, \<lambda>_. (Sys_Ok 1, \<lambda>i. if i = 0 then POLLIN else 0))])"

abbreviation relay_run where
  "relay_run \<equiv> bouncer_loop relay_example (bouncer_rules 1) (new_bouncer [example_fd, example_fd])"

lemma relay_run_sent: "map (\<lambda>(i, _, p). (i, p)) (bn_sent (snd relay_run)) = [(1, [1, 2])]"
  by code_simp

theorem bouncer_relays_witness:
  "map (\<lambda>(i, _, p). (i, p)) (bn_sent (snd relay_run)) = [(1, [1, 2])] \<and>
   bn_sent (snd relay_run) = relayed (bn_history (snd relay_run))"
proof -
  have ok: "\<forall>(k, poll) \<in> set relay_example. kernel_ok k" by (simp add: relay_example_def kernel_ok_def Let_def)
  obtain res s where o: "relay_run = (res, s)" by (cases relay_run)
  from bouncer_relays [OF o _ ok] relay_run_sent show ?thesis by (simp only: o snd_conv) simp
qed

section \<open>tun: printing the packets of a TUN device\<close>

text \<open>
  What one round of the loop writes for the packet read, or the exception that ends the program
  (\<open>hexdump\<close> prints without indentation).
\<close>

definition tun_report :: "bytes \<Rightarrow> exn + string" where
  "tun_report buffer =
     (let banner = newline @ newline @ ''***'' @ newline @ ''*** Got packet:'' @ newline @ ''***'' @ newline;
          out = banner @ hexdump buffer 0 @ ''attempting to parse as ipv4 datagram... '';
          (parsed, ip_dgram) = ipv4_datagram_parse new_ipv4_datagram buffer;
          h = ip_header ip_dgram
      in if parsed \<noteq> NoError then Inr (out @ ''failed.'' @ newline)
         else
           let out = out @ ''success! totlen='' @ show_dec (unat (ip_len h)) @ '', IPv4 header contents:'' @ newline @ ipv4_to_string h
           in if proto h \<noteq> PROTO_TCP then Inr (out @ newline @ ''Not TCP, skipping.'' @ newline)
              else
                let out = out @ newline @ ''Attempting to parse as a TCP segment... '' in
                case bl_to_buffer (ip_payload ip_dgram) of
                  Inl ex \<Rightarrow> Inl ex
                | Inr payload \<Rightarrow>
                    (case tcp_segment_parse new_tcp_segment payload (pseudo_cksum h) of
                       (parsed, tcp_seg) \<Rightarrow>
                         if parsed \<noteq> NoError then Inr (out @ ''failed.'' @ newline)
                         else Inr (out @ ''success! payload len='' @ show_dec (length (seg_payload tcp_seg))
                           @ '', TCP header contents:'' @ newline @ tcp_header_to_string (seg_header tcp_seg) @ newline)))"

text \<open>The loop has no exit but an exception: \<open>None\<close> when the list of the kernel's answers is used up.\<close>

fun tun_loop :: "bytes reply list \<Rightarrow> file_descriptor \<Rightarrow> string \<Rightarrow> exn option \<times> string" where
  "tun_loop [] tun out = (None, out)"
| "tun_loop (r # rs) tun out =
     (case fd_read tun (- 1) r of
        (Inl ex, tun) \<Rightarrow> (Some ex, out)
      | (Inr buffer, tun) \<Rightarrow>
          (case tun_report buffer of
             Inl ex \<Rightarrow> (Some ex, out)
           | Inr text \<Rightarrow> tun_loop rs tun (out @ text)))"

text \<open>The payload of a parsed datagram is one buffer, so the report itself never throws.\<close>

lemma tun_report_total: "\<exists>out. tun_report buffer = Inr out"
proof -
  obtain res dg where d: "ipv4_datagram_parse new_ipv4_datagram buffer = (res, dg)" by (cases "ipv4_datagram_parse new_ipv4_datagram buffer")
  then obtain b where "ip_payload dg = [b]"
    by (auto simp: ipv4_datagram_parse_def bl_of_string_def Let_def split: prod.splits if_splits)
  then show ?thesis by (simp add: tun_report_def d bl_to_buffer_def Let_def split: prod.split)
qed

section \<open>webget: a request and everything that comes back\<close>

definition request_lines :: "string \<Rightarrow> string \<Rightarrow> string list" where
  "request_lines host path =
     (let crlf = [CHR 0x0D, CHR 0x0A] in
      [''GET '' @ path @ '' HTTP/1.1'' @ crlf, ''Host: '' @ host @ crlf, ''Connection: close'' @ crlf, crlf])"

text \<open>Successive calls of \<open>write\<close>, each with the answers of the kernel to its calls of \<open>writev(2)\<close>.\<close>

fun write_lines :: "nat reply list list \<Rightarrow> string list \<Rightarrow> file_descriptor \<Rightarrow> ((exn + unit) \<times> file_descriptor) option" where
  "write_lines rss [] fd = Some (Inr (), fd)"
| "write_lines [] (l # ls) fd = None"
| "write_lines (rs # rss) (l # ls) fd =
     (case fd_write fd [map (\<lambda>c. of_char c) l] True rs of
        None \<Rightarrow> None
      | Some (Inl ex, fd) \<Rightarrow> Some (Inl ex, fd)
      | Some (Inr _, fd) \<Rightarrow> write_lines rss ls fd)"

fun print_until_eof :: "bytes reply list \<Rightarrow> file_descriptor \<Rightarrow> bytes \<Rightarrow> (exn + unit) option \<times> file_descriptor \<times> bytes" where
  "print_until_eof rs fd out =
     (if fd_eof fd then (Some (Inr ()), fd, out)
      else case rs of
        [] \<Rightarrow> (None, fd, out)
      | r # rs \<Rightarrow>
          (case fd_read fd (- 1) r of
             (Inl ex, fd) \<Rightarrow> (Some (Inl ex), fd, out)
           | (Inr bs, fd) \<Rightarrow> print_until_eof rs fd (out @ bs)))"

declare print_until_eof.simps [simp del]

text \<open>
  \<open>shutdown(2)\<close> is answered by the state of the descriptor.  The thread of the socket runs beside
  \<open>get_URL\<close>: how its loop ends, and whether it has shut the socket down before \<open>get_URL\<close> closes it.
\<close>

record webget_kernel =
  wk_writes :: "nat reply list list"
  wk_reads :: "bytes reply list"
  wk_close :: "nat reply"
  wk_shutdown :: "file_descriptor \<Rightarrow> nat reply"
  wk_thread :: "exn + unit"
  wk_thread_first :: bool

text \<open>\<open>wait_until_closed\<close> up to the point where it waits for the thread.\<close>

definition wait_until_closed :: "file_descriptor \<Rightarrow> (file_descriptor \<Rightarrow> nat reply) \<Rightarrow> (exn + unit) \<times> file_descriptor" where
  "wait_until_closed fd shutdown_reply = sock_shutdown fd 2 (shutdown_reply fd)"

text \<open>\<open>get_URL\<close> once the socket is connected: the result, the descriptor, and what it has given to \<open>cout\<close>.\<close>

definition get_URL :: "string \<Rightarrow> string \<Rightarrow> webget_kernel \<Rightarrow> file_descriptor \<Rightarrow> (exn + unit) option \<times> file_descriptor \<times> bytes" where
  "get_URL host path k fd =
     (case write_lines (wk_writes k) (request_lines host path) fd of
        None \<Rightarrow> (None, fd, [])
      | Some (Inl ex, fd) \<Rightarrow> (Some (Inl ex), fd, [])
      | Some (Inr _, fd) \<Rightarrow>
          (case print_until_eof (wk_reads k) fd [] of
             (None, fd, out) \<Rightarrow> (None, fd, out)
           | (Some (Inl ex), fd, out) \<Rightarrow> (Some (Inl ex), fd, out)
           | (Some (Inr _), fd, out) \<Rightarrow>
               (case fd_close fd (wk_close k) of
                  (Inl ex, fd) \<Rightarrow> (Some (Inl ex), fd, out)
                | (Inr _, fd) \<Rightarrow>
                    (case wait_until_closed fd (wk_shutdown k) of (r, fd) \<Rightarrow> (Some r, fd, out)))))"

text \<open>
  The end of the thread: after its loop it shuts the socket down itself.  Both \<open>wait_until_closed\<close> and
  the destructor of the socket wait for it, and an exception that leaves it terminates the process (\<open>Terminated\<close> names the one that the thread
  has caught, printed and thrown on).
\<close>

definition thread_end :: "webget_kernel \<Rightarrow> file_descriptor \<Rightarrow> exn + unit" where
  "thread_end k fd =
     (case wk_thread k of
        Inl ex \<Rightarrow> Inl ex
      | Inr _ \<Rightarrow> if wk_thread_first k then Inr () else fst (sock_shutdown fd 2 (wk_shutdown k fd)))"

datatype process_end = Exit_Status int | Terminated exn

definition webget :: "string \<Rightarrow> string \<Rightarrow> webget_kernel \<Rightarrow> file_descriptor \<Rightarrow> process_end option \<times> bytes" where
  "webget host path k fd =
     (case get_URL host path k fd of
        (None, fd, out) \<Rightarrow> (None, out)
      | (Some r, fd, out) \<Rightarrow>
          (case thread_end k fd of
             Inl ex \<Rightarrow> (Some (Terminated ex), out)
           | Inr _ \<Rightarrow> (Some (Exit_Status (case r of Inl ex \<Rightarrow> 1 | Inr _ \<Rightarrow> 0)), out)))"

text \<open>POSIX: \<open>shutdown(2)\<close> of a descriptor that has been closed is refused with \<open>EBADF\<close> (9).\<close>

definition closed_is_refused :: "webget_kernel \<Rightarrow> bool" where
  "closed_is_refused k \<longleftrightarrow> (\<forall>fd. fd_closed fd \<longrightarrow> wk_shutdown k fd = Sys_Err 9)"

text \<open>
  The peer sends the pieces \<open>bss\<close>, none of them empty and none longer than a read, and then ends its
  stream: everything is printed, in order.
\<close>

lemma print_until_eof_all:
  assumes "\<forall>bs \<in> set bss. bs \<noteq> [] \<and> length bs \<le> 1048576" "\<not> fd_eof fd"
  shows "\<exists>fd'. print_until_eof (map Sys_Ok bss @ [Sys_Ok []]) fd out = (Some (Inr ()), fd', out @ concat bss)"
  using assms
proof (induction bss arbitrary: fd out)
  case Nil
  have "print_until_eof [Sys_Ok []] fd out = print_until_eof [] (register_read (fd\<lparr>fd_eof := True\<rparr>)) out"
    using Nil by (subst print_until_eof.simps) (simp add: fd_read_end)
  then show ?case by (simp add: print_until_eof.simps register_read_def)
next
  case (Cons bs bss)
  have "print_until_eof (map Sys_Ok (bs # bss) @ [Sys_Ok []]) fd out =
      print_until_eof (map Sys_Ok bss @ [Sys_Ok []]) (register_read fd) (out @ bs)"
    using Cons.prems by (subst print_until_eof.simps) (simp add: fd_read_some)
  moreover have "\<not> fd_eof (register_read fd)" using Cons.prems by (simp add: register_read_def)
  ultimately show ?case using Cons.IH [of "register_read fd" "out @ bs"] Cons.prems by simp
qed

text \<open>Each line leaves in one call when the kernel takes all of it.\<close>

lemma fd_write_whole:
  assumes "l \<noteq> []" "length l < 2 ^ 63"
  shows "fd_write fd [l] True [Sys_Ok (length l)] = Some (Inr (of_nat (length l)), register_write fd)"
proof -
  have u: "unat (of_nat (length l) :: u64) = length l" using assms(2) by (simp add: unat_of_nat_u64)
  have sz: "bvl_size [l] = of_nat (length l)" by (simp add: bvl_size_eq str_size_def)
  have pos: "(0 :: u64) < of_nat (length l)" using u assms(1) by (simp add: word_less_nat_alt)
  then have "bvl_remove_prefix [l] (of_nat (length l)) = Inr []" by (simp add: bvl_remove_prefix_def str_size_def)
  moreover have "bvl_size [] = 0" by (simp add: bvl_size_def)
  moreover have "sint (of_nat (length l) :: u64) = int (length l)"
    using assms(2) u by (simp add: sint_uint uint_nat signed_take_bit_int_eq_self_iff)
  ultimately show ?thesis using assms(1) by (simp add: fd_write_def fd_write_round_def system_call_def sz)
qed

lemma write_lines_whole:
  "\<forall>l \<in> set ls. l \<noteq> [] \<and> length l < 2 ^ 63 \<Longrightarrow>
   write_lines (map (\<lambda>l. [Sys_Ok (length l)]) ls) ls fd = Some (Inr (), (register_write ^^ length ls) fd)"
  by (induction ls arbitrary: fd) (simp_all add: fd_write_whole [of "map _ _", simplified] funpow_swap1)

lemma register_write_eof [simp]: "fd_eof ((register_write ^^ n) fd) = fd_eof fd"
  by (induction n) (simp_all add: register_write_def)

text \<open>
  C40. A run of \<open>webget\<close> against a server that answers with the pieces \<open>bss\<close> and ends its stream gives
  exactly their concatenation to \<open>cout\<close>, but never ends with success.  \<open>get_URL\<close> closes the socket
  before \<open>wait_until_closed\<close> shuts it down, so that call throws and the program exits with a failure;
  and if the thread of the socket has not shut the socket down before, its own call throws as well,
  and the exception that leaves the thread terminates the process.  (Each line of the request is
  taken by the kernel at once, closing works, the loop of the thread ends normally, and the kernel
  refuses to shut down a closed descriptor.)
\<close>

theorem webget_prints_then_fails:
  assumes "length host < 2 ^ 62" "length path < 2 ^ 62"
    and "\<forall>bs \<in> set bss. bs \<noteq> [] \<and> length bs \<le> 1048576" "\<not> fd_eof fd"
    and "wk_writes k = map (\<lambda>l. [Sys_Ok (length l)]) (request_lines host path)"
    and "wk_reads k = map Sys_Ok bss @ [Sys_Ok []]" "wk_close k = Sys_Ok 0" "wk_thread k = Inr ()"
    and "closed_is_refused k"
  shows "webget host path k fd =
    (Some (if wk_thread_first k then Exit_Status 1 else Terminated (Unix_Error ''shutdown'' 9)), concat bss)"
proof -
  have "\<forall>l \<in> set (request_lines host path). l \<noteq> [] \<and> length l < 2 ^ 63"
    using assms(1,2) by (simp add: request_lines_def Let_def)
  from write_lines_whole [OF this, of fd]
  obtain fd1 where w: "write_lines (wk_writes k) (request_lines host path) fd = Some (Inr (), fd1)" "\<not> fd_eof fd1"
    using assms(4,5) by simp
  from print_until_eof_all [OF assms(3) this(2), of "[]"]
  obtain fd2 where p: "print_until_eof (wk_reads k) fd1 [] = (Some (Inr ()), fd2, concat bss)" using assms(6) by auto
  define fd3 where "fd3 = fd2\<lparr>fd_eof := True, fd_closed := True\<rparr>"
  have c: "fd_close fd2 (wk_close k) = (Inr (), fd3)" using assms(7) by (simp add: fd_close_def system_call_def fd3_def)
  have "wk_shutdown k fd3 = Sys_Err 9" using assms(9) by (simp add: closed_is_refused_def fd3_def)
  then have s: "sock_shutdown fd3 2 (wk_shutdown k fd3) = (Inl (Unix_Error ''shutdown'' 9), fd3)"
    by (simp add: sock_shutdown_def system_call_def)
  have "get_URL host path k fd = (Some (Inl (Unix_Error ''shutdown'' 9)), fd3, concat bss)"
    by (simp add: get_URL_def w p c s wait_until_closed_def)
  then show ?thesis using assms(8) s by (simp add: webget_def thread_end_def)
qed

definition webget_example :: webget_kernel where
  "webget_example = \<lparr>wk_writes = map (\<lambda>l. [Sys_Ok (length l)]) (request_lines ''h'' ''/''), wk_reads = [Sys_Ok [79], Sys_Ok [75], Sys_Ok []],
     wk_close = Sys_Ok 0, wk_shutdown = (\<lambda>fd. if fd_closed fd then Sys_Err 9 else Sys_Ok 0), wk_thread = Inr (), wk_thread_first = False\<rparr>"

theorem webget_prints_then_fails_witness:
  "webget ''h'' ''/'' webget_example example_fd = (Some (Terminated (Unix_Error ''shutdown'' 9)), [79, 75])"
  using webget_prints_then_fails [of "''h''" "''/''" "[[79], [75]]" example_fd webget_example]
  by (simp add: webget_example_def closed_is_refused_def)

section \<open>tcp_native: the command line\<close>

text \<open>The arguments without the name of the program; the answer is the mode, the host and the port.\<close>

definition native_arguments :: "string list \<Rightarrow> (bool \<times> string \<times> string) outcome" where
  "native_arguments args =
     (if length args < 2 then Exits 1 []
      else let server_mode = strncmp_eq ''-l'' (args ! 0) 3 in
           if server_mode \<and> length args < 3 then Exits 1 []
           else if server_mode then Proceeds (True, args ! 1, args ! 2)
           else Proceeds (False, args ! 0, args ! 1))"

record native_kernel =
  nk_socket :: "nat reply"
  nk_reuse :: "nat reply"
  nk_bind :: "sock_address \<Rightarrow> nat reply"
  nk_listen :: "nat reply"
  nk_accept :: "nat reply \<times> (nat reply \<times> u32 \<times> int) \<times> (nat reply \<times> u32 \<times> int)"
  nk_connect :: "sock_address \<Rightarrow> nat reply"

text \<open>The socket whose stream is then copied; \<open>resolve\<close> makes the address of a host and a service.\<close>

definition native_socket :: "(string \<Rightarrow> string \<Rightarrow> exn + sock_address) \<Rightarrow> native_kernel \<Rightarrow> bool \<times> string \<times> string \<Rightarrow> exn + file_descriptor" where
  "native_socket resolve k args =
     (let (server_mode, host, port) = args in
      case new_socket (nk_socket k) of
        Inl ex \<Rightarrow> Inl ex
      | Inr fd \<Rightarrow>
          if server_mode then
            case set_reuseaddr (nk_reuse k) of Inl ex \<Rightarrow> Inl ex | Inr _ \<Rightarrow>
            case resolve host port of Inl ex \<Rightarrow> Inl ex | Inr addr \<Rightarrow>
            case sock_bind (nk_bind k addr) of Inl ex \<Rightarrow> Inl ex | Inr _ \<Rightarrow>
            case sock_listen (nk_listen k) of Inl ex \<Rightarrow> Inl ex | Inr _ \<Rightarrow>
            (case nk_accept k of (r, d, t) \<Rightarrow> fst (tcp_accept fd r d t))
          else
            case resolve host port of Inl ex \<Rightarrow> Inl ex | Inr addr \<Rightarrow>
            case sock_connect (nk_connect k addr) of Inl ex \<Rightarrow> Inl ex | Inr _ \<Rightarrow> Inr fd)"

text \<open>An accepted command line never reads past the arguments, and without \<open>-l\<close> it names the peer.\<close>

lemma native_arguments_client:
  "\<lbrakk>\<not> strncmp_eq ''-l'' host 3\<rbrakk> \<Longrightarrow> native_arguments (host # port # more_args) = Proceeds (False, host, port)"
  by (simp add: native_arguments_def)

end
