(* ===== verification/Byte_Stream.thy ===== *)
theory Byte_Stream
  imports Sponge_Prelude
begin

text \<open>
  The class \<open>ByteStream\<close> (src/libsponge/byte_stream.hh and .cc): an in-memory stream of
  bytes with a bounded buffer, counters of the bytes written and read, and an end-of-input
  mark. Every member function is one definition with the prefix \<open>bs_\<close>; the counters are
  64-bit words and wrap as \<open>size_t\<close> does.
\<close>

section \<open>State and operations\<close>

record byte_stream =
  bs_buffer :: bytes
  total_capacity :: u64
  is_input_ended :: bool
  total_written_bytes :: u64
  total_read_bytes :: u64
  is_eof :: bool
  bs_error_flag :: bool

definition new_byte_stream :: "u64 \<Rightarrow> byte_stream" where
  "new_byte_stream capacity =
     \<lparr>bs_buffer = [], total_capacity = capacity, is_input_ended = False,
      total_written_bytes = 0, total_read_bytes = 0, is_eof = False, bs_error_flag = False\<rparr>"

definition bs_remaining_capacity :: "byte_stream \<Rightarrow> u64" where
  "bs_remaining_capacity s = total_capacity s - str_size (bs_buffer s)"

definition bs_write :: "byte_stream \<Rightarrow> bytes \<Rightarrow> byte_stream \<times> u64" where
  "bs_write s data =
     (let cur_capacity = bs_remaining_capacity s;
          (buffer', written_bytes) =
            (if cur_capacity \<le> 0 then (bs_buffer s, 0)
             else if cur_capacity < str_size data
               then (bs_buffer s @ take (unat cur_capacity) data, cur_capacity)
             else (bs_buffer s @ data, str_size data))
      in (s\<lparr>bs_buffer := buffer', total_written_bytes := total_written_bytes s + written_bytes\<rparr>,
          written_bytes))"

definition bs_buffer_size :: "byte_stream \<Rightarrow> u64" where
  "bs_buffer_size s = str_size (bs_buffer s)"

definition bs_buffer_empty :: "byte_stream \<Rightarrow> bool" where
  "bs_buffer_empty s \<longleftrightarrow> bs_buffer s = []"

definition bs_input_ended :: "byte_stream \<Rightarrow> bool" where
  "bs_input_ended s = is_input_ended s"

definition bs_eof :: "byte_stream \<Rightarrow> bool" where
  "bs_eof s = is_eof s"

definition bs_bytes_written :: "byte_stream \<Rightarrow> u64" where
  "bs_bytes_written s = total_written_bytes s"

definition bs_bytes_read :: "byte_stream \<Rightarrow> u64" where
  "bs_bytes_read s = total_read_bytes s"

definition bs_error :: "byte_stream \<Rightarrow> bool" where
  "bs_error s = bs_error_flag s"

definition bs_set_error :: "byte_stream \<Rightarrow> byte_stream" where
  "bs_set_error s = s\<lparr>bs_error_flag := True\<rparr>"

definition bs_peek_output :: "byte_stream \<Rightarrow> u64 \<Rightarrow> bytes" where
  "bs_peek_output s len =
     (if len < bs_buffer_size s then take (unat len) (bs_buffer s) else bs_buffer s)"

definition bs_pop_output :: "byte_stream \<Rightarrow> u64 \<Rightarrow> byte_stream" where
  "bs_pop_output s len =
     (let s1 = (if len < str_size (bs_buffer s)
                then s\<lparr>total_read_bytes := total_read_bytes s + len,
                       bs_buffer := drop (unat len) (bs_buffer s)\<rparr>
                else s\<lparr>total_read_bytes := total_read_bytes s + str_size (bs_buffer s),
                       bs_buffer := []\<rparr>)
      in if bs_input_ended s1
         then s1\<lparr>is_eof := (total_written_bytes s1 = total_read_bytes s1)\<rparr>
         else s1)"

definition bs_read :: "byte_stream \<Rightarrow> u64 \<Rightarrow> byte_stream \<times> bytes" where
  "bs_read s len = (let read_str = bs_peek_output s len in (bs_pop_output s len, read_str))"

definition bs_end_input :: "byte_stream \<Rightarrow> byte_stream" where
  "bs_end_input s =
     s\<lparr>is_input_ended := True, is_eof := (total_written_bytes s = total_read_bytes s)\<rparr>"

section \<open>Well-formedness\<close>

text \<open>
  The buffer fits the capacity, and the counters differ by exactly the bytes buffered (as
  64-bit words, so also after they have wrapped).
\<close>

definition bs_wf :: "byte_stream \<Rightarrow> bool" where
  "bs_wf s \<longleftrightarrow> length (bs_buffer s) \<le> unat (total_capacity s) \<and>
     total_written_bytes s = total_read_bytes s + str_size (bs_buffer s)"

definition bs_room :: "byte_stream \<Rightarrow> nat" where
  "bs_room s = unat (total_capacity s) - length (bs_buffer s)"

lemma bs_wf_new [simp]: "bs_wf (new_byte_stream c)"
  by (simp add: bs_wf_def new_byte_stream_def)

lemma new_byte_stream_simps [simp]:
  "bs_buffer (new_byte_stream c) = []"
  "total_capacity (new_byte_stream c) = c"
  "is_input_ended (new_byte_stream c) = False"
  "total_written_bytes (new_byte_stream c) = 0"
  "total_read_bytes (new_byte_stream c) = 0"
  "is_eof (new_byte_stream c) = False"
  "bs_error_flag (new_byte_stream c) = False"
  by (simp_all add: new_byte_stream_def)

lemma bs_wf_length: "bs_wf s \<Longrightarrow> length (bs_buffer s) < two64"
  using unat_u64_less [of "total_capacity s"] by (simp add: bs_wf_def)

lemma unat_bs_buffer_size [unat_simps]:
  "bs_wf s \<Longrightarrow> unat (bs_buffer_size s) = length (bs_buffer s)"
  by (simp add: bs_buffer_size_def unat_str_size bs_wf_length)

lemma unat_bs_remaining_capacity [unat_simps]:
  "bs_wf s \<Longrightarrow> unat (bs_remaining_capacity s) = bs_room s"
  by (simp add: bs_remaining_capacity_def bs_room_def bs_wf_def unat_simps bs_wf_length
      str_size_def)

section \<open>Behaviour of each operation\<close>

lemma bs_write_eq:
  assumes "bs_wf s" and "length data < two64"
  shows "bs_write s data =
    (let accepted = take (bs_room s) data
     in (s\<lparr>bs_buffer := bs_buffer s @ accepted,
           total_written_bytes := total_written_bytes s + str_size accepted\<rparr>, str_size accepted))"
proof -
  have "bs_remaining_capacity s \<le> 0 \<longleftrightarrow> bs_room s = 0"
    using unat_bs_remaining_capacity [OF assms(1)] by (simp add: word_le_nat_alt)
  moreover have "bs_remaining_capacity s < str_size data \<longleftrightarrow> bs_room s < length data"
    using assms by (simp add: word_less_nat_alt unat_simps)
  moreover have "bs_room s < length data \<Longrightarrow>
      str_size (take (bs_room s) data) = bs_remaining_capacity s"
    using assms by (simp add: word_unat_eq_iff unat_simps)
  ultimately show ?thesis
    using unat_bs_remaining_capacity [OF assms(1)] by (auto simp: bs_write_def Let_def)
qed

lemma bs_write_frame [frame_simps]:
  "total_capacity (fst (bs_write s d)) = total_capacity s"
  "is_input_ended (fst (bs_write s d)) = is_input_ended s"
  "total_read_bytes (fst (bs_write s d)) = total_read_bytes s"
  "is_eof (fst (bs_write s d)) = is_eof s"
  "bs_error_flag (fst (bs_write s d)) = bs_error_flag s"
  by (simp_all add: bs_write_def Let_def split: prod.splits)

lemma bs_peek_output_eq: "bs_wf s \<Longrightarrow> bs_peek_output s n = take (unat n) (bs_buffer s)"
  by (auto simp: bs_peek_output_def word_less_nat_alt unat_simps)

lemma bs_pop_output_eq:
  assumes "bs_wf s"
  shows "bs_pop_output s n =
    s\<lparr>total_read_bytes := total_read_bytes s + str_size (take (unat n) (bs_buffer s)),
      bs_buffer := drop (unat n) (bs_buffer s),
      is_eof := (if is_input_ended s then length (bs_buffer s) \<le> unat n else is_eof s)\<rparr>"
proof -
  let ?b = "bs_buffer s"
  have len: "length ?b < two64"
    using assms by (rule bs_wf_length)
  have lt: "n < str_size ?b \<longleftrightarrow> unat n < length ?b"
    by (simp add: word_less_nat_alt unat_simps len)
  have n: "unat n < length ?b \<Longrightarrow> str_size (take (unat n) ?b) = n"
    by (simp add: str_size_def)
  have W: "total_written_bytes s = total_read_bytes s + str_size ?b"
    using assms by (simp add: bs_wf_def)
  have ne: "unat n < length ?b \<Longrightarrow> str_size ?b \<noteq> n"
    using len by (auto simp: unat_str_size)
  show ?thesis
  proof (cases "unat n < length ?b")
    case True
    then show ?thesis
      using lt n W ne by (simp add: bs_pop_output_def bs_input_ended_def)
  next
    case False
    then show ?thesis
      using lt W by (simp add: bs_pop_output_def bs_input_ended_def)
  qed
qed

lemma bs_read_eq:
  "bs_wf s \<Longrightarrow> bs_read s n = (bs_pop_output s n, take (unat n) (bs_buffer s))"
  by (simp add: bs_read_def bs_peek_output_eq)

lemma bs_pop_output_frame [frame_simps]:
  "total_capacity (bs_pop_output s n) = total_capacity s"
  "is_input_ended (bs_pop_output s n) = is_input_ended s"
  "total_written_bytes (bs_pop_output s n) = total_written_bytes s"
  "bs_error_flag (bs_pop_output s n) = bs_error_flag s"
  by (simp_all add: bs_pop_output_def Let_def bs_input_ended_def)

section \<open>The stream is a bounded byte channel\<close>

datatype bs_ctl = EndInput | SetError

fun bs_control :: "byte_stream \<Rightarrow> bs_ctl \<Rightarrow> byte_stream" where
  "bs_control s EndInput = bs_end_input s"
| "bs_control s SetError = bs_set_error s"

lemma bs_wf_write: "bs_wf s \<Longrightarrow> length d < two64 \<Longrightarrow> bs_wf (fst (bs_write s d))"
  by (auto simp: bs_write_eq Let_def bs_wf_def bs_room_def str_size_append)

lemma bs_wf_pop: "bs_wf s \<Longrightarrow> bs_wf (bs_pop_output s n)"
proof -
  assume s: "bs_wf s"
  have "str_size (bs_buffer s) =
      str_size (take (unat n) (bs_buffer s)) + str_size (drop (unat n) (bs_buffer s))"
    by (metis append_take_drop_id str_size_append)
  with s show ?thesis
    by (auto simp: bs_pop_output_eq bs_wf_def)
qed

lemma bs_wf_control: "bs_wf s \<Longrightarrow> bs_wf (bs_control s c)"
  by (cases c) (auto simp: bs_wf_def bs_end_input_def bs_set_error_def)

interpretation bsq: byte_channel bs_write bs_peek_output bs_pop_output bs_control
  bs_buffer bs_room bs_wf
proof unfold_locales
  fix s :: byte_stream and c
  assume "bs_wf s"
  show "bs_buffer (bs_control s c) = bs_buffer s"
    by (cases c) (simp_all add: bs_end_input_def bs_set_error_def)
  show "bs_room (bs_control s c) = bs_room s"
    by (cases c) (simp_all add: bs_room_def bs_end_input_def bs_set_error_def)
next
  fix s :: byte_stream and n
  assume s: "bs_wf s"
  then show "bs_room (bs_pop_output s n) = bs_room s + min (unat n) (length (bs_buffer s))"
    by (simp add: bs_pop_output_eq bs_room_def bs_wf_def min_def)
qed ((rule bs_wf_write bs_wf_pop bs_wf_control; assumption) | simp add: bs_write_eq Let_def bs_room_def unat_simps bs_peek_output_eq bs_pop_output_eq
    min.commute)+

section \<open>End of file\<close>

text \<open>
  The flag \<open>is_eof\<close> is recomputed by \<open>end_input\<close> and \<open>pop_output\<close> only. As long as
  nothing is written after the end of the input, it says exactly that the input has ended and
  everything has been read.
\<close>

definition bs_eof_exact :: "byte_stream \<Rightarrow> bool" where
  "bs_eof_exact s \<longleftrightarrow> bs_wf s \<and> (is_eof s \<longleftrightarrow> is_input_ended s \<and> bs_buffer s = [])"

fun bs_do :: "byte_stream \<Rightarrow> bs_ctl chan_op \<Rightarrow> byte_stream" where
  "bs_do s (Put d) = fst (bs_write s d)"
| "bs_do s (Take n) = fst (bs_read s n)"
| "bs_do s (Ctl c) = bs_control s c"

fun bs_no_late_write :: "byte_stream \<Rightarrow> bs_ctl chan_op \<Rightarrow> bool" where
  "bs_no_late_write s (Put d) = (length d < two64 \<and> (is_input_ended s \<longrightarrow> d = []))"
| "bs_no_late_write s _ = True"

lemma bs_eof_exact_new: "bs_eof_exact (new_byte_stream c)"
  by (simp add: bs_eof_exact_def)

interpretation bsm: guarded_machine bs_do bs_no_late_write bs_eof_exact
proof
  fix s x
  assume s: "bs_eof_exact s" and ok: "bs_no_late_write s x"
  then have wf: "bs_wf s" by (simp add: bs_eof_exact_def)
  show "bs_eof_exact (bs_do s x)"
  proof (cases x)
    case (Put d)
    then show ?thesis
      using s ok wf bs_wf_write [of s d]
      by (auto simp: bs_eof_exact_def frame_simps bs_write_eq Let_def)
  next
    case (Take n)
    then show ?thesis
      using s bs_wf_pop [OF wf, of n]
      by (auto simp: bs_eof_exact_def bs_read_def bs_pop_output_eq [OF wf])
  next
    case (Ctl c)
    then show ?thesis
      using s bs_wf_control [OF wf, of c] bs_wf_length [OF wf]
      by (cases c) (auto simp: bs_eof_exact_def bs_end_input_def bs_set_error_def bs_wf_def
          str_size_eq_0_iff)
  qed
qed

section \<open>Properties\<close>

text \<open>
  C18. First in, first out: whatever is written, read and signalled on a new stream, the bytes the
  writes accepted are the bytes handed out followed by those still buffered, and never more than
  the capacity is buffered.
\<close>

theorem bs_fifo:
  assumes "\<And>d. Put d \<in> set ops \<Longrightarrow> length d < two64"
    and "chan_run bs_write bs_peek_output bs_pop_output bs_control (new_byte_stream c) ops = (accepted, got, t)"
  shows "accepted = got @ bs_buffer t \<and> length (bs_buffer t) \<le> unat c"
proof -
  from bsq.fifo [OF bs_wf_new assms] have "bs_buffer (new_byte_stream c) @ accepted = got @ bs_buffer t"
    and "bs_room t + length (bs_buffer t) = unat c" by (simp_all add: bs_room_def)
  then show ?thesis by simp
qed

theorem bs_fifo_witness:
  "let t = \<lparr>bs_buffer = [2, 4], total_capacity = 2, is_input_ended = False, total_written_bytes = 3,
            total_read_bytes = 1, is_eof = False, bs_error_flag = False\<rparr>
   in chan_run bs_write bs_peek_output bs_pop_output bs_control (new_byte_stream 2)
        [Put [1, 2, 3], Take 1, Put [4]] = ([1, 2, 4], [1], t) \<and>
      [1, 2, 4] = [1] @ bs_buffer t \<and> length (bs_buffer t) \<le> unat (2 :: u64)"
proof -
  let ?t = "\<lparr>bs_buffer = [2, 4], total_capacity = 2, is_input_ended = False, total_written_bytes = 3,
            total_read_bytes = 1, is_eof = False, bs_error_flag = False\<rparr>"
  have r: "chan_run bs_write bs_peek_output bs_pop_output bs_control (new_byte_stream 2)
      [Put [1, 2, 3], Take 1, Put [4]] = ([1, 2, 4], [1], ?t)" by code_simp
  have "\<And>d. Put d \<in> set [Put [1, 2, 3], Take 1, Put [4] :: bs_ctl chan_op] \<Longrightarrow> length d < two64" by auto
  from bs_fifo [OF this r] r show ?thesis by (simp only: Let_def)
qed

text \<open>
  End of file: after any operations of which none writes after the input has ended,
  \<open>eof()\<close> holds exactly when the input has ended and the buffer is empty.
\<close>

theorem bs_eof_iff_drained:
  assumes "guarded bs_do bs_no_late_write (new_byte_stream c) ops"
  shows "bs_eof (foldl bs_do (new_byte_stream c) ops) \<longleftrightarrow>
    bs_input_ended (foldl bs_do (new_byte_stream c) ops) \<and>
    bs_buffer_empty (foldl bs_do (new_byte_stream c) ops)"
  using bsm.run_inv [OF bs_eof_exact_new assms]
  by (simp add: bs_eof_exact_def bs_eof_def bs_input_ended_def bs_buffer_empty_def)

theorem bs_eof_iff_drained_witness:
  "bs_eof (foldl bs_do (new_byte_stream 4) [Put [7], Ctl EndInput, Take 1]) \<longleftrightarrow>
    bs_input_ended (foldl bs_do (new_byte_stream 4) [Put [7], Ctl EndInput, Take 1]) \<and>
    bs_buffer_empty (foldl bs_do (new_byte_stream 4) [Put [7], Ctl EndInput, Take 1])"
proof -
  have "guarded bs_do bs_no_late_write (new_byte_stream 4) [Put [7], Ctl EndInput, Take 1]"
    by simp
  then show ?thesis by (rule bs_eof_iff_drained)
qed

text \<open>
  The guard is needed: \<open>write\<close> does not look at \<open>_is_input_ended\<close>, so a byte written after
  \<open>end_input\<close> is accepted and buffered while \<open>eof()\<close> already holds.
\<close>

lemma write_after_end_accepted:
  "let s = fst (bs_write (bs_end_input (new_byte_stream 4)) [7])
   in bs_eof s \<and> bs_input_ended s \<and> bs_buffer s = [7]"
  by code_simp

end
