(* ===== verification/Stream_Reassembler.thy ===== *)
theory Stream_Reassembler
  imports Byte_Stream
begin

text \<open>
  The class \<open>StreamReassembler\<close> (src/libsponge/stream_reassembler.hh and .cc): substrings of
  a byte stream arrive out of order and possibly overlapping, are kept in a ring buffer of
  \<open>_capacity\<close> slots, and are moved to the output stream once contiguous.

  The abstract view of the ring buffer is the partial map \<open>ra_pending\<close> from absolute stream
  indices to bytes; \<open>push_substring\<close> is shown to store into that map and then to drain the
  contiguous run at its front.
\<close>

section \<open>State and operations\<close>

record stream_reassembler =
  ra_output :: byte_stream
  ra_capacity :: u64
  unassembled_buffer :: bytes
  occupied :: "bool list"
  seperator :: u64
  first_unassembled_index :: u64
  unassembled_bytes :: u64
  is_eof_data_received :: bool

definition new_stream_reassembler :: "u64 \<Rightarrow> stream_reassembler" where
  "new_stream_reassembler capacity =
     \<lparr>ra_output = new_byte_stream capacity, ra_capacity = capacity,
      unassembled_buffer = replicate (unat capacity) 32, occupied = replicate (unat capacity) False,
      seperator = 0, first_unassembled_index = 0, unassembled_bytes = 0,
      is_eof_data_received = False\<rparr>"

definition ra_unassembled_bytes :: "stream_reassembler \<Rightarrow> u64" where
  "ra_unassembled_bytes s = unassembled_bytes s"

definition ra_empty :: "stream_reassembler \<Rightarrow> bool" where
  "ra_empty s \<longleftrightarrow> unassembled_bytes s = 0 \<and> bs_buffer_empty (ra_output s)"

text \<open>One iteration of the loop of \<open>store_data\<close>, and the loop from \<open>i\<close> to \<open>bound\<close>.\<close>

definition store_byte :: "bytes \<Rightarrow> u64 \<Rightarrow> u64 \<Rightarrow> stream_reassembler \<Rightarrow> stream_reassembler" where
  "store_byte data index i s =
     (let buf_i = unat ((i + index + seperator s - first_unassembled_index s) mod ra_capacity s)
      in s\<lparr>unassembled_bytes := (if occupied s ! buf_i then unassembled_bytes s else unassembled_bytes s + 1),
           unassembled_buffer := (unassembled_buffer s)[buf_i := data ! unat i],
           occupied := (occupied s)[buf_i := True]\<rparr>)"

function store_loop :: "bytes \<Rightarrow> u64 \<Rightarrow> u64 \<Rightarrow> u64 \<Rightarrow> stream_reassembler \<Rightarrow> stream_reassembler" where
  "store_loop data index bound i s =
     (if i < bound then store_loop data index bound (i + 1) (store_byte data index i s) else s)"
  by pat_completeness auto
termination
proof (relation "measure (\<lambda>(data, index, bound, i, s). unat bound - unat i)")
  fix i bound :: u64
  assume "i < bound"
  then have "unat i < unat bound" by (simp add: word_less_nat_alt)
  moreover from this have "unat (i + 1) = unat i + 1"
    using unat_u64_less [of bound] by (simp add: unat_add_u64)
  ultimately show "((data, index, bound, i + 1, s'), data, index, bound, i, s)
      \<in> measure (\<lambda>(data, index, bound, i, s). unat bound - unat i)" for data :: bytes
      and index :: u64 and s s' :: stream_reassembler
    by simp
qed simp

declare store_loop.simps [simp del]

definition store_data :: "stream_reassembler \<Rightarrow> bytes \<Rightarrow> u64 \<Rightarrow> stream_reassembler \<times> u64" where
  "store_data s data index =
     (let bytes_reassembled_but_not_read = bs_buffer_size (ra_output s);
          bytes_can_be_stored = min (str_size data)
            (ra_capacity s - bytes_reassembled_but_not_read - index + first_unassembled_index s);
          begin_i = (if index < first_unassembled_index s then first_unassembled_index s - index else 0)
      in (store_loop data index bytes_can_be_stored begin_i s, bytes_can_be_stored))"

text \<open>
  The loop of \<open>write_to_output\<close>: it frees the occupied slots from \<open>_seperator\<close> on. The test
  \<open>buf_i < length (occupied s)\<close> only fails for capacity 0, where the C++ divides by zero.
\<close>

function collect_loop :: "stream_reassembler \<Rightarrow> bytes \<Rightarrow> u64 \<Rightarrow> stream_reassembler \<times> bytes \<times> u64" where
  "collect_loop s reassembled count =
     (let buf_i = unat ((count + seperator s) mod ra_capacity s)
      in if buf_i < length (occupied s) \<and> occupied s ! buf_i
         then collect_loop
                (s\<lparr>unassembled_buffer := (unassembled_buffer s)[buf_i := 32],
                   occupied := (occupied s)[buf_i := False],
                   unassembled_bytes := unassembled_bytes s - 1\<rparr>)
                (reassembled @ [unassembled_buffer s ! buf_i]) (count + 1)
         else (s, reassembled, count))"
  by pat_completeness auto
termination
proof (relation "measure (\<lambda>(s, reassembled, count). length (filter id (occupied s)))")
  fix s :: stream_reassembler and reassembled :: bytes and count :: u64 and b
  assume "b < length (occupied s) \<and> occupied s ! b"
  then show "((s\<lparr>unassembled_buffer := (unassembled_buffer s)[b := 32],
        occupied := (occupied s)[b := False],
        unassembled_bytes := unassembled_bytes s - 1\<rparr>,
       reassembled @ [unassembled_buffer s ! b], count + 1), s, reassembled, count)
      \<in> measure (\<lambda>(s, reassembled, count). length (filter id (occupied s)))"
    using length_filter_id_update [of b "occupied s" False] by simp
qed simp

declare collect_loop.simps [simp del]

definition write_to_output :: "stream_reassembler \<Rightarrow> stream_reassembler" where
  "write_to_output s =
     (let (s1, reassembled, count) = collect_loop s [] 0
      in s1\<lparr>ra_output := fst (bs_write (ra_output s1) reassembled),
            first_unassembled_index := first_unassembled_index s1 + count,
            seperator := (seperator s1 + count) mod ra_capacity s1\<rparr>)"

definition push_substring :: "stream_reassembler \<Rightarrow> bytes \<Rightarrow> u64 \<Rightarrow> bool \<Rightarrow> stream_reassembler" where
  "push_substring s data index eof =
     (let (s1, stored_bytes) = store_data s data index;
          is_all_stored = (stored_bytes = str_size data);
          s2 = s1\<lparr>is_eof_data_received := is_eof_data_received s1 \<or> (eof \<and> is_all_stored)\<rparr>;
          s3 = write_to_output s2
      in if is_eof_data_received s3 \<and> unassembled_bytes s3 = 0
         then s3\<lparr>ra_output := bs_end_input (ra_output s3)\<rparr>
         else s3)"


section \<open>The ring buffer as a map\<close>

abbreviation cap_of :: "stream_reassembler \<Rightarrow> nat" where
  "cap_of s \<equiv> unat (ra_capacity s)"

abbreviation first_of :: "stream_reassembler \<Rightarrow> nat" where
  "first_of s \<equiv> unat (first_unassembled_index s)"

definition slot :: "stream_reassembler \<Rightarrow> nat \<Rightarrow> nat" where
  "slot s k = (unat (seperator s) + k) mod cap_of s"

definition slot_val :: "stream_reassembler \<Rightarrow> nat \<Rightarrow> u8 option" where
  "slot_val s k = (if occupied s ! slot s k then Some (unassembled_buffer s ! slot s k) else None)"

definition ra_pending :: "stream_reassembler \<Rightarrow> nat \<Rightarrow> u8 option" where
  "ra_pending s n =
     (if first_of s \<le> n \<and> n < first_of s + cap_of s then slot_val s (n - first_of s) else None)"

text \<open>
  The shape of the ring: capacity at least 1 and at most \<open>2^63\<close> (what a \<open>std::vector\<close> can
  hold), vectors of that length, the border inside, and the byte count exact.
\<close>

definition ra_shape :: "stream_reassembler \<Rightarrow> bool" where
  "ra_shape s \<longleftrightarrow> 0 < cap_of s \<and> cap_of s \<le> 9223372036854775808 \<and>
     length (unassembled_buffer s) = cap_of s \<and> length (occupied s) = cap_of s \<and>
     unat (seperator s) < cap_of s \<and>
     unassembled_bytes s = of_nat (length (filter id (occupied s)))"

lemma ra_shapeD:
  assumes "ra_shape s"
  shows "0 < cap_of s" "cap_of s \<le> 9223372036854775808" "length (unassembled_buffer s) = cap_of s"
    "length (occupied s) = cap_of s" "unat (seperator s) < cap_of s"
  using assms by (simp_all add: ra_shape_def)

lemma slot_less: "ra_shape s \<Longrightarrow> slot s k < cap_of s"
  by (simp add: slot_def ra_shape_def)

lemma slot_inj: "ra_shape s \<Longrightarrow> j < cap_of s \<Longrightarrow> k < cap_of s \<Longrightarrow> slot s j = slot s k \<longleftrightarrow> j = k"
  by (auto simp: slot_def ra_shape_def dest: ring_slot_inj)

lemma slot_val_None: "slot_val s k = None \<longleftrightarrow> \<not> occupied s ! slot s k"
  by (simp add: slot_val_def)

subsection \<open>Storing\<close>

lemma store_index:
  assumes s: "ra_shape s" and lo: "first_of s \<le> unat index + unat i"
    and hi: "unat index + unat i < first_of s + cap_of s" and b: "unat index + unat i < two64"
  shows "unat ((i + index + seperator s - first_unassembled_index s) mod ra_capacity s)
    = slot s (unat index + unat i - first_of s)"
proof -
  have 1: "unat (index + i - first_unassembled_index s) = unat index + unat i - first_of s"
    using lo b by (simp add: unat_simps)
  have 2: "i + index + seperator s - first_unassembled_index s
      = seperator s + (index + i - first_unassembled_index s)" by simp
  have "unat (seperator s) + (unat index + unat i - first_of s) < two64"
    using ra_shapeD [OF s] hi lo by linarith
  then have "unat (seperator s + (index + i - first_unassembled_index s))
      = unat (seperator s) + (unat index + unat i - first_of s)"
    using 1 by (simp add: unat_simps)
  then show ?thesis
    unfolding 2 slot_def unat_mod_distrib by simp
qed

lemma store_byte_frame [frame_simps]:
  "ra_output (store_byte d x i s) = ra_output s"
  "ra_capacity (store_byte d x i s) = ra_capacity s"
  "seperator (store_byte d x i s) = seperator s"
  "first_unassembled_index (store_byte d x i s) = first_unassembled_index s"
  "is_eof_data_received (store_byte d x i s) = is_eof_data_received s"
  by (simp_all add: store_byte_def Let_def)

lemma ra_shape_store_byte: 
  assumes "ra_shape s" shows "ra_shape (store_byte d x i s)"
proof -
  let ?b = "unat ((i + x + seperator s - first_unassembled_index s) mod ra_capacity s)"
  have "?b < length (occupied s)"
    using ra_shapeD [OF assms] by (simp add: unat_mod_distrib)
  from length_filter_id_update [OF this, of True] assms show ?thesis
    by (auto simp: ra_shape_def store_byte_def Let_def split: if_splits)
qed

lemma pending_store_byte:
  assumes s: "ra_shape s" and lo: "first_of s \<le> unat index + unat i"
    and hi: "unat index + unat i < first_of s + cap_of s" and b: "unat index + unat i < two64"
  shows "ra_pending (store_byte data index i s) =
    (ra_pending s)(unat index + unat i \<mapsto> data ! unat i)"
proof
  fix n
  let ?s' = "store_byte data index i s" and ?k = "unat index + unat i - first_of s"
  have fr: "slot ?s' = slot s"
    by (simp add: slot_def frame_simps fun_eq_iff)
  have k: "?k < cap_of s" using lo hi by linarith
  have occ: "occupied ?s' = (occupied s)[slot s ?k := True]"
    "unassembled_buffer ?s' = (unassembled_buffer s)[slot s ?k := data ! unat i]"
    unfolding store_byte_def Let_def store_index [OF assms] by simp_all
  have "slot_val ?s' j = (if j = ?k then Some (data ! unat i) else slot_val s j)" if "j < cap_of s" for j
    using slot_inj [OF s k that] slot_less [OF s, of ?k] ra_shapeD [OF s]
    by (auto simp: slot_val_def fr occ nth_list_update)
  then show "ra_pending ?s' n = ((ra_pending s)(unat index + unat i \<mapsto> data ! unat i)) n"
    using lo hi by (auto simp: ra_pending_def frame_simps)
qed

lemma store_loop_frame [frame_simps]:
  "ra_output (store_loop d x b i s) = ra_output s"
  "ra_capacity (store_loop d x b i s) = ra_capacity s"
  "seperator (store_loop d x b i s) = seperator s"
  "first_unassembled_index (store_loop d x b i s) = first_unassembled_index s"
  "is_eof_data_received (store_loop d x b i s) = is_eof_data_received s"
  by (induction d x b i s rule: store_loop.induct; subst store_loop.simps; simp add: frame_simps)+

lemma ra_shape_store_loop: "ra_shape s \<Longrightarrow> ra_shape (store_loop d x b i s)"
  by (induction d x b i s rule: store_loop.induct) (subst store_loop.simps, simp add: ra_shape_store_byte)

lemma pending_store_loop:
  assumes "ra_shape s" "first_of s \<le> unat index + unat i"
    "unat index + unat bound \<le> first_of s + cap_of s" "unat index + unat bound < two64"
    "unat bound \<le> length data"
  shows "ra_pending (store_loop data index bound i s) = (\<lambda>n.
    if unat index + unat i \<le> n \<and> n < unat index + unat bound then Some (data ! (n - unat index))
    else ra_pending s n)"
  using assms
proof (induction data index bound i s rule: store_loop.induct)
  case (1 data index bound i s)
  show ?case
  proof (cases "i < bound")
    case False
    then have "\<not> unat i < unat bound" by (simp add: word_less_nat_alt)
    with False show ?thesis
      by (subst store_loop.simps) (auto simp: fun_eq_iff)
  next
    case True
    then have lt: "unat i < unat bound" by (simp add: word_less_nat_alt)
    then have i1: "unat (i + 1) = unat i + 1"
      using unat_u64_less [of bound] by (simp add: unat_add_u64)
    have IH: "ra_pending (store_loop data index bound (i + 1) (store_byte data index i s)) = (\<lambda>n.
      if unat index + (unat i + 1) \<le> n \<and> n < unat index + unat bound then Some (data ! (n - unat index))
      else ra_pending (store_byte data index i s) n)"
      using "1.IH" [OF True] "1.prems" lt by (simp add: frame_simps ra_shape_store_byte i1)
    have st: "ra_pending (store_byte data index i s) = (ra_pending s)(unat index + unat i \<mapsto> data ! unat i)"
      using "1.prems" lt by (intro pending_store_byte) linarith+
    show ?thesis
      using True IH lt by (subst store_loop.simps) (auto simp: st fun_eq_iff)
  qed
qed

subsection \<open>Draining\<close>

text \<open>
  \<open>collect_loop\<close> started at offset \<open>c\<close> collects the contiguous run of occupied slots from
  \<open>c\<close> on, frees exactly those, and stops at a free slot.
\<close>

definition free_slot :: "stream_reassembler \<Rightarrow> u64 \<Rightarrow> stream_reassembler" where
  "free_slot s count =
     (let buf_i = unat ((count + seperator s) mod ra_capacity s)
      in s\<lparr>unassembled_buffer := (unassembled_buffer s)[buf_i := 32],
           occupied := (occupied s)[buf_i := False],
           unassembled_bytes := unassembled_bytes s - 1\<rparr>)"

lemma collect_index:
  assumes "ra_shape s" "unat count \<le> cap_of s"
  shows "unat ((count + seperator s) mod ra_capacity s) = slot s (unat count)"
proof -
  have "unat (seperator s + count) = unat (seperator s) + unat count"
    using ra_shapeD [OF assms(1)] assms(2) by (intro unat_add_u64) linarith
  then show ?thesis
    unfolding slot_def unat_mod_distrib by (simp add: add.commute)
qed

lemma collect_loop_unfold:
  assumes "ra_shape s" "unat count \<le> cap_of s"
  shows "collect_loop s w count =
    (case slot_val s (unat count) of
       Some x \<Rightarrow> collect_loop (free_slot s count) (w @ [x]) (count + 1)
     | None \<Rightarrow> (s, w, count))"
  using slot_less [OF assms(1), of "unat count"] ra_shapeD(4) [OF assms(1)]
  by (subst collect_loop.simps)
    (simp add: Let_def collect_index [OF assms] slot_val_def free_slot_def)

lemma free_slot_frame [frame_simps]:
  "ra_output (free_slot s c) = ra_output s"
  "ra_capacity (free_slot s c) = ra_capacity s"
  "seperator (free_slot s c) = seperator s"
  "first_unassembled_index (free_slot s c) = first_unassembled_index s"
  "is_eof_data_received (free_slot s c) = is_eof_data_received s"
  by (simp_all add: free_slot_def Let_def)

lemma free_slot:
  assumes s: "ra_shape s" and c: "unat c \<le> cap_of s" and x: "slot_val s (unat c) = Some x"
  shows "ra_shape (free_slot s c)"
    and "slot_val (free_slot s c) k = (if slot s k = slot s (unat c) then None else slot_val s k)"
    and "Suc (length (filter id (occupied (free_slot s c)))) = length (filter id (occupied s))"
proof -
  let ?b = "slot s (unat c)"
  have eq: "free_slot s c = s\<lparr>unassembled_buffer := (unassembled_buffer s)[?b := 32],
      occupied := (occupied s)[?b := False], unassembled_bytes := unassembled_bytes s - 1\<rparr>"
    by (simp add: free_slot_def collect_index [OF s c] Let_def)
  have occ: "occupied s ! ?b" using x by (simp add: slot_val_def split: if_splits)
  have b: "?b < length (occupied s)" using slot_less [OF s] ra_shapeD(4) [OF s] by simp
  from length_filter_id_update [OF b, of False] occ
  show cnt: "Suc (length (filter id (occupied (free_slot s c)))) = length (filter id (occupied s))"
    by (simp add: eq)
  have "unassembled_bytes (free_slot s c) = of_nat (length (filter id (occupied (free_slot s c))))"
    using s unfolding ra_shape_def cnt [symmetric] by (simp add: eq)
  then show "ra_shape (free_slot s c)"
    using s by (simp add: ra_shape_def eq)
  have sl: "slot (free_slot s c) = slot s" by (simp add: slot_def eq fun_eq_iff)
  show "slot_val (free_slot s c) k = (if slot s k = slot s (unat c) then None else slot_val s k)"
    using b ra_shapeD(3,4) [OF s] by (simp add: slot_val_def sl) (auto simp: eq nth_list_update)
qed

lemma slot_free [simp]: "slot (free_slot s c) = slot s"
  by (simp add: slot_def frame_simps fun_eq_iff)

definition collected :: "stream_reassembler \<Rightarrow> nat \<Rightarrow> stream_reassembler \<Rightarrow> bytes \<Rightarrow> bool" where
  "collected s c s' w \<longleftrightarrow> ra_shape s' \<and>
     length (filter id (occupied s)) = length w + length (filter id (occupied s')) \<and>
     (\<forall>j < length w. slot_val s (c + j) = Some (w ! j)) \<and>
     (\<forall>k. slot_val s' k =
        (if \<exists>j < length w. slot s k = slot s (c + j) then None else slot_val s k)) \<and>
     slot_val s' (c + length w) = None \<and>
     ra_output s' = ra_output s \<and> ra_capacity s' = ra_capacity s \<and> seperator s' = seperator s \<and>
     first_unassembled_index s' = first_unassembled_index s \<and>
     is_eof_data_received s' = is_eof_data_received s"

lemma collected_step:
  assumes s: "ra_shape s" and c: "unat c \<le> cap_of s" and x: "slot_val s (unat c) = Some x"
    and col: "collected (free_slot s c) (Suc (unat c)) s' w"
  shows "collected s (unat c) s' (x # w)"
proof -
  note f = free_slot [OF s c x]
  have vals: "slot_val s (unat c + j) = Some ((x # w) ! j)" if "j < length (x # w)" for j
    using x that col by (cases j) (auto simp: collected_def f(2) split: if_splits)
  have freed: "slot_val s' k = (if \<exists>j < length (x # w). slot s k = slot s (unat c + j) then None
      else slot_val s k)" for k
    using col by (auto simp: collected_def f(2) less_Suc_eq_0_disj)
  from col have "slot_val s' (Suc (unat c) + length w) = None"
    unfolding collected_def by blast
  then have stop: "slot_val s' (unat c + length (x # w)) = None" by simp
  from col have "ra_shape s' \<and> ra_output s' = ra_output s \<and> ra_capacity s' = ra_capacity s \<and>
      seperator s' = seperator s \<and> first_unassembled_index s' = first_unassembled_index s \<and>
      is_eof_data_received s' = is_eof_data_received s"
    and "length (filter id (occupied s)) = length (x # w) + length (filter id (occupied s'))"
    using f(3) by (simp_all add: collected_def frame_simps)
  with vals freed stop show ?thesis
    unfolding collected_def by blast
qed

lemma collect_loop_spec:
  assumes "ra_shape s" "unat c + length (filter id (occupied s)) \<le> cap_of s"
  shows "\<exists>s' w. collect_loop s v c = (s', v @ w, c + of_nat (length w)) \<and> collected s (unat c) s' w"
  using assms
proof (induction "length (filter id (occupied s))" arbitrary: s v c rule: less_induct)
  case less
  note s = less.prems(1)
  have c: "unat c \<le> cap_of s" using less.prems(2) by linarith
  show ?case
  proof (cases "slot_val s (unat c)")
    case None
    then have "collect_loop s v c = (s, v @ [], c + of_nat (length []))"
      by (subst collect_loop_unfold [OF s c]) simp
    moreover from None s have "collected s (unat c) s []" by (simp add: collected_def)
    ultimately show ?thesis by blast
  next
    case (Some x)
    note f = free_slot [OF s c Some]
    have "unat c + 1 \<le> cap_of s" using f(3) less.prems(2) by linarith
    then have c1: "unat (c + 1) = Suc (unat c)"
      using ra_shapeD(2) [OF s] by (simp add: unat_add_u64)
    have "length (filter id (occupied (free_slot s c))) < length (filter id (occupied s))"
      and "unat (c + 1) + length (filter id (occupied (free_slot s c))) \<le> cap_of (free_slot s c)"
      using f(3) less.prems(2) c1 by (simp_all add: frame_simps)
    from less.hyps [OF this(1) f(1) this(2), of "v @ [x]"] obtain s' w where
      "collect_loop (free_slot s c) (v @ [x]) (c + 1) = (s', (v @ [x]) @ w, (c + 1) + of_nat (length w))"
      and col: "collected (free_slot s c) (Suc (unat c)) s' w"
      unfolding c1 by blast
    then have "collect_loop s v c = (s', v @ (x # w), c + of_nat (length (x # w)))"
      by (subst collect_loop_unfold [OF s c]) (simp add: Some algebra_simps)
    with collected_step [OF s c Some col] show ?thesis by blast
  qed
qed


lemma slot_shift: "slot s (j + k) = (slot s j + k) mod cap_of s"
  by (simp add: slot_def mod_add_left_eq add.assoc)

lemma slot_wrap: "cap_of s \<le> k \<Longrightarrow> slot s k = slot s (k - cap_of s)"
  using slot_shift [of s "k - cap_of s" "cap_of s"] by (simp add: slot_def)

lemma pending_slot: "k < cap_of s \<Longrightarrow> ra_pending s (first_of s + k) = slot_val s k"
  by (simp add: ra_pending_def)

text \<open>Where the room for pending bytes ends: the first index beyond the capacity.\<close>

definition window_end :: "stream_reassembler \<Rightarrow> nat" where
  "window_end s = first_of s + bs_room (ra_output s)"

definition ra_fit :: "stream_reassembler \<Rightarrow> bool" where
  "ra_fit s \<longleftrightarrow> ra_shape s \<and> bs_wf (ra_output s) \<and> total_capacity (ra_output s) = ra_capacity s \<and>
     total_written_bytes (ra_output s) = first_unassembled_index s \<and>
     (\<forall>n. ra_pending s n \<noteq> None \<longrightarrow> n < window_end s)"

definition sp_drained :: "nat \<Rightarrow> (nat \<Rightarrow> u8 option) \<Rightarrow> bytes \<Rightarrow> bool" where
  "sp_drained f p w \<longleftrightarrow> (\<forall>j < length w. p (f + j) = Some (w ! j)) \<and> p (f + length w) = None"

definition sp_store :: "nat \<Rightarrow> nat \<Rightarrow> (nat \<Rightarrow> u8 option) \<Rightarrow> bytes \<Rightarrow> nat \<Rightarrow> nat \<Rightarrow> u8 option" where
  "sp_store f lim p data index = (\<lambda>n.
     if f \<le> n \<and> index \<le> n \<and> n < index + length data \<and> n < lim then Some (data ! (n - index)) else p n)"

definition sp_drop :: "nat \<Rightarrow> (nat \<Rightarrow> u8 option) \<Rightarrow> nat \<Rightarrow> u8 option" where
  "sp_drop f p = (\<lambda>n. if n < f then None else p n)"

lemma collected_pending:
  assumes s: "ra_shape s" and col: "collected s 0 s1 w"
  shows "length w \<le> cap_of s" "sp_drained (first_of s) (ra_pending s) w"
    "cap_of t = cap_of s \<Longrightarrow> slot t = (\<lambda>k. slot s (length w + k)) \<Longrightarrow>
     occupied t = occupied s1 \<Longrightarrow> unassembled_buffer t = unassembled_buffer s1 \<Longrightarrow>
     first_of t = first_of s + length w \<Longrightarrow>
     ra_pending t = sp_drop (first_of s + length w) (ra_pending s)"
proof -
  have "length (filter id (occupied s)) \<le> cap_of s"
    using ra_shapeD(4) [OF s] length_filter_le [of id "occupied s"] by simp
  with col show len: "length w \<le> cap_of s" by (simp add: collected_def)
  have val: "slot_val s j = Some (w ! j)" if "j < length w" for j
    using col that by (simp add: collected_def)
  have freed: "slot_val s1 k = (if \<exists>j < length w. slot s k = slot s j then None else slot_val s k)" for k
    using col by (simp add: collected_def)
  have stop: "slot_val s1 (length w) = None"
    using col unfolding collected_def by fastforce
  have "ra_pending s (first_of s + length w) = None"
  proof (cases "length w < cap_of s")
    case True
    then have "\<not> (\<exists>j < length w. slot s (length w) = slot s j)"
      using slot_inj [OF s True] by (metis less_irrefl less_trans)
    with stop have "slot_val s (length w) = None"
      unfolding freed by simp
    with True show ?thesis by (simp add: pending_slot)
  qed (simp add: ra_pending_def)
  with val len show "sp_drained (first_of s) (ra_pending s) w"
    by (simp add: sp_drained_def pending_slot)
  assume t: "cap_of t = cap_of s" "slot t = (\<lambda>k. slot s (length w + k))"
    "occupied t = occupied s1" "unassembled_buffer t = unassembled_buffer s1"
    "first_of t = first_of s + length w"
  have sl1: "slot s1 = slot s" using col by (simp add: collected_def slot_def fun_eq_iff)
  have tv: "slot_val t k = slot_val s1 (length w + k)" for k
    by (simp add: slot_val_def t sl1)
  show "ra_pending t = sp_drop (first_of s + length w) (ra_pending s)"
  proof
    fix n
    consider "n < first_of s + length w" | "first_of s + length w \<le> n" "n < first_of s + cap_of s"
      | "first_of s + cap_of s \<le> n" "n < first_of s + length w + cap_of s"
      | "first_of s + length w + cap_of s \<le> n" by linarith
    then show "ra_pending t n = sp_drop (first_of s + length w) (ra_pending s) n"
    proof cases
      case 2
      then have k: "n - first_of s < cap_of s" by linarith
      have "slot s (n - first_of s) \<noteq> slot s j" if "j < length w" for j
      proof -
        have "j < cap_of s" "n - first_of s \<noteq> j" using that len 2 by linarith+
        with slot_inj [OF s k] show ?thesis by simp
      qed
      then have "\<not> (\<exists>j < length w. slot s (n - first_of s) = slot s j)" by blast
      then have "slot_val s1 (n - first_of s) = slot_val s (n - first_of s)"
        unfolding freed by (simp only: if_False)
      with 2 show ?thesis by (simp add: ra_pending_def sp_drop_def t tv)
    next
      case 3
      have "slot s (n - first_of s) = slot s (n - first_of s - cap_of s)"
        using 3 by (intro slot_wrap) linarith
      moreover have "n - first_of s - cap_of s < length w" using 3 by linarith
      ultimately have "slot_val s1 (n - first_of s) = None"
        unfolding freed by auto
      with 3 len show ?thesis by (simp add: ra_pending_def sp_drop_def t tv)
    qed (use len in \<open>simp_all add: ra_pending_def sp_drop_def t\<close>)
  qed
qed


lemma write_to_output_spec:
  assumes fit: "ra_fit s" and big: "first_of s + cap_of s < two64"
  shows "\<exists>w. sp_drained (first_of s) (ra_pending s) w \<and> length w \<le> bs_room (ra_output s) \<and>
    ra_output (write_to_output s) = fst (bs_write (ra_output s) w) \<and>
    first_of (write_to_output s) = first_of s + length w \<and>
    ra_pending (write_to_output s) = sp_drop (first_of s + length w) (ra_pending s) \<and>
    ra_shape (write_to_output s) \<and> ra_capacity (write_to_output s) = ra_capacity s \<and>
    is_eof_data_received (write_to_output s) = is_eof_data_received s \<and>
    first_unassembled_index (write_to_output s) = first_unassembled_index s + str_size w"
proof -
  from fit have s: "ra_shape s" by (simp add: ra_fit_def)
  have "unat (0 :: u64) + length (filter id (occupied s)) \<le> cap_of s"
    using ra_shapeD(4) [OF s] length_filter_le [of id "occupied s"] by simp
  from collect_loop_spec [OF s this, of "[]"] obtain s1 w where
    cl: "collect_loop s [] 0 = (s1, w, of_nat (length w))" and col: "collected s 0 s1 w" by auto
  note p = collected_pending [OF s col]
  let ?t = "write_to_output s"
  have t: "?t = s1\<lparr>ra_output := fst (bs_write (ra_output s) w),
      first_unassembled_index := first_unassembled_index s + of_nat (length w),
      seperator := (seperator s + of_nat (length w)) mod ra_capacity s\<rparr>"
    using cl col by (simp add: write_to_output_def collected_def)
  have n: "unat (of_nat (length w) :: u64) = length w"
    using p(1) big by (intro unat_of_nat_u64) linarith
  have f: "first_of ?t = first_of s + length w"
    using p(1) big by (simp add: t unat_add_u64 n)
  have "unat (seperator s + of_nat (length w)) = unat (seperator s) + length w"
    using ra_shapeD [OF s] p(1) n by (subst unat_add_u64) (auto simp: n)
  then have sep: "unat (seperator ?t) = slot s (length w)"
    by (simp add: t unat_mod_distrib slot_def)
  have cap: "ra_capacity ?t = ra_capacity s" using col by (simp add: t collected_def)
  have sl: "slot ?t = (\<lambda>k. slot s (length w + k))"
    by (simp add: slot_shift fun_eq_iff slot_def [of ?t] sep cap)
  have pend: "ra_pending ?t = sp_drop (first_of s + length w) (ra_pending s)"
    by (rule p(3)) (simp_all add: cap sl f, simp_all add: t)
  have "length w \<le> bs_room (ra_output s)"
  proof (rule ccontr)
    assume "\<not> ?thesis"
    then have "ra_pending s (first_of s + bs_room (ra_output s)) \<noteq> None"
      using p(2) by (simp add: sp_drained_def)
    with fit show False by (auto simp: ra_fit_def window_end_def)
  qed
  moreover have "ra_shape ?t"
    using col slot_less [OF s, of "length w"] cap sep
    by (auto simp: collected_def ra_shape_def) (simp_all add: t)
  ultimately show ?thesis
    using p(2) f pend cap col by (intro exI [of _ w]) (simp add: t collected_def str_size_def)
qed

section \<open>Pushing a substring\<close>

text \<open>
  The well-formed states between calls, and the condition under which the subtraction in
  \<open>store_data\<close> does not wrap: the substring starts no later than the end of the window.
\<close>

definition ra_wf :: "stream_reassembler \<Rightarrow> bool" where
  "ra_wf s \<longleftrightarrow> ra_fit s \<and> ra_pending s (first_of s) = None"

definition in_window :: "stream_reassembler \<Rightarrow> u64 \<Rightarrow> bool" where
  "in_window s index \<longleftrightarrow> unat index \<le> window_end s"

definition push_ok :: "stream_reassembler \<Rightarrow> bytes \<Rightarrow> u64 \<Rightarrow> bool" where
  "push_ok s data index \<longleftrightarrow> in_window s index \<and> unat index + length data < two64 \<and>
     first_of s + cap_of s < two64"

lemma ra_fit_room:
  assumes "ra_fit s" shows "bs_room (ra_output s) + length (bs_buffer (ra_output s)) = cap_of s"
  using assms by (auto simp: ra_fit_def bs_room_def bs_wf_def)

lemma store_data_spec:
  assumes fit: "ra_fit s" and ok: "push_ok s data index"
  shows "ra_fit (fst (store_data s data index))"
    "ra_pending (fst (store_data s data index))
      = sp_store (first_of s) (window_end s) (ra_pending s) data (unat index)"
    "snd (store_data s data index) = str_size data \<longleftrightarrow> unat index + length data \<le> window_end s"
    "ra_output (fst (store_data s data index)) = ra_output s"
    "ra_capacity (fst (store_data s data index)) = ra_capacity s"
    "first_unassembled_index (fst (store_data s data index)) = first_unassembled_index s"
    "is_eof_data_received (fst (store_data s data index)) = is_eof_data_received s"
proof -
  let ?lim = "ra_capacity s - bs_buffer_size (ra_output s) - index + first_unassembled_index s"
  let ?bound = "min (str_size data) ?lim"
  let ?start = "if index < first_unassembled_index s then first_unassembled_index s - index else 0"
  have s: "ra_shape s" and bs: "bs_wf (ra_output s)" using fit by (simp_all add: ra_fit_def)
  note room = ra_fit_room [OF fit]
  from ok have w: "unat index \<le> window_end s" and l: "unat index + length data < two64"
    and big: "first_of s + cap_of s < two64"
    by (simp_all add: push_ok_def in_window_def)
  have "unat (ra_capacity s - bs_buffer_size (ra_output s)) = bs_room (ra_output s)"
    using room bs by (simp add: unat_simps)
  then have "unat (ra_capacity s - bs_buffer_size (ra_output s) + first_unassembled_index s) = window_end s"
    using room big by (simp add: unat_add_u64 window_end_def)
  then have "unat (ra_capacity s - bs_buffer_size (ra_output s) + first_unassembled_index s - index)
      = window_end s - unat index"
    using w by (simp add: unat_sub_u64)
  moreover have "?lim = ra_capacity s - bs_buffer_size (ra_output s) + first_unassembled_index s - index"
    by simp
  ultimately have lim: "unat ?lim = window_end s - unat index" by (simp only:)
  have dl: "unat (str_size data) = length data" using l by (simp add: unat_str_size)
  have bound: "unat ?bound = min (length data) (window_end s - unat index)"
    using lim dl by (simp add: min_def word_le_nat_alt)
  have "\<not> index < first_unassembled_index s \<Longrightarrow> first_of s \<le> unat index"
    "index < first_unassembled_index s \<Longrightarrow> unat index \<le> first_of s"
    by (simp_all add: word_less_nat_alt)
  then have beg: "unat index + unat ?start = max (first_of s) (unat index)"
    by (simp add: unat_sub_u64)
  have st: "store_data s data index = (store_loop data index ?bound ?start s, ?bound)"
    by (simp add: store_data_def Let_def)
  have pend: "ra_pending (store_loop data index ?bound ?start s) = (\<lambda>n.
      if unat index + unat ?start \<le> n \<and> n < unat index + unat ?bound
      then Some (data ! (n - unat index)) else ra_pending s n)"
    using s beg bound w l room unfolding window_end_def by (intro pending_store_loop) auto
  show p: "ra_pending (fst (store_data s data index))
      = sp_store (first_of s) (window_end s) (ra_pending s) data (unat index)"
    unfolding st fst_conv pend beg bound sp_store_def using w by (auto simp: fun_eq_iff)
  show "snd (store_data s data index) = str_size data \<longleftrightarrow> unat index + length data \<le> window_end s"
    using w by (auto simp: st word_unat_eq_iff bound dl)
  show out: "ra_output (fst (store_data s data index)) = ra_output s"
    and cap: "ra_capacity (fst (store_data s data index)) = ra_capacity s"
    and fst: "first_unassembled_index (fst (store_data s data index)) = first_unassembled_index s"
    and "is_eof_data_received (fst (store_data s data index)) = is_eof_data_received s"
    by (simp_all add: st frame_simps)
  have "ra_shape (fst (store_data s data index))"
    using s by (simp add: st ra_shape_store_loop)
  with fit show "ra_fit (fst (store_data s data index))"
    unfolding ra_fit_def window_end_def out cap fst p by (auto simp: sp_store_def split: if_splits)
qed


text \<open>The byte count is the number of pending indices: a byte pushed twice counts once.\<close>

lemma unassembled_count:
  assumes s: "ra_shape s"
  shows "unat (unassembled_bytes s) = card (dom (ra_pending s))"
proof -
  let ?K = "{k. k < cap_of s \<and> occupied s ! slot s k}"
  have "slot s ` {..< cap_of s} = {..< cap_of s}"
    by (rule endo_inj_surj) (auto simp: slot_less [OF s] inj_on_def slot_inj [OF s])
  then have "\<exists>k < cap_of s. b = slot s k" if "b < cap_of s" for b
    using that by (metis imageE lessThan_iff)
  then have "slot s ` ?K = {b. b < cap_of s \<and> occupied s ! b}"
    using slot_less [OF s] by blast
  moreover have "inj_on (slot s) ?K"
    by (auto simp: inj_on_def slot_inj [OF s])
  ultimately have "card {b. b < cap_of s \<and> occupied s ! b} = card ?K"
    using card_image [of "slot s" ?K] by simp
  moreover have "dom (ra_pending s) = (+) (first_of s) ` ?K"
  proof (intro equalityI subsetI)
    fix n assume "n \<in> dom (ra_pending s)"
    then have "n = first_of s + (n - first_of s)" "n - first_of s \<in> ?K"
      by (auto simp: ra_pending_def slot_val_def split: if_splits)
    then show "n \<in> (+) (first_of s) ` ?K" by blast
  qed (auto simp: pending_slot slot_val_def)
  ultimately have "card (dom (ra_pending s)) = length (filter id (occupied s))"
    using ra_shapeD(4) [OF s] by (simp add: card_image length_filter_conv_card)
  moreover have "length (filter id (occupied s)) \<le> cap_of s"
    using ra_shapeD(4) [OF s] length_filter_le [of id "occupied s"] by simp
  ultimately show ?thesis
    using s by (simp add: ra_shape_def unat_of_nat_u64_le)
qed

lemma finite_pending: "finite (dom (ra_pending s))"
  by (rule finite_subset [of _ "{first_of s ..< first_of s + cap_of s}"])
    (auto simp: ra_pending_def split: if_splits)

lemma unassembled_zero:
  "ra_shape s \<Longrightarrow> unassembled_bytes s = 0 \<longleftrightarrow> ra_pending s = Map.empty"
  using unassembled_count [of s] finite_pending [of s]
  by (auto simp: unat_eq_0 [symmetric])

lemma ra_pending_cong:
  "\<lbrakk>ra_capacity t = ra_capacity s; seperator t = seperator s; occupied t = occupied s;
    unassembled_buffer t = unassembled_buffer s; first_unassembled_index t = first_unassembled_index s\<rbrakk>
   \<Longrightarrow> ra_pending t = ra_pending s"
  by (simp add: ra_pending_def slot_val_def slot_def fun_eq_iff)

definition ra_pushed :: "stream_reassembler \<Rightarrow> bytes \<Rightarrow> u64 \<Rightarrow> bool \<Rightarrow> stream_reassembler \<Rightarrow> bytes \<Rightarrow> bool" where
  "ra_pushed s data index eof t w \<longleftrightarrow>
     (let p = sp_store (first_of s) (window_end s) (ra_pending s) data (unat index);
          e = (is_eof_data_received s \<or> eof \<and> unat index + length data \<le> window_end s)
      in sp_drained (first_of s) p w \<and>
         ra_pending t = sp_drop (first_of s + length w) p \<and>
         first_of t = first_of s + length w \<and>
         bs_buffer (ra_output t) = bs_buffer (ra_output s) @ w \<and>
         total_read_bytes (ra_output t) = total_read_bytes (ra_output s) \<and>
         ra_capacity t = ra_capacity s \<and>
         bs_error_flag (ra_output t) = bs_error_flag (ra_output s) \<and>
         is_eof_data_received t = e \<and>
         is_input_ended (ra_output t) =
           (is_input_ended (ra_output s) \<or> e \<and> ra_pending t = Map.empty))"

lemma push_substring_spec:
  assumes wf: "ra_wf s" and ok: "push_ok s data index"
  shows "ra_wf (push_substring s data index eof) \<and>
    (\<exists>w. ra_pushed s data index eof (push_substring s data index eof) w)"
proof -
  have fit: "ra_fit s" using wf by (simp add: ra_wf_def)
  note st = store_data_spec [OF fit ok]
  let ?s1 = "fst (store_data s data index)"
  let ?e = "is_eof_data_received s \<or> eof \<and> unat index + length data \<le> window_end s"
  define s2 where "s2 = ?s1\<lparr>is_eof_data_received := ?e\<rparr>"
  define s3 where "s3 = write_to_output s2"
  have p2: "ra_pending s2 = ra_pending ?s1" by (rule ra_pending_cong) (simp_all add: s2_def)
  have fr2: "ra_output s2 = ra_output s" "ra_capacity s2 = ra_capacity s"
    "first_unassembled_index s2 = first_unassembled_index s" "is_eof_data_received s2 = ?e"
    by (simp_all add: s2_def st(4-6))
  have we2: "window_end s2 = window_end s" by (simp add: window_end_def fr2)
  have "ra_shape s2 = ra_shape ?s1" by (simp add: ra_shape_def s2_def)
  then have fit2: "ra_fit s2"
    using st(1) p2 by (simp add: ra_fit_def window_end_def fr2 st(4-6))
  have "first_of s2 + cap_of s2 < two64" using ok by (simp add: fr2 push_ok_def)
  from write_to_output_spec [OF fit2 this] obtain w where
    w: "sp_drained (first_of s2) (ra_pending s2) w" "length w \<le> bs_room (ra_output s2)"
      "ra_output s3 = fst (bs_write (ra_output s2) w)" "first_of s3 = first_of s2 + length w"
      "ra_pending s3 = sp_drop (first_of s2 + length w) (ra_pending s2)" "ra_shape s3"
      "ra_capacity s3 = ra_capacity s2" "is_eof_data_received s3 = is_eof_data_received s2"
      "first_unassembled_index s3 = first_unassembled_index s2 + str_size w"
    unfolding s3_def by blast
  define t where "t = (if is_eof_data_received s3 \<and> unassembled_bytes s3 = 0
    then s3\<lparr>ra_output := bs_end_input (ra_output s3)\<rparr> else s3)"
  have push: "push_substring s data index eof = t"
    unfolding push_substring_def t_def s3_def s2_def
    by (simp add: Let_def split_beta st(3,7))
  have bs2: "bs_wf (ra_output s2)" using fit2 by (simp add: ra_fit_def)
  have "length w < two64" using w(2) unat_u64_less [of "total_capacity (ra_output s2)"]
    unfolding bs_room_def by linarith
  note wr = bs_write_eq [OF bs2 this] bs_wf_write [OF bs2 this]
  have out3: "ra_output s3 = (ra_output s)\<lparr>bs_buffer := bs_buffer (ra_output s) @ w,
      total_written_bytes := total_written_bytes (ra_output s) + str_size w\<rparr>"
    using wr(1) w(2,3) by (simp add: Let_def fr2)
  have bs3: "bs_wf (ra_output s3)" using wr(2) w(3) by simp
  have pt: "ra_pending t = ra_pending s3" by (rule ra_pending_cong) (simp_all add: t_def)
  have outt: "ra_output t = (if ?e \<and> ra_pending t = Map.empty
      then bs_end_input (ra_output s3) else ra_output s3)"
    unfolding pt using w(8) fr2(4) unassembled_zero [OF w(6)] by (simp add: t_def)
  have frt: "ra_capacity t = ra_capacity s" "first_unassembled_index t = first_unassembled_index s3"
    "is_eof_data_received t = ?e" "ra_shape t"
    using w(6,7,8) fr2 by (simp_all add: t_def ra_shape_def)
  have pushed: "ra_pushed s data index eof t w"
    unfolding ra_pushed_def Let_def
    using w(1,4,5) frt by (auto simp: p2 st(2) fr2 pt outt out3 bs_end_input_def)
  have room3: "bs_room (ra_output s3) = bs_room (ra_output s2) - length w"
    using wr(1) w(3) bsq.put_room [OF bs2 \<open>length w < two64\<close>] by simp
  moreover have "bs_room (ra_output t) = bs_room (ra_output s3)"
    by (simp add: outt bs_end_input_def bs_room_def)
  ultimately have we3: "window_end t = window_end s2"
    using w(2,4) frt(2) by (simp add: window_end_def)
  have "ra_fit t"
    unfolding ra_fit_def we3
    using frt bs3 w(5,7,9) fit2 bs_wf_control [OF bs3, of EndInput]
    by (auto simp: pt outt out3 sp_drop_def ra_fit_def fr2 bs_end_input_def split: if_splits)
  moreover have "ra_pending t (first_of t) = None"
    using w(1,4,5) frt(2) by (simp add: pt sp_drop_def sp_drained_def)
  ultimately show ?thesis
    using pushed push by (auto simp: ra_wf_def)
qed


lemma ra_wf_new:
  assumes "0 < unat c" "unat c \<le> 9223372036854775808"
  shows "ra_wf (new_stream_reassembler c)" and "ra_pending (new_stream_reassembler c) = Map.empty"
proof -
  let ?s = "new_stream_reassembler c"
  have sh: "ra_shape ?s" using assms by (simp add: ra_shape_def new_stream_reassembler_def)
  then show p: "ra_pending ?s = Map.empty"
    using unassembled_zero [OF sh] by (simp add: new_stream_reassembler_def)
  then show "ra_wf ?s"
    using sh by (simp add: ra_wf_def ra_fit_def) (simp add: new_stream_reassembler_def)
qed

section \<open>Reading from the output stream\<close>

text \<open>The owner reads through \<open>stream_out()\<close>; nothing else of the reassembler changes.\<close>

definition ra_read_out :: "stream_reassembler \<Rightarrow> u64 \<Rightarrow> stream_reassembler \<times> bytes" where
  "ra_read_out s n = (let (out, got) = bs_read (ra_output s) n in (s\<lparr>ra_output := out\<rparr>, got))"

lemma ra_wf_read_out:
  assumes "ra_wf s"
  shows "ra_wf (fst (ra_read_out s n))"
    "ra_pending (fst (ra_read_out s n)) = ra_pending s"
    "first_unassembled_index (fst (ra_read_out s n)) = first_unassembled_index s"
    "ra_capacity (fst (ra_read_out s n)) = ra_capacity s"
    "snd (ra_read_out s n) @ bs_buffer (ra_output (fst (ra_read_out s n))) = bs_buffer (ra_output s)"
proof -
  let ?o = "ra_output s" and ?t = "fst (ra_read_out s n)"
  have bs: "bs_wf ?o" using assms by (simp add: ra_wf_def ra_fit_def)
  have t: "?t = s\<lparr>ra_output := bs_pop_output ?o n\<rparr>"
    by (simp add: ra_read_out_def bs_read_def)
  show p: "ra_pending ?t = ra_pending s"
    by (rule ra_pending_cong) (simp_all add: t)
  show "first_unassembled_index ?t = first_unassembled_index s" "ra_capacity ?t = ra_capacity s"
    by (simp_all add: t)
  show "snd (ra_read_out s n) @ bs_buffer (ra_output ?t) = bs_buffer ?o"
    using bs by (simp add: ra_read_out_def bs_read_def bs_peek_output_eq bs_pop_output_eq)
  have we: "window_end s \<le> window_end ?t"
    using bsq.pop_room [OF bs, of n] by (simp add: window_end_def t)
  have sh: "ra_shape ?t = ra_shape s" by (simp add: ra_shape_def t)
  show "ra_wf ?t"
    using assms we bs_wf_pop [OF bs, of n]
    by (auto simp: ra_wf_def ra_fit_def p sh dest: order.strict_trans2)
      (simp_all add: t frame_simps)
qed

section \<open>Every run delivers a prefix of the stream\<close>

datatype ra_op = Push bytes u64 bool | ReadOut u64

fun ra_exec :: "stream_reassembler \<times> bytes \<Rightarrow> ra_op \<Rightarrow> stream_reassembler \<times> bytes" where
  "ra_exec (s, got) (Push data index eof) = (push_substring s data index eof, got)"
| "ra_exec (s, got) (ReadOut n) = (let (s', out) = ra_read_out s n in (s', got @ out))"

text \<open>A push is genuine for a stream if it carries the bytes the stream has at that index.\<close>

fun ra_genuine :: "bytes \<Rightarrow> stream_reassembler \<times> bytes \<Rightarrow> ra_op \<Rightarrow> bool" where
  "ra_genuine S (s, got) (Push data index eof) = (slice_of S data (unat index) \<and> in_window s index)"
| "ra_genuine S (s, got) (ReadOut n) = True"

definition ra_tracks :: "bytes \<Rightarrow> stream_reassembler \<times> bytes \<Rightarrow> bool" where
  "ra_tracks S = (\<lambda>(s, got). ra_wf s \<and> length S + cap_of s < two64 \<and> first_of s \<le> length S \<and>
     got @ bs_buffer (ra_output s) = take (first_of s) S \<and>
     (\<forall>n b. ra_pending s n = Some b \<longrightarrow> n < length S \<and> S ! n = b))"

lemma ra_tracks_push:
  assumes tr: "ra_tracks S (s, got)" and sl: "slice_of S data (unat index)" and win: "in_window s index"
  shows "ra_tracks S (push_substring s data index eof, got)"
proof -
  let ?t = "push_substring s data index eof"
  from tr have wf: "ra_wf s" and big: "length S + cap_of s < two64" and f: "first_of s \<le> length S"
    and got: "got @ bs_buffer (ra_output s) = take (first_of s) S"
    and pend: "\<And>n b. ra_pending s n = Some b \<Longrightarrow> n < length S \<and> S ! n = b"
    by (auto simp: ra_tracks_def)
  let ?p = "sp_store (first_of s) (window_end s) (ra_pending s) data (unat index)"
  have p: "n < length S \<and> S ! n = b" if "?p n = Some b" for n b
    using that pend sl slice_of_nth [OF sl, of "n - unat index"]
    by (auto simp: sp_store_def slice_of_def split: if_splits)
  have "push_ok s data index"
    using win sl big f by (auto simp: push_ok_def slice_of_def)
  from push_substring_spec [OF wf this, of eof] obtain w where wf': "ra_wf ?t"
    and w: "ra_pushed s data index eof ?t w" by blast
  have val: "first_of s + j < length S \<and> S ! (first_of s + j) = w ! j" if "j < length w" for j
    using w that p by (simp add: ra_pushed_def Let_def sp_drained_def)
  have len: "first_of s + length w \<le> length S"
    using val [of "length w - 1"] f by (cases w) auto
  have "w = take (length w) (drop (first_of s) S)"
    using val len by (intro nth_equalityI) auto
  then have "take (first_of s + length w) S = take (first_of s) S @ w"
    by (simp add: take_add)
  then show ?thesis
    using wf' w big len got p unfolding ra_tracks_def ra_pushed_def Let_def
    by (auto simp: sp_drop_def split: if_splits)
qed

text \<open>An empty push that is not the last does not depend on its index.\<close>

lemma push_empty: "push_substring s [] i False = push_substring s [] j False"
proof -
  have "store_data s [] k = (s, 0)" for k
    by (simp add: store_data_def Let_def) (simp add: store_loop.simps)
  then show ?thesis by (simp add: push_substring_def)
qed

lemma ra_tracks_push_empty:
  assumes "ra_tracks S (s, got)"
  shows "ra_tracks S (push_substring s [] i False, got)"
proof -
  have "ra_tracks S (push_substring s [] (first_unassembled_index s) False, got)"
    using assms by (intro ra_tracks_push) (auto simp: ra_tracks_def in_window_def window_end_def)
  then show ?thesis using push_empty by metis
qed

interpretation ram: guarded_machine ra_exec "ra_genuine S" "ra_tracks S" for S
proof
  fix st x
  assume tr: "ra_tracks S st" and ok: "ra_genuine S st x"
  obtain s got where st: "st = (s, got)" by fastforce
  show "ra_tracks S (ra_exec st x)"
  proof (cases x)
    case (Push data index eof)
    then show ?thesis
      using tr ok ra_tracks_push by (simp add: st)
  next
    case (ReadOut n)
    have "ra_wf s" using tr by (simp add: st ra_tracks_def)
    note r = ra_wf_read_out [OF this, of n]
    have "got @ (snd (ra_read_out s n) @ bs_buffer (ra_output (fst (ra_read_out s n)))) = take (first_of s) S"
      unfolding r(5) using tr by (simp add: st ra_tracks_def)
    then show ?thesis
      using tr r ReadOut by (simp add: st ra_tracks_def split_beta)
  qed
qed

lemma ra_tracks_new:
  "0 < unat c \<Longrightarrow> unat c \<le> 9223372036854775808 \<Longrightarrow> length S + unat c < two64 \<Longrightarrow>
   ra_tracks S (new_stream_reassembler c, [])"
  using ra_wf_new [of c] by (simp add: ra_tracks_def) (simp add: new_stream_reassembler_def)

section \<open>The input ends exactly at the end of the stream\<close>

text \<open>
  A push marked as the last one must carry the last byte, or, when it is empty, arrive when
  everything before it has been assembled. (An empty last push that arrives early ends the
  output at once: see \<open>early_empty_eof\<close> below.)
\<close>

fun ra_genuine_eof :: "bytes \<Rightarrow> stream_reassembler \<times> bytes \<Rightarrow> ra_op \<Rightarrow> bool" where
  "ra_genuine_eof S (s, got) (Push data index eof) =
     (ra_genuine S (s, got) (Push data index eof) \<and>
      (eof \<longrightarrow> unat index + length data = length S \<and> (data \<noteq> [] \<or> unat index \<le> first_of s)))"
| "ra_genuine_eof S (s, got) (ReadOut n) = True"

definition ra_last_seen :: "bytes \<Rightarrow> stream_reassembler \<Rightarrow> bool" where
  "ra_last_seen S s \<longleftrightarrow> first_of s = length S \<or> S \<noteq> [] \<and> ra_pending s (length S - 1) \<noteq> None"

definition ra_ends :: "bytes \<Rightarrow> stream_reassembler \<times> bytes \<Rightarrow> bool" where
  "ra_ends S = (\<lambda>(s, got). ra_tracks S (s, got) \<and>
     (is_eof_data_received s \<longrightarrow> ra_last_seen S s) \<and>
     (is_input_ended (ra_output s) \<longleftrightarrow> is_eof_data_received s \<and> first_of s = length S))"

lemma ra_ends_push:
  assumes e: "ra_ends S (s, got)" and g: "ra_genuine_eof S (s, got) (Push data index eof)"
  shows "ra_ends S (push_substring s data index eof, got)"
proof -
  let ?t = "push_substring s data index eof"
  from e have tr: "ra_tracks S (s, got)" by (simp add: ra_ends_def)
  from g have sl: "slice_of S data (unat index)" and win: "in_window s index" by simp_all
  note tr' = ra_tracks_push [OF tr sl win, of eof]
  have f: "first_of s \<le> length S" and f': "first_of ?t \<le> length S"
    using tr tr' by (simp_all add: ra_tracks_def)
  let ?p = "sp_store (first_of s) (window_end s) (ra_pending s) data (unat index)"
  have "push_ok s data index"
    using tr f win sl by (auto simp: ra_tracks_def push_ok_def slice_of_def)
  from push_substring_spec [OF _ this, of eof] tr obtain w where
    w: "ra_pushed s data index eof ?t w" by (auto simp: ra_tracks_def)
  have seen: "ra_last_seen S ?t" if "first_of s = length S \<or> S \<noteq> [] \<and> ?p (length S - 1) \<noteq> None"
    using that w f f' by (auto simp: ra_last_seen_def ra_pushed_def Let_def sp_drop_def)
  have old: "ra_last_seen S s \<Longrightarrow> first_of s = length S \<or> S \<noteq> [] \<and> ?p (length S - 1) \<noteq> None"
    by (auto simp: ra_last_seen_def sp_store_def)
  have new: "eof \<Longrightarrow> unat index + length data \<le> window_end s \<Longrightarrow>
      first_of s = length S \<or> S \<noteq> [] \<and> ?p (length S - 1) \<noteq> None"
    using g f by (cases "data = []") (auto simp: sp_store_def slice_of_def)
  have last: "is_eof_data_received ?t \<Longrightarrow> ra_last_seen S ?t"
    using w e seen old new by (auto simp: ra_pushed_def Let_def ra_ends_def)
  have emp: "first_of ?t = length S \<Longrightarrow> ra_pending ?t = Map.empty"
    using tr' by (fastforce simp: ra_tracks_def ra_pending_def fun_eq_iff split: if_splits)
  have "is_input_ended (ra_output ?t) \<longleftrightarrow> is_eof_data_received ?t \<and> first_of ?t = length S"
    using w e last emp f' by (auto simp: ra_pushed_def Let_def ra_ends_def ra_last_seen_def)
  with tr' last show ?thesis by (simp add: ra_ends_def)
qed

interpretation rae: guarded_machine ra_exec "ra_genuine_eof S" "ra_ends S" for S
proof
  fix st x
  assume e: "ra_ends S st" and g: "ra_genuine_eof S st x"
  obtain s got where st: "st = (s, got)" by fastforce
  show "ra_ends S (ra_exec st x)"
  proof (cases x)
    case (Push data index eof)
    then show ?thesis using e g ra_ends_push by (simp add: st)
  next
    case (ReadOut n)
    have "ra_tracks S (ra_exec st x)"
      using e ram.step_inv [of S st x] by (simp add: st ra_ends_def ReadOut)
    moreover have "ra_wf s" using e by (simp add: st ra_ends_def ra_tracks_def)
    note r = ra_wf_read_out [OF this, of n]
    ultimately show ?thesis
      using e r by (simp add: st ReadOut ra_ends_def split_beta ra_last_seen_def)
        (simp add: ra_read_out_def bs_read_def frame_simps split_beta)
  qed
qed

text \<open>A push marked as the last one is taken when it ends inside the window; the mark is kept from then on.\<close>

fun last_taken :: "stream_reassembler \<times> bytes \<Rightarrow> ra_op \<Rightarrow> bool" where
  "last_taken (s, got) (Push data index eof) = (eof \<and> unat index + length data \<le> window_end s)"
| "last_taken (s, got) (ReadOut n) = False"

lemma eof_received_step:
  assumes "ra_tracks S (s, got)" "ra_genuine S (s, got) x"
  shows "is_eof_data_received (fst (ra_exec (s, got) x)) \<longleftrightarrow> is_eof_data_received s \<or> last_taken (s, got) x"
proof (cases x)
  case (Push data index eof)
  have "push_ok s data index" using assms by (auto simp: Push ra_tracks_def push_ok_def slice_of_def)
  moreover have "ra_wf s" using assms(1) by (simp add: ra_tracks_def)
  ultimately obtain w where "ra_pushed s data index eof (push_substring s data index eof) w"
    using push_substring_spec [of s data index eof] by blast
  then show ?thesis by (auto simp: Push ra_pushed_def Let_def)
qed (simp add: ra_read_out_def split_beta)

lemma eof_received_run:
  assumes "ra_tracks S st" "guarded ra_exec (ra_genuine S) st ops"
  shows "is_eof_data_received (fst (foldl ra_exec st ops)) \<longleftrightarrow>
    is_eof_data_received (fst st) \<or> happens ra_exec last_taken st ops"
  using assms
proof (induction ops arbitrary: st)
  case (Cons x ops)
  obtain s got where st: "st = (s, got)" by fastforce
  have "ra_tracks S (ra_exec st x)" using Cons.prems ram.step_inv by auto
  then show ?case using Cons eof_received_step [of S s got x] by (auto simp: st)
qed simp

lemma ra_genuine_eof_genuine: "ra_genuine_eof S st x \<Longrightarrow> ra_genuine S st x"
  by (cases st; cases x) auto

lemma ra_ends_new:
  "0 < unat c \<Longrightarrow> unat c \<le> 9223372036854775808 \<Longrightarrow> length S + unat c < two64 \<Longrightarrow>
   ra_ends S (new_stream_reassembler c, [])"
  using ra_tracks_new [of c S] by (simp add: ra_ends_def) (simp add: new_stream_reassembler_def)

section \<open>Properties\<close>

text \<open>
  C8. Refinement, for a substring that starts inside the window or before it: seen as a map from
  stream indices to bytes, \<open>push_substring\<close> stores those of its bytes that fall inside the window and
  then moves the contiguous run at the front to the output; \<open>unassembled_bytes()\<close> is the number of
  bytes left in the map.  (A substring that starts beyond the window is not handled like this, see
  \<open>beyond_window_stored\<close>.)
\<close>

theorem push_substring_refines:
  assumes "ra_wf s" "push_ok s data index"
  shows "let t = push_substring s data index eof;
             p = sp_store (first_of s) (window_end s) (ra_pending s) data (unat index)
         in ra_wf t \<and> unat (ra_unassembled_bytes t) = card (dom (ra_pending t)) \<and>
            (\<exists>w. sp_drained (first_of s) p w \<and> ra_pending t = sp_drop (first_of s + length w) p \<and>
                 bs_buffer (ra_output t) = bs_buffer (ra_output s) @ w \<and>
                 first_of t = first_of s + length w)"
proof -
  from push_substring_spec [OF assms, of eof] obtain w where
    wf: "ra_wf (push_substring s data index eof)" and w: "ra_pushed s data index eof (push_substring s data index eof) w"
    by blast
  have "ra_shape (push_substring s data index eof)" using wf by (simp add: ra_wf_def ra_fit_def)
  from unassembled_count [OF this] wf w show ?thesis
    by (auto simp: ra_pushed_def Let_def ra_unassembled_bytes_def)
qed

theorem push_substring_refines_witness:
  "let s = new_stream_reassembler 4; t = push_substring s [5, 6] 1 False;
       p = sp_store (first_of s) (window_end s) (ra_pending s) [5, 6] (unat (1 :: u64))
   in bs_buffer (ra_output t) = [] \<and> ra_wf t \<and> unat (ra_unassembled_bytes t) = card (dom (ra_pending t)) \<and>
      (\<exists>w. sp_drained (first_of s) p w \<and> ra_pending t = sp_drop (first_of s + length w) p \<and>
           bs_buffer (ra_output t) = bs_buffer (ra_output s) @ w \<and> first_of t = first_of s + length w)"
proof -
  let ?s = "new_stream_reassembler 4"
  have "ra_wf ?s" by (rule ra_wf_new) simp_all
  moreover have "push_ok ?s [5, 6] 1"
    by (simp add: push_ok_def in_window_def window_end_def bs_room_def new_stream_reassembler_def)
  moreover have "bs_buffer (ra_output (push_substring ?s [5, 6] 1 False)) = []" by code_simp
  ultimately show ?thesis using push_substring_refines [of ?s "[5, 6]" 1 False] unfolding Let_def by blast
qed

text \<open>
  C9. Whatever the order, overlap and repetition of the substrings, and whatever is read in
  between: if every substring carries the bytes the stream \<open>S\<close> has at its index and starts inside
  the window, then what has been read and what is readable are together the first
  \<open>bytes_written()\<close> bytes of \<open>S\<close>.
\<close>

theorem reassembler_delivers_prefix:
  assumes "0 < unat c" "unat c \<le> 9223372036854775808" "length S + unat c < two64"
    and "guarded ra_exec (ra_genuine S) (new_stream_reassembler c, []) ops"
  shows "case foldl ra_exec (new_stream_reassembler c, []) ops of
    (s, got) \<Rightarrow> got @ bs_buffer (ra_output s) = take (unat (bs_bytes_written (ra_output s))) S"
  using ram.run_inv [OF ra_tracks_new [OF assms(1-3)] assms(4)]
  by (auto simp: ra_tracks_def ra_wf_def ra_fit_def bs_bytes_written_def)

theorem reassembler_delivers_prefix_witness:
  "case foldl ra_exec (new_stream_reassembler 4, [])
      [Push [8, 9] 1 False, Push [7, 8] 0 False, ReadOut 1, Push [9, 10] 2 True] of
    (s, got) \<Rightarrow> got @ bs_buffer (ra_output s) = take (unat (bs_bytes_written (ra_output s))) [7, 8, 9, 10]"
proof (rule reassembler_delivers_prefix)
  show "guarded ra_exec (ra_genuine [7, 8, 9, 10]) (new_stream_reassembler 4, [])
      [Push [8, 9] 1 False, Push [7, 8] 0 False, ReadOut 1, Push [9, 10] 2 True]"
    by code_simp
qed simp_all

text \<open>
  C10. In such runs let a substring be marked as the last one only at the end of \<open>S\<close>, and an empty
  one only once everything before it is assembled.  Then the input of the output stream ends
  exactly when a marked substring has been pushed that ended inside the window at that time, and
  all of \<open>S\<close> has been written.
\<close>

theorem reassembler_ends_exactly:
  assumes "0 < unat c" "unat c \<le> 9223372036854775808" "length S + unat c < two64"
    and "guarded ra_exec (ra_genuine_eof S) (new_stream_reassembler c, []) ops"
  shows "case foldl ra_exec (new_stream_reassembler c, []) ops of
    (s, got) \<Rightarrow> (bs_input_ended (ra_output s) \<longleftrightarrow>
      happens ra_exec last_taken (new_stream_reassembler c, []) ops \<and> got @ bs_buffer (ra_output s) = S)"
proof -
  obtain s got where r: "foldl ra_exec (new_stream_reassembler c, []) ops = (s, got)" by fastforce
  have "ra_ends S (s, got)"
    using rae.run_inv [OF ra_ends_new [OF assms(1-3)] assms(4)] by (simp add: r)
  then have "bs_input_ended (ra_output s) \<longleftrightarrow> is_eof_data_received s \<and> first_of s = length S"
    and "first_of s \<le> length S" "got @ bs_buffer (ra_output s) = take (first_of s) S"
    by (auto simp: ra_ends_def ra_tracks_def bs_input_ended_def)
  moreover from this have "got @ bs_buffer (ra_output s) = S \<longleftrightarrow> first_of s = length S"
    by (metis length_take min.absorb2 order_refl take_all)
  moreover have "\<not> is_eof_data_received (new_stream_reassembler c)" by (simp add: new_stream_reassembler_def)
  then have "is_eof_data_received s \<longleftrightarrow> happens ra_exec last_taken (new_stream_reassembler c, []) ops"
    using eof_received_run [OF ra_tracks_new [OF assms(1-3)] guarded_mono [OF assms(4) ra_genuine_eof_genuine]]
    by (simp add: r)
  ultimately show ?thesis by (simp add: r)
qed

abbreviation marked_run :: "ra_op list" where
  "marked_run \<equiv> [Push [8, 9] 1 True, Push [7] 0 False]"

theorem reassembler_ends_exactly_witness:
  "case foldl ra_exec (new_stream_reassembler 4, []) marked_run of
    (s, got) \<Rightarrow> bs_input_ended (ra_output s) \<and> got @ bs_buffer (ra_output s) = [7, 8, 9]"
proof -
  have "guarded ra_exec (ra_genuine_eof [7, 8, 9]) (new_stream_reassembler 4, []) marked_run" by code_simp
  note run = reassembler_ends_exactly [OF _ _ _ this]
  have "happens ra_exec last_taken (new_stream_reassembler 4, []) marked_run" by code_simp
  moreover have "case foldl ra_exec (new_stream_reassembler 4, []) marked_run of
      (s, got) \<Rightarrow> got @ bs_buffer (ra_output s) = [7, 8, 9]" by code_simp
  ultimately show ?thesis using run by (auto split: prod.splits)
qed

text \<open>
  Outside these bounds the code departs from its contract.  A byte beyond the window makes
  \<open>_capacity - bytes_reassembled_but_not_read - index + _first_unassembled_index\<close> wrap around, so
  it is stored at a slot that stands for another index instead of being discarded; and an empty
  last substring that arrives before the rest ends the output at once.
\<close>

lemma beyond_window_stored:
  "bs_buffer (ra_output (push_substring (push_substring (new_stream_reassembler 8) [88] 9 False) [65] 0 False))
    = [65, 88]"
  by code_simp

lemma early_empty_eof:
  "let s = push_substring (new_stream_reassembler 8) [] 3 True
   in bs_input_ended (ra_output s) \<and> bs_bytes_written (ra_output s) = 0"
  by code_simp

end
