(* ===== verification/TCP_Receiver.thy ===== *)
theory TCP_Receiver
  imports Stream_Reassembler TCP_Segment
begin

text \<open>
  The class \<open>TCPReceiver\<close> (src/libsponge/tcp_receiver.hh and .cc): it remembers the initial
  sequence number of the peer, turns the sequence number of each segment into a stream index
  and pushes the payload into the reassembler; the acknowledgment number and window size it
  advertises are computed from the output stream.
\<close>

section \<open>State and operations\<close>

record tcp_receiver =
  rc_reassembler :: stream_reassembler
  rc_capacity :: u64
  rc_isn :: "wrapping_int32 option"

definition new_tcp_receiver :: "u64 \<Rightarrow> tcp_receiver" where
  "new_tcp_receiver capacity =
     \<lparr>rc_reassembler = new_stream_reassembler capacity, rc_capacity = capacity, rc_isn = None\<rparr>"

definition rc_stream_out :: "tcp_receiver \<Rightarrow> byte_stream" where
  "rc_stream_out r = ra_output (rc_reassembler r)"

definition rc_unassembled_bytes :: "tcp_receiver \<Rightarrow> u64" where
  "rc_unassembled_bytes r = ra_unassembled_bytes (rc_reassembler r)"

definition rc_segment_received :: "tcp_receiver \<Rightarrow> tcp_segment \<Rightarrow> tcp_receiver" where
  "rc_segment_received r seg =
     (let h = seg_header seg; data = seg_payload seg
      in case rc_isn r of
           None \<Rightarrow>
             if syn h
             then r\<lparr>rc_isn := Some (WrappingInt32 (raw_value (seqno h))),
                    rc_reassembler := push_substring (rc_reassembler r) data 0 (fin h)\<rparr>
             else r
         | Some isn \<Rightarrow>
             let abs_64bit_ackno = bs_bytes_written (rc_stream_out r) + 1;
                 abs_64bit_seqno = unwrap (seqno h) isn abs_64bit_ackno
             in if abs_64bit_seqno \<noteq> 0
                then r\<lparr>rc_reassembler :=
                         push_substring (rc_reassembler r) data (abs_64bit_seqno - 1) (fin h)\<rparr>
                else r)"

definition rc_ackno :: "tcp_receiver \<Rightarrow> wrapping_int32 option" where
  "rc_ackno r =
     (case rc_isn r of
        None \<Rightarrow> None
      | Some isn \<Rightarrow>
          let abs_64bit_ackno = bs_bytes_written (rc_stream_out r) + 1;
              abs_64bit_ackno' = (if bs_input_ended (rc_stream_out r) then abs_64bit_ackno + 1
                                  else abs_64bit_ackno)
          in Some (wrap abs_64bit_ackno' isn))"

definition rc_window_size :: "tcp_receiver \<Rightarrow> u64" where
  "rc_window_size r = bs_remaining_capacity (rc_stream_out r)"

definition rc_set_error :: "tcp_receiver \<Rightarrow> tcp_receiver" where
  "rc_set_error r = r\<lparr>rc_reassembler :=
     (rc_reassembler r)\<lparr>ra_output := bs_set_error (ra_output (rc_reassembler r))\<rparr>\<rparr>"

definition rc_read_out :: "tcp_receiver \<Rightarrow> u64 \<Rightarrow> tcp_receiver \<times> bytes" where
  "rc_read_out r n = (let (ra, got) = ra_read_out (rc_reassembler r) n in (r\<lparr>rc_reassembler := ra\<rparr>, got))"

section \<open>Runs of the receiver\<close>

datatype rc_op = SegIn tcp_segment | ReadIn u64

fun rc_exec :: "tcp_receiver \<times> bytes \<Rightarrow> rc_op \<Rightarrow> tcp_receiver \<times> bytes" where
  "rc_exec (r, got) (SegIn seg) = (rc_segment_received r seg, got)"
| "rc_exec (r, got) (ReadIn n) = (let (r', out) = rc_read_out r n in (r', got @ out))"

text \<open>
  The segments the network may deliver: genuine ones that start inside the window, and segments
  that occupy no sequence numbers.
\<close>

fun rc_deliverable :: "bytes \<Rightarrow> wrapping_int32 \<Rightarrow> tcp_receiver \<times> bytes \<Rightarrow> rc_op \<Rightarrow> bool" where
  "rc_deliverable S isn (r, got) (SegIn seg) =
     (seg_inert seg \<or> (\<exists>a. seg_genuine S isn a seg \<and> seg_index a \<le> window_end (rc_reassembler r)))"
| "rc_deliverable S isn (r, got) (ReadIn n) = True"

definition rc_tracks :: "bytes \<Rightarrow> wrapping_int32 \<Rightarrow> tcp_receiver \<times> bytes \<Rightarrow> bool" where
  "rc_tracks S isn = (\<lambda>(r, got). ra_tracks S (rc_reassembler r, got) \<and>
     length S < 2147483646 \<and> (rc_isn r = None \<or> rc_isn r = Some isn))"

lemma first_is_written:
  "ra_wf s \<Longrightarrow> bs_bytes_written (ra_output s) = first_unassembled_index s"
  by (simp add: ra_wf_def ra_fit_def bs_bytes_written_def)

text \<open>The sequence number of a genuine segment is read back correctly.\<close>

lemma unwrap_genuine:
  assumes tr: "rc_tracks S isn (r, got)" and g: "seg_genuine S isn a seg"
  shows "unwrap (seqno (seg_header seg)) isn (bs_bytes_written (rc_stream_out r) + 1) = of_nat a"
proof -
  have wf: "ra_wf (rc_reassembler r)" and f: "first_of (rc_reassembler r) \<le> length S"
    and S: "length S < 2147483646"
    using tr by (simp_all add: rc_tracks_def ra_tracks_def)
  have a: "a \<le> length S + 1" using g by (simp add: seg_genuine_def)
  have c: "unat (bs_bytes_written (rc_stream_out r) + 1) = first_of (rc_reassembler r) + 1"
    using f S by (simp add: rc_stream_out_def first_is_written [OF wf] unat_add_u64)
  have "unat (of_nat a :: u64) = a" using a S by (intro unat_of_nat_u64) linarith
  then have "\<bar>int (unat (of_nat a :: u64)) - int (unat (bs_bytes_written (rc_stream_out r) + 1))\<bar> < 2147483648"
    unfolding c using a f S by linarith
  from seq.dec_enc [OF this, of isn] g show ?thesis
    by (simp only: seg_genuine_def)
qed

text \<open>What a genuine segment does to the reassembler: nothing, or a genuine push.\<close>

lemma rc_segment_received_push:
  assumes tr: "rc_tracks S isn (r, got)" and g: "seg_genuine S isn a seg"
  shows "rc_segment_received r seg =
    (if rc_isn r = None \<and> a = 0
     then r\<lparr>rc_isn := Some isn,
            rc_reassembler := push_substring (rc_reassembler r) (seg_payload seg) 0 (fin (seg_header seg))\<rparr>
     else if rc_isn r = None \<or> a = 0 then r
     else r\<lparr>rc_reassembler := push_substring (rc_reassembler r) (seg_payload seg)
              (of_nat (seg_index a)) (fin (seg_header seg))\<rparr>)"
proof (cases "rc_isn r")
  case None
  have "a = 0 \<Longrightarrow> seqno (seg_header seg) = isn"
    using g by (simp add: seg_genuine_def wrap_eq)
  with None g show ?thesis
    by (auto simp: rc_segment_received_def Let_def seg_genuine_def)
next
  case (Some i)
  then have i: "i = isn" using tr by (simp add: rc_tracks_def)
  have "a < two64" using g tr by (auto simp: seg_genuine_def rc_tracks_def)
  from unat_of_nat_u64 [OF this] have "(of_nat a :: u64) = 0 \<longleftrightarrow> a = 0"
    by (auto simp: unat_eq_0 [symmetric])
  moreover have "a \<noteq> 0 \<Longrightarrow> of_nat a - 1 = (of_nat (seg_index a) :: u64)"
    by (simp add: seg_index_def of_nat_diff)
  ultimately show ?thesis
    using unwrap_genuine [OF tr g] Some i by (simp add: rc_segment_received_def Let_def)
qed

lemma rc_tracks_inert:
  assumes "rc_tracks S isn (r, got)" "seg_inert seg"
  shows "rc_tracks S isn (rc_segment_received r seg, got)"
  using assms ra_tracks_push_empty [of S "rc_reassembler r" got]
  by (auto simp: rc_tracks_def rc_segment_received_def seg_inert_def Let_def split: option.split)

interpretation rcm: guarded_machine rc_exec "rc_deliverable S isn" "rc_tracks S isn" for S isn
proof
  fix st x
  assume tr: "rc_tracks S isn st" and ok: "rc_deliverable S isn st x"
  obtain r got where st: "st = (r, got)" by fastforce
  have ra: "ra_tracks S (rc_reassembler r, got)" using tr by (simp add: st rc_tracks_def)
  show "rc_tracks S isn (rc_exec st x)"
  proof (cases x)
    case (SegIn seg)
    show ?thesis
    proof (cases "seg_inert seg")
      case True
      then show ?thesis using rc_tracks_inert tr by (simp add: st SegIn)
    next
      case False
      with ok obtain a where g: "seg_genuine S isn a seg"
        and w: "seg_index a \<le> window_end (rc_reassembler r)" by (auto simp: st SegIn)
      have i: "unat (of_nat (seg_index a) :: u64) = seg_index a"
        using g tr by (intro unat_of_nat_u64) (auto simp: st seg_genuine_def seg_index_def rc_tracks_def)
      have sl: "slice_of S (seg_payload seg) (seg_index a)" using g by (simp add: seg_genuine_def)
      have push: "ra_tracks S (push_substring (rc_reassembler r) (seg_payload seg) (of_nat (seg_index a)) e, got)" for e
        using ra_tracks_push [OF ra] sl w i by (simp add: in_window_def)
      have zero: "a = 0 \<Longrightarrow> of_nat (seg_index a) = (0 :: u64)" by (simp add: seg_index_def)
      have "rc_tracks S isn (rc_segment_received r seg, got)"
        using tr push [of "fin (seg_header seg)"] zero
        unfolding rc_segment_received_push [OF tr [unfolded st] g] by (auto simp: st rc_tracks_def)
      then show ?thesis by (simp add: st SegIn)
    qed
  next
    case (ReadIn n)
    then show ?thesis
      using tr ram.step_inv [OF ra, of "ReadOut n"]
      by (simp add: st rc_tracks_def rc_read_out_def split_beta)
  qed
qed

lemma rc_tracks_new:
  assumes "0 < unat c" "unat c \<le> 9223372036854775808" "length S < 2147483646"
  shows "rc_tracks S isn (new_tcp_receiver c, [])"
  using ra_tracks_new [of c S] assms by (simp add: rc_tracks_def new_tcp_receiver_def)

text \<open>The numbers the receiver advertises.\<close>

lemma rc_ackno_tracks:
  assumes "rc_tracks S isn (r, got)"
  shows "rc_ackno r = map_option (wrap (of_nat (first_of (rc_reassembler r) + 1
           + of_bool (is_input_ended (rc_stream_out r))))) (rc_isn r)"
  using assms first_is_written [of "rc_reassembler r"]
  by (auto simp: rc_ackno_def rc_tracks_def ra_tracks_def Let_def rc_stream_out_def bs_input_ended_def
      add.commute split: option.splits)

lemma rc_window_size_tracks:
  assumes "rc_tracks S isn (r, got)"
  shows "first_of (rc_reassembler r) + unat (rc_window_size r) = window_end (rc_reassembler r)"
  using assms by (simp add: rc_window_size_def rc_tracks_def ra_tracks_def ra_wf_def ra_fit_def
      window_end_def rc_stream_out_def unat_simps)

section \<open>The end of the stream\<close>

text \<open>
  A FIN without payload must not overtake bytes of the stream once the SYN has been seen.  A FIN is
  taken when the receiver knows where the stream starts (or learns it from the same segment) and
  the end of the stream lies inside the window.
\<close>

fun rc_deliverable_fin :: "bytes \<Rightarrow> wrapping_int32 \<Rightarrow> tcp_receiver \<times> bytes \<Rightarrow> rc_op \<Rightarrow> bool" where
  "rc_deliverable_fin S isn (r, got) (SegIn seg) =
     (rc_deliverable S isn (r, got) (SegIn seg) \<and>
      (fin (seg_header seg) \<and> seg_payload seg = [] \<and> rc_isn r \<noteq> None \<longrightarrow> unat (bs_bytes_written (rc_stream_out r)) = length S))"
| "rc_deliverable_fin S isn (r, got) (ReadIn n) = True"

fun fin_taken :: "bytes \<Rightarrow> tcp_receiver \<times> bytes \<Rightarrow> rc_op \<Rightarrow> bool" where
  "fin_taken S (r, got) (SegIn seg) =
     (fin (seg_header seg) \<and> (rc_isn r = None \<longleftrightarrow> syn (seg_header seg)) \<and> length S \<le> window_end (rc_reassembler r))"
| "fin_taken S (r, got) (ReadIn n) = False"

definition rc_ends :: "bytes \<Rightarrow> wrapping_int32 \<Rightarrow> tcp_receiver \<times> bytes \<Rightarrow> bool" where
  "rc_ends S isn = (\<lambda>(r, got). rc_tracks S isn (r, got) \<and> ra_ends S (rc_reassembler r, got))"

lemma rc_ends_tracks: "rc_ends S isn st \<Longrightarrow> rc_tracks S isn st"
  by (auto simp: rc_ends_def)

lemma push_inert:
  assumes "ra_ends S (s, got)"
  shows "ra_ends S (push_substring s [] i False, got)"
    "is_eof_data_received (push_substring s [] i False) = is_eof_data_received s"
proof -
  let ?x = "Push [] (first_unassembled_index s) False"
  have tr: "ra_tracks S (s, got)" using assms by (simp add: ra_ends_def)
  then have g: "ra_genuine_eof S (s, got) ?x" by (auto simp: ra_tracks_def in_window_def window_end_def)
  show "ra_ends S (push_substring s [] i False, got)" using ra_ends_push [OF assms g] push_empty by metis
  show "is_eof_data_received (push_substring s [] i False) = is_eof_data_received s"
    using eof_received_step [OF tr ra_genuine_eof_genuine [OF g]] push_empty [of s i "first_unassembled_index s"] by simp
qed

lemma rc_segment_ends:
  assumes e: "rc_ends S isn (r, got)" and d: "rc_deliverable_fin S isn (r, got) (SegIn seg)"
  shows "ra_ends S (rc_reassembler (rc_segment_received r seg), got)"
    "is_eof_data_received (rc_reassembler (rc_segment_received r seg)) \<longleftrightarrow>
     is_eof_data_received (rc_reassembler r) \<or> fin_taken S (r, got) (SegIn seg)"
proof -
  have tr: "rc_tracks S isn (r, got)" and ra: "ra_ends S (rc_reassembler r, got)" using e by (simp_all add: rc_ends_def)
  have "ra_ends S (rc_reassembler (rc_segment_received r seg), got) \<and>
    (is_eof_data_received (rc_reassembler (rc_segment_received r seg)) \<longleftrightarrow>
     is_eof_data_received (rc_reassembler r) \<or> fin_taken S (r, got) (SegIn seg))"
  proof (cases "seg_inert seg")
    case True
    then show ?thesis using ra push_inert [OF ra]
      by (auto simp: seg_inert_def rc_segment_received_def Let_def split: option.split)
  next
    case False
    with d obtain a where g: "seg_genuine S isn a seg" and w: "seg_index a \<le> window_end (rc_reassembler r)" by auto
    let ?x = "Push (seg_payload seg) (of_nat (seg_index a)) (fin (seg_header seg))"
    have i: "unat (of_nat (seg_index a) :: u64) = seg_index a"
      using g tr by (intro unat_of_nat_u64) (auto simp: seg_genuine_def seg_index_def rc_tracks_def)
    have first: "unat (bs_bytes_written (rc_stream_out r)) = first_of (rc_reassembler r)"
      using tr first_is_written by (simp add: rc_tracks_def ra_tracks_def rc_stream_out_def)
    have sl: "slice_of S (seg_payload seg) (seg_index a)"
      and en: "fin (seg_header seg) \<Longrightarrow> seg_index a + length (seg_payload seg) = length S"
      and z: "a = 0 \<Longrightarrow> seg_index a = 0" using g by (simp_all add: seg_genuine_def) (simp add: seg_index_def)
    have gx: "ra_genuine_eof S (rc_reassembler r, got) ?x" if "rc_isn r = None \<longleftrightarrow> a = 0"
    proof (cases "rc_isn r")
      case None
      then show ?thesis using that z en sl w by (simp add: i in_window_def)
    next
      case (Some x)
      then show ?thesis using d en sl w first by (auto simp: i in_window_def)
    qed
    have tra: "ra_tracks S (rc_reassembler r, got)" using tr by (simp add: rc_tracks_def)
    have lt: "last_taken (rc_reassembler r, got) ?x \<longleftrightarrow> fin (seg_header seg) \<and> length S \<le> window_end (rc_reassembler r)"
      using g by (auto simp: i seg_genuine_def)
    have sy: "syn (seg_header seg) \<longleftrightarrow> a = 0" using g by (simp add: seg_genuine_def)
    show ?thesis
      using ra ra_ends_push [OF ra gx] eof_received_step [OF tra ra_genuine_eof_genuine [OF gx]] lt sy
      unfolding rc_segment_received_push [OF tr g] by (auto simp: seg_index_def)
  qed
  then show "ra_ends S (rc_reassembler (rc_segment_received r seg), got)"
    "is_eof_data_received (rc_reassembler (rc_segment_received r seg)) \<longleftrightarrow>
     is_eof_data_received (rc_reassembler r) \<or> fin_taken S (r, got) (SegIn seg)" by simp_all
qed

lemma rc_deliverable_fin_weaker: "rc_deliverable_fin S isn st x \<Longrightarrow> rc_deliverable S isn st x"
  by (cases st; cases x) auto

lemma rc_exec_ends:
  assumes e: "rc_ends S isn st" and d: "rc_deliverable_fin S isn st x"
  shows "rc_ends S isn (rc_exec st x)"
    "is_eof_data_received (rc_reassembler (fst (rc_exec st x))) \<longleftrightarrow>
     is_eof_data_received (rc_reassembler (fst st)) \<or> fin_taken S st x"
proof -
  obtain r got where st: "st = (r, got)" by fastforce
  have tr: "rc_tracks S isn (rc_exec st x)"
    using rcm.step_inv rc_ends_tracks [OF e] rc_deliverable_fin_weaker [OF d] by blast
  have "rc_ends S isn (rc_exec st x) \<and> (is_eof_data_received (rc_reassembler (fst (rc_exec st x))) \<longleftrightarrow>
     is_eof_data_received (rc_reassembler (fst st)) \<or> fin_taken S st x)"
  proof (cases x)
    case (SegIn seg)
    then show ?thesis
      using tr rc_segment_ends [of S isn r got seg] e d by (simp add: st rc_ends_def)
  next
    case (ReadIn n)
    have ra: "ra_ends S (rc_reassembler r, got)" using e by (simp add: st rc_ends_def)
    have "ra_ends S (ra_exec (rc_reassembler r, got) (ReadOut n))" by (rule rae.step_inv [OF ra]) simp
    then show ?thesis
      using tr by (simp add: st ReadIn rc_ends_def rc_read_out_def split_beta) (simp add: ra_read_out_def split_beta)
  qed
  then show "rc_ends S isn (rc_exec st x)"
    "is_eof_data_received (rc_reassembler (fst (rc_exec st x))) \<longleftrightarrow>
     is_eof_data_received (rc_reassembler (fst st)) \<or> fin_taken S st x" by simp_all
qed

interpretation rce: guarded_machine rc_exec "rc_deliverable_fin S isn" "rc_ends S isn" for S isn
  by unfold_locales (rule rc_exec_ends(1))

lemma fin_taken_run:
  assumes "rc_ends S isn st" "guarded rc_exec (rc_deliverable_fin S isn) st ops"
  shows "is_eof_data_received (rc_reassembler (fst (foldl rc_exec st ops))) \<longleftrightarrow>
    is_eof_data_received (rc_reassembler (fst st)) \<or> happens rc_exec (fin_taken S) st ops"
  using assms
proof (induction ops arbitrary: st)
  case (Cons x ops)
  then show ?case using rc_exec_ends [of S isn st x] by auto
qed simp

lemma rc_ends_new:
  assumes "0 < unat c" "unat c \<le> 9223372036854775808" "length S < 2147483646"
  shows "rc_ends S isn (new_tcp_receiver c, [])"
  using rc_tracks_new [OF assms, of isn] ra_ends_new [of c S] assms by (simp add: rc_ends_def new_tcp_receiver_def)

section \<open>Properties\<close>

text \<open>
  C2. Let the network deliver genuine segments of the stream \<open>S\<close> in any order and any number of
  times, each starting inside the window at that time, with reads in between.  Then the bytes read
  and readable are the first \<open>n\<close> bytes of \<open>S\<close>, where \<open>n\<close> is the number of bytes written to the
  output, and \<open>window_size()\<close> is the room left in the output stream.  If moreover no FIN without
  payload overtakes bytes of the stream, then once the SYN has been seen \<open>ackno()\<close> is the wrapped
  number of the first thing still needed: byte \<open>n\<close>, which is number \<open>n + 1\<close>, or the number after the
  FIN when a FIN has been taken and all of \<open>S\<close> has been written.
\<close>

theorem receiver_delivers_prefix:
  assumes "0 < unat c" "unat c \<le> 9223372036854775808" "length S < 2147483646"
    and "guarded rc_exec (rc_deliverable S isn) (new_tcp_receiver c, []) ops"
  shows "case foldl rc_exec (new_tcp_receiver c, []) ops of (r, got) \<Rightarrow>
    (let n = unat (bs_bytes_written (rc_stream_out r)) in
     got @ bs_buffer (rc_stream_out r) = take n S \<and> n \<le> length S \<and>
     unat (rc_window_size r) = bs_room (rc_stream_out r) \<and>
     (guarded rc_exec (rc_deliverable_fin S isn) (new_tcp_receiver c, []) ops \<longrightarrow>
      rc_ackno r = (if rc_isn r = None then None
                    else let all = happens rc_exec (fin_taken S) (new_tcp_receiver c, []) ops \<and> n = length S
                         in Some (wrap (of_nat (if all then length S + 2 else n + 1)) isn))))"
proof -
  obtain r got where r: "foldl rc_exec (new_tcp_receiver c, []) ops = (r, got)" by fastforce
  have tr: "rc_tracks S isn (r, got)"
    using rcm.run_inv [OF rc_tracks_new [OF assms(1-3)] assms(4)] by (simp add: r)
  then have isn: "rc_isn r = None \<or> rc_isn r = Some isn" and ra: "ra_tracks S (rc_reassembler r, got)"
    by (simp_all add: rc_tracks_def)
  have n: "unat (bs_bytes_written (rc_stream_out r)) = first_of (rc_reassembler r)"
    using ra first_is_written by (simp add: ra_tracks_def rc_stream_out_def)
  have ended: "is_input_ended (rc_stream_out r) \<longleftrightarrow>
      happens rc_exec (fin_taken S) (new_tcp_receiver c, []) ops \<and> first_of (rc_reassembler r) = length S"
    if g: "guarded rc_exec (rc_deliverable_fin S isn) (new_tcp_receiver c, []) ops"
  proof -
    have new: "rc_ends S isn (new_tcp_receiver c, [])" by (rule rc_ends_new [OF assms(1-3)])
    have "\<not> is_eof_data_received (rc_reassembler (new_tcp_receiver c))"
      by (simp add: new_tcp_receiver_def new_stream_reassembler_def)
    then show ?thesis
      using rce.run_inv [OF new g] fin_taken_run [OF new g] by (simp add: r rc_ends_def ra_ends_def rc_stream_out_def)
  qed
  have pre: "got @ bs_buffer (rc_stream_out r) = take (first_of (rc_reassembler r)) S" "first_of (rc_reassembler r) \<le> length S"
    using ra by (simp_all add: ra_tracks_def rc_stream_out_def)
  have win: "unat (rc_window_size r) = bs_room (rc_stream_out r)"
    using rc_window_size_tracks [OF tr] by (simp add: rc_stream_out_def window_end_def)
  have ack: "rc_ackno r = (if rc_isn r = None then None
      else Some (wrap (of_nat (first_of (rc_reassembler r) + 1 + of_bool (is_input_ended (rc_stream_out r)))) isn))"
    using isn rc_ackno_tracks [OF tr] by auto
  have len: "first_of (rc_reassembler r) = length S \<Longrightarrow> (of_nat (length S) :: u64) = first_unassembled_index (rc_reassembler r)"
    by (drule sym) simp
  show ?thesis unfolding r prod.case n Let_def
    by (intro conjI impI) (auto simp: pre win ack ended len)
qed

abbreviation example_segment :: "u32 \<Rightarrow> bool \<Rightarrow> bool \<Rightarrow> bytes \<Rightarrow> tcp_segment" where
  "example_segment n s f d \<equiv> \<lparr>seg_header = new_tcp_header\<lparr>seqno := WrappingInt32 n, syn := s, fin := f\<rparr>, seg_payload = d\<rparr>"

text \<open>The last byte comes with the FIN, before the first one.\<close>

abbreviation example_delivery :: "rc_op list" where
  "example_delivery \<equiv> [SegIn (example_segment 100 True False []), SegIn (example_segment 102 False True [8]),
     SegIn (example_segment 101 False False [7]), ReadIn 1]"

theorem receiver_delivers_prefix_witness:
  "case foldl rc_exec (new_tcp_receiver 8, []) example_delivery of (r, got) \<Rightarrow>
     got @ bs_buffer (rc_stream_out r) = take (unat (bs_bytes_written (rc_stream_out r))) [7, 8] \<and>
     rc_ackno r = Some (WrappingInt32 104)"
proof -
  let ?S = "[7, 8] :: bytes" and ?isn = "WrappingInt32 100"
  let ?r0 = "new_tcp_receiver 8" and ?x0 = "example_segment 100 True False []" and ?x1 = "example_segment 102 False True [8]"
  let ?r1 = "rc_segment_received ?r0 ?x0"
  let ?r2 = "rc_segment_received ?r1 ?x1" and ?x2 = "example_segment 101 False False [7]"
  have "seg_genuine ?S ?isn 0 ?x0 \<and> seg_index 0 \<le> window_end (rc_reassembler ?r0)"
    "seg_genuine ?S ?isn 2 ?x1 \<and> seg_index 2 \<le> window_end (rc_reassembler ?r1)"
    "seg_genuine ?S ?isn 1 ?x2 \<and> seg_index 1 \<le> window_end (rc_reassembler ?r2)" by code_simp+
  then have g: "guarded rc_exec (rc_deliverable ?S ?isn) (?r0, []) example_delivery"
    "guarded rc_exec (rc_deliverable_fin ?S ?isn) (?r0, []) example_delivery" by auto
  have e: "happens rc_exec (fin_taken ?S) (?r0, []) example_delivery"
    "(case foldl rc_exec (?r0, []) example_delivery of (r, got) \<Rightarrow>
       unat (bs_bytes_written (rc_stream_out r)) = 2 \<and> rc_isn r \<noteq> None)" by code_simp+
  obtain r got where r: "foldl rc_exec (?r0, []) example_delivery = (r, got)" by fastforce
  have "wrap 4 ?isn = WrappingInt32 104" by code_simp
  with receiver_delivers_prefix [OF _ _ _ g(1)] g(2) e show ?thesis unfolding r by (simp add: Let_def)
qed

text \<open>
  A FIN without payload that overtakes the bytes in front of it is acknowledged at once, although
  nothing has been written: the condition on such segments is needed for the acknowledgment number.
\<close>

lemma early_fin_acknowledged:
  "rc_ackno (foldl rc_segment_received (new_tcp_receiver 8) [example_segment 100 True False [], example_segment 103 False True []])
    = Some (WrappingInt32 102)"
  by code_simp

end
