(* ===== verification/TCP_Sender.thy ===== *)
theory TCP_Sender
  imports Byte_Stream TCP_Segment
begin

text \<open>
  The classes \<open>RetransmissionTimer\<close> and \<open>TCPSender\<close> (src/libsponge/tcp_sender.hh and .cc):
  the sender reads its outgoing stream into segments as far as the receiver's window allows,
  keeps the unacknowledged ones, and retransmits the oldest when the timer expires.
  Queues are lists whose head is the front.
\<close>

section \<open>The retransmission timer\<close>

record retransmission_timer =
  init_rto :: u64
  rto :: u64
  timer_t :: u64
  is_running :: bool

definition new_retransmission_timer :: "u16 \<Rightarrow> retransmission_timer" where
  "new_retransmission_timer retx_timeout =
     \<lparr>init_rto = ucast retx_timeout, rto = ucast retx_timeout, timer_t = 0, is_running = True\<rparr>"

definition rt_tick :: "retransmission_timer \<Rightarrow> u64 \<Rightarrow> retransmission_timer \<times> bool" where
  "rt_tick t ms_since_last_tick =
     (if \<not> is_running t then (t, False)
      else let is_expired = (rto t \<le> timer_t t + ms_since_last_tick)
           in (t\<lparr>timer_t := (if is_expired then 0 else timer_t t + ms_since_last_tick)\<rparr>, is_expired))"

definition rt_start :: "retransmission_timer \<Rightarrow> retransmission_timer" where
  "rt_start t = (if \<not> is_running t then t\<lparr>timer_t := 0, is_running := True\<rparr> else t\<lparr>is_running := True\<rparr>)"

definition rt_stop :: "retransmission_timer \<Rightarrow> retransmission_timer" where
  "rt_stop t = t\<lparr>timer_t := 0, is_running := False\<rparr>"

definition rt_set_rto_init :: "retransmission_timer \<Rightarrow> retransmission_timer" where
  "rt_set_rto_init t = t\<lparr>rto := init_rto t\<rparr>"

definition rt_double_rto :: "retransmission_timer \<Rightarrow> retransmission_timer" where
  "rt_double_rto t = t\<lparr>rto := rto t * 2\<rparr>"

section \<open>The sender\<close>

record tcp_sender =
  sd_isn :: wrapping_int32
  sd_segments_out :: "tcp_segment list"
  initial_retransmission_timeout :: u32
  sd_stream :: byte_stream
  next_seqno_abs :: u64
  retx_timer :: retransmission_timer
  previous_ackno :: u64
  sd_window_size :: u16
  outstanding_segments :: "tcp_segment list"
  bytes_in_flight :: u64
  consecutive_retransmissions :: u32
  sd_is_fin_sent :: bool

text \<open>\<open>rnd\<close> is the number the random device returns; it is used when no ISN is fixed.\<close>

definition new_tcp_sender :: "u64 \<Rightarrow> u16 \<Rightarrow> wrapping_int32 option \<Rightarrow> u32 \<Rightarrow> tcp_sender" where
  "new_tcp_sender capacity retx_timeout fixed rnd =
     \<lparr>sd_isn = (case fixed of Some i \<Rightarrow> i | None \<Rightarrow> WrappingInt32 rnd), sd_segments_out = [],
      initial_retransmission_timeout = ucast retx_timeout, sd_stream = new_byte_stream capacity,
      next_seqno_abs = 0, retx_timer = new_retransmission_timer retx_timeout, previous_ackno = 0,
      sd_window_size = 1, outstanding_segments = [], bytes_in_flight = 0,
      consecutive_retransmissions = 0, sd_is_fin_sent = False\<rparr>"

definition sd_next_seqno :: "tcp_sender \<Rightarrow> wrapping_int32" where
  "sd_next_seqno s = wrap (next_seqno_abs s) (sd_isn s)"

text \<open>
  The block that \<open>fill_window\<close> repeats for each new segment: number it, queue it for sending
  and as outstanding, start the timer, and count its sequence numbers.
\<close>

definition sd_emit :: "tcp_sender \<Rightarrow> tcp_segment \<Rightarrow> tcp_sender" where
  "sd_emit s seg0 =
     (let seg = seg0\<lparr>seg_header := (seg_header seg0)\<lparr>seqno := wrap (next_seqno_abs s) (sd_isn s)\<rparr>\<rparr>
      in s\<lparr>sd_segments_out := sd_segments_out s @ [seg],
           outstanding_segments := outstanding_segments s @ [seg],
           retx_timer := rt_start (retx_timer s),
           next_seqno_abs := next_seqno_abs s + length_in_sequence_space seg,
           bytes_in_flight := bytes_in_flight s + length_in_sequence_space seg\<rparr>)"

definition syn_segment :: tcp_segment where
  "syn_segment = new_tcp_segment\<lparr>seg_header := new_tcp_header\<lparr>syn := True\<rparr>\<rparr>"

definition fin_segment :: "bytes \<Rightarrow> bool \<Rightarrow> tcp_segment" where
  "fin_segment data f = \<lparr>seg_header = new_tcp_header\<lparr>fin := f\<rparr>, seg_payload = data\<rparr>"

text \<open>One iteration of the loop of \<open>fill_window\<close>; the flag says whether the loop goes on.\<close>

definition fill_body :: "u16 \<Rightarrow> u64 \<Rightarrow> tcp_sender \<Rightarrow> tcp_sender \<times> bool" where
  "fill_body window_size available_window_size s =
     (if bs_eof (sd_stream s)
      then (if \<not> sd_is_fin_sent s
            then sd_emit (s\<lparr>sd_is_fin_sent := True\<rparr>) (fin_segment [] True)
            else s, False)
      else
        let bytes_to_send = (if available_window_size < MAX_PAYLOAD_SIZE
                             then available_window_size else MAX_PAYLOAD_SIZE);
            (stream', payload) = bs_read (sd_stream s) bytes_to_send;
            add_fin = (0 < ucast window_size - length_in_sequence_space (fin_segment payload False)
                       \<and> bs_eof stream');
            temp_seg = fin_segment payload add_fin;
            s1 = s\<lparr>sd_stream := stream', sd_is_fin_sent := sd_is_fin_sent s \<or> add_fin\<rparr>
        in if length_in_sequence_space temp_seg \<noteq> 0 then (sd_emit s1 temp_seg, True)
           else (s1, False))"

definition fill_measure :: "tcp_sender \<Rightarrow> nat" where
  "fill_measure s = (if bs_eof (sd_stream s) then 0 else Suc (length (bs_buffer (sd_stream s))))"

lemma fill_body_decreases:
  assumes "fill_body w a s = (t, True)" and "0 < a"
  shows "fill_measure t < fill_measure s"
proof -
  let ?n = "if a < MAX_PAYLOAD_SIZE then a else MAX_PAYLOAD_SIZE"
  let ?b = "bs_buffer (sd_stream s)"
  have n: "0 < unat ?n"
    using assms(2) by (simp add: MAX_PAYLOAD_SIZE_def u64_pos_iff)
  from assms(1) have ne: "\<not> bs_eof (sd_stream s)"
    by (auto simp: fill_body_def split: if_splits)
  obtain st d where r: "bs_read (sd_stream s) ?n = (st, d)" by fastforce
  have t: "sd_stream t = st"
    and c: "d \<noteq> [] \<or> bs_eof st"
    using assms(1) ne r
    by (auto simp: fill_body_def Let_def sd_emit_def length_in_sequence_space_def fin_segment_def
        new_tcp_header_def split: if_splits prod.splits)
  show ?thesis
  proof (cases "bs_eof st")
    case True
    then show ?thesis using ne t by (simp add: fill_measure_def)
  next
    case False
    with c have "d \<noteq> []" by simp
    moreover have "d = bs_peek_output (sd_stream s) ?n" and st: "st = bs_pop_output (sd_stream s) ?n"
      using r by (auto simp: bs_read_def Let_def)
    ultimately have "?b \<noteq> []"
      by (auto simp: bs_peek_output_def split: if_splits)
    then have "length (bs_buffer st) < length ?b"
      using n unfolding st by (auto simp: bs_pop_output_def Let_def bs_input_ended_def)
    then show ?thesis using ne t False by (simp add: fill_measure_def)
  qed
qed

function fill_loop :: "u16 \<Rightarrow> u64 \<Rightarrow> tcp_sender \<Rightarrow> tcp_sender" where
  "fill_loop window_size available_window_size s =
     (if 0 < available_window_size
      then case fill_body window_size available_window_size s of
             (t, True) \<Rightarrow>
               fill_loop window_size (ucast window_size - (next_seqno_abs t - previous_ackno t)) t
           | (t, False) \<Rightarrow> t
      else s)"
  by pat_completeness auto
termination
  by (relation "measure (\<lambda>(w, a, s). fill_measure s)") (auto dest: fill_body_decreases [OF sym])

declare fill_loop.simps [simp del]

lemma fill_loop_code [code]:
  "fill_loop w a s =
     (if 0 < a
      then let p = fill_body w a s
           in if snd p then fill_loop w (ucast w - (next_seqno_abs (fst p) - previous_ackno (fst p))) (fst p)
              else fst p
      else s)"
  by (subst fill_loop.simps) (simp add: Let_def split: prod.split bool.split)

definition fill_window :: "tcp_sender \<Rightarrow> tcp_sender" where
  "fill_window s =
     (let window_size = (if sd_window_size s = 0 then 1 else sd_window_size s);
          available_window_size = ucast window_size - (next_seqno_abs s - previous_ackno s)
      in if next_seqno_abs s = 0 then sd_emit s syn_segment
         else if 0 < next_seqno_abs s \<and> next_seqno_abs s = bytes_in_flight s then s
         else fill_loop window_size available_window_size s)"

text \<open>The loop of \<open>ack_received\<close> over the outstanding segments.\<close>

fun pop_acked :: "wrapping_int32 \<Rightarrow> u64 \<Rightarrow> u64 \<Rightarrow> tcp_segment list \<Rightarrow> u64 \<Rightarrow> tcp_segment list \<times> u64" where
  "pop_acked isn prev unwrapped_ackno [] inflight = ([], inflight)"
| "pop_acked isn prev unwrapped_ackno (temp_seg # segs) inflight =
     (let seg_unwrapped_seqno = unwrap (seqno (seg_header temp_seg)) isn prev;
          temp_seg_size = length_in_sequence_space temp_seg
      in if seg_unwrapped_seqno + length_in_sequence_space temp_seg \<le> unwrapped_ackno
         then pop_acked isn prev unwrapped_ackno segs (inflight - temp_seg_size)
         else (temp_seg # segs, inflight))"

definition ack_received :: "tcp_sender \<Rightarrow> wrapping_int32 \<Rightarrow> u16 \<Rightarrow> tcp_sender" where
  "ack_received s ackn window_size =
     (let unwrapped_ackno = unwrap ackn (sd_isn s) (previous_ackno s);
          s1 = s\<lparr>sd_window_size := window_size\<rparr>
      in if next_seqno_abs s1 < unwrapped_ackno then s1
         else if unwrapped_ackno \<le> previous_ackno s1 then s1
         else
           let s2 = s1\<lparr>previous_ackno := unwrapped_ackno,
                       retx_timer := rt_start (rt_stop (rt_set_rto_init (retx_timer s1)))\<rparr>;
               (segs, inflight) = pop_acked (sd_isn s2) (previous_ackno s2) unwrapped_ackno
                                    (outstanding_segments s2) (bytes_in_flight s2);
               s3 = s2\<lparr>outstanding_segments := segs, bytes_in_flight := inflight,
                       consecutive_retransmissions := 0\<rparr>;
               s4 = fill_window s3
           in if outstanding_segments s4 \<noteq> []
              then s4\<lparr>retx_timer := rt_start (rt_stop (retx_timer s4))\<rparr>
              else s4\<lparr>retx_timer := rt_stop (retx_timer s4)\<rparr>)"

definition sd_tick :: "tcp_sender \<Rightarrow> u64 \<Rightarrow> tcp_sender" where
  "sd_tick s ms_since_last_tick =
     (let (timer', is_expired) = rt_tick (retx_timer s) ms_since_last_tick;
          s1 = s\<lparr>retx_timer := timer'\<rparr>
      in if is_expired
         then
           let s2 = (case outstanding_segments s1 of
                       [] \<Rightarrow> s1
                     | seg # _ \<Rightarrow> s1\<lparr>sd_segments_out := sd_segments_out s1 @ [seg]\<rparr>);
               s3 = (if sd_window_size s2 \<noteq> 0
                     then s2\<lparr>consecutive_retransmissions := consecutive_retransmissions s2 + 1,
                             retx_timer := rt_double_rto (retx_timer s2)\<rparr>
                     else s2)
           in s3\<lparr>retx_timer := rt_start (rt_stop (retx_timer s3))\<rparr>
         else s1)"

definition send_empty_segment :: "tcp_sender \<Rightarrow> tcp_sender" where
  "send_empty_segment s =
     (let empty_seg = new_tcp_segment\<lparr>seg_header :=
                        new_tcp_header\<lparr>seqno := wrap (next_seqno_abs s) (sd_isn s)\<rparr>\<rparr>
      in s\<lparr>sd_segments_out := sd_segments_out s @ [empty_seg]\<rparr>)"

text \<open>The writer's side of \<open>stream_in()\<close>.\<close>

definition sd_write_stream :: "tcp_sender \<Rightarrow> bytes \<Rightarrow> tcp_sender \<times> u64" where
  "sd_write_stream s data =
     (let (stream', n) = bs_write (sd_stream s) data in (s\<lparr>sd_stream := stream'\<rparr>, n))"

definition sd_end_stream :: "tcp_sender \<Rightarrow> tcp_sender" where
  "sd_end_stream s = s\<lparr>sd_stream := bs_end_input (sd_stream s)\<rparr>"

definition sd_set_error :: "tcp_sender \<Rightarrow> tcp_sender" where
  "sd_set_error s = s\<lparr>sd_stream := bs_set_error (sd_stream s)\<rparr>"

section \<open>Runs of segments in sequence space\<close>

fun segs_at :: "wrapping_int32 \<Rightarrow> nat \<Rightarrow> tcp_segment list \<Rightarrow> bool" where
  "segs_at isn a [] = True"
| "segs_at isn a (seg # segs) =
     (seqno (seg_header seg) = wrap (of_nat a) isn \<and> 0 < seg_len seg \<and>
      length (seg_payload seg) \<le> 1000 \<and> segs_at isn (a + seg_len seg) segs)"

definition segs_len :: "tcp_segment list \<Rightarrow> nat" where
  "segs_len segs = sum_list (map seg_len segs)"

lemma segs_len_simps [simp]:
  "segs_len [] = 0" "segs_len (x # xs) = seg_len x + segs_len xs"
  "segs_len (xs @ ys) = segs_len xs + segs_len ys"
  by (simp_all add: segs_len_def)

lemma segs_at_append [simp]:
  "segs_at isn a (xs @ ys) \<longleftrightarrow> segs_at isn a xs \<and> segs_at isn (a + segs_len xs) ys"
  by (induction xs arbitrary: a) (auto simp: add.assoc)

lemma segs_at_len_0: "segs_at isn a segs \<Longrightarrow> segs_len segs = 0 \<longleftrightarrow> segs = []"
  by (cases segs) auto

text \<open>
  \<open>sd_sent s t segs\<close>: going from \<open>s\<close> to \<open>t\<close> the sender has sent the new segments \<open>segs\<close>, in
  order and without gaps, carrying exactly the bytes taken from the front of the stream.
\<close>

definition sd_sent :: "tcp_sender \<Rightarrow> tcp_sender \<Rightarrow> tcp_segment list \<Rightarrow> bool" where
  "sd_sent s t segs \<longleftrightarrow>
     sd_segments_out t = sd_segments_out s @ segs \<and>
     outstanding_segments t = outstanding_segments s @ segs \<and>
     bs_buffer (sd_stream s) = concat (map seg_payload segs) @ bs_buffer (sd_stream t) \<and>
     segs_at (sd_isn s) (unat (next_seqno_abs s)) segs \<and>
     unat (next_seqno_abs t) = unat (next_seqno_abs s) + segs_len segs \<and>
     bytes_in_flight t = bytes_in_flight s + of_nat (segs_len segs) \<and>
     retx_timer t = (if segs = [] then retx_timer s else rt_start (retx_timer s)) \<and>
     sd_isn t = sd_isn s \<and> previous_ackno t = previous_ackno s \<and>
     sd_window_size t = sd_window_size s \<and>
     consecutive_retransmissions t = consecutive_retransmissions s \<and>
     initial_retransmission_timeout t = initial_retransmission_timeout s \<and>
     sd_is_fin_sent t = (sd_is_fin_sent s \<or> (\<exists>x \<in> set segs. fin (seg_header x))) \<and>
     bs_eof_exact (sd_stream t) \<and>
     total_written_bytes (sd_stream t) = total_written_bytes (sd_stream s) \<and>
     total_capacity (sd_stream t) = total_capacity (sd_stream s) \<and>
     is_input_ended (sd_stream t) = is_input_ended (sd_stream s) \<and>
     bs_error_flag (sd_stream t) = bs_error_flag (sd_stream s)"

lemma sd_sentD:
  assumes "sd_sent s t segs"
  shows "sd_segments_out t = sd_segments_out s @ segs" "outstanding_segments t = outstanding_segments s @ segs"
    "bs_buffer (sd_stream s) = concat (map seg_payload segs) @ bs_buffer (sd_stream t)"
    "segs_at (sd_isn s) (unat (next_seqno_abs s)) segs"
    "unat (next_seqno_abs t) = unat (next_seqno_abs s) + segs_len segs"
    "bytes_in_flight t = bytes_in_flight s + of_nat (segs_len segs)"
    "sd_isn t = sd_isn s" "previous_ackno t = previous_ackno s" "sd_window_size t = sd_window_size s"
    "sd_is_fin_sent t = (sd_is_fin_sent s \<or> (\<exists>x \<in> set segs. fin (seg_header x)))"
    "bs_eof_exact (sd_stream t)" "total_written_bytes (sd_stream t) = total_written_bytes (sd_stream s)"
    "is_input_ended (sd_stream t) = is_input_ended (sd_stream s)"
  using assms unfolding sd_sent_def by blast+

lemma rt_start_idem [simp]: "rt_start (rt_start t) = rt_start t"
  by (simp add: rt_start_def)

lemma sd_sent_refl: "bs_eof_exact (sd_stream s) \<Longrightarrow> sd_sent s s []"
  by (simp add: sd_sent_def)

lemma sd_sent_trans: "sd_sent s t xs \<Longrightarrow> sd_sent t u ys \<Longrightarrow> sd_sent s u (xs @ ys)"
  by (auto simp: sd_sent_def algebra_simps)

text \<open>Emitting one numbered segment whose payload has just been read from the stream.\<close>

definition numbered :: "tcp_sender \<Rightarrow> tcp_segment \<Rightarrow> tcp_segment" where
  "numbered s seg =
     seg\<lparr>seg_header := (seg_header seg)\<lparr>seqno := wrap (next_seqno_abs s) (sd_isn s)\<rparr>\<rparr>"

lemma numbered_simps [simp]:
  "seg_payload (numbered s seg) = seg_payload seg"
  "syn (seg_header (numbered s seg)) = syn (seg_header seg)"
  "fin (seg_header (numbered s seg)) = fin (seg_header seg)"
  "rst (seg_header (numbered s seg)) = rst (seg_header seg)"
  "seqno (seg_header (numbered s seg)) = wrap (next_seqno_abs s) (sd_isn s)"
  "seg_len (numbered s seg) = seg_len seg"
  by (simp_all add: numbered_def seg_len_def)

lemma sd_emit_eq:
  "sd_emit s seg = s\<lparr>sd_segments_out := sd_segments_out s @ [numbered s seg],
     outstanding_segments := outstanding_segments s @ [numbered s seg],
     retx_timer := rt_start (retx_timer s),
     next_seqno_abs := next_seqno_abs s + of_nat (seg_len seg),
     bytes_in_flight := bytes_in_flight s + of_nat (seg_len seg)\<rparr>"
proof -
  have "length_in_sequence_space (numbered s seg) = of_nat (seg_len seg)"
    by (simp add: length_in_sequence_space_of_nat)
  then show ?thesis
    by (simp add: sd_emit_def numbered_def Let_def)
qed

lemma sd_sent_emit:
  assumes "bs_eof_exact st" and "bs_buffer (sd_stream s) = seg_payload seg @ bs_buffer st"
    and "total_written_bytes st = total_written_bytes (sd_stream s)"
    and "total_capacity st = total_capacity (sd_stream s)"
    and "is_input_ended st = is_input_ended (sd_stream s)"
    and "bs_error_flag st = bs_error_flag (sd_stream s)"
    and "0 < seg_len seg" and "length (seg_payload seg) \<le> 1000"
    and "unat (next_seqno_abs s) + seg_len seg < two64"
  shows "sd_sent s (sd_emit (s\<lparr>sd_stream := st, sd_is_fin_sent := sd_is_fin_sent s \<or> fin (seg_header seg)\<rparr>) seg)
    [numbered s seg]"
proof -
  have "unat (of_nat (seg_len seg) :: u64) = seg_len seg"
    using assms(9) by (simp add: unat_of_nat_u64)
  then have "unat (next_seqno_abs s + of_nat (seg_len seg)) = unat (next_seqno_abs s) + seg_len seg"
    using assms(9) by (simp add: unat_add_u64)
  moreover have "numbered (s\<lparr>sd_stream := st, sd_is_fin_sent := b\<rparr>) seg = numbered s seg" for b
    by (simp add: numbered_def)
  ultimately show ?thesis
    using assms by (simp add: sd_sent_def sd_emit_eq)
qed

section \<open>Filling the window\<close>

abbreviation nxt :: "tcp_sender \<Rightarrow> nat" where
  "nxt s \<equiv> unat (next_seqno_abs s)"

abbreviation prv :: "tcp_sender \<Rightarrow> nat" where
  "prv s \<equiv> unat (previous_ackno s)"

lemma fin_segment_simps [simp]:
  "seg_payload (fin_segment d f) = d" "fin (seg_header (fin_segment d f)) = f"
  "syn (seg_header (fin_segment d f)) = False" "rst (seg_header (fin_segment d f)) = False"
  "seg_len (fin_segment d f) = length d + of_bool f"
  by (simp_all add: fin_segment_def new_tcp_header_def seg_len_def)

lemma bs_eof_exact_pop: "bs_eof_exact st \<Longrightarrow> bs_eof_exact (bs_pop_output st n)"
  using bsm.step_inv [of st "Take n"] by (simp add: bs_read_def)

lemma fill_body_idle:
  fixes w :: u16 and a :: u64
  assumes ex: "bs_eof_exact (sd_stream s)" and ne: "\<not> bs_eof (sd_stream s)" and b: "bs_buffer (sd_stream s) = []"
  shows "fill_body w a s = (s, False)"
proof -
  have "\<not> is_input_ended (sd_stream s)" "bs_wf (sd_stream s)"
    using ex ne b by (auto simp: bs_eof_exact_def bs_eof_def)
  moreover from this have "bs_pop_output (sd_stream s) n = sd_stream s" for n
    using b by (simp add: bs_pop_output_eq)
  ultimately show ?thesis
    using ne b by (simp add: fill_body_def bs_read_def bs_peek_output_eq length_in_sequence_space_of_nat)
qed

lemma fill_body_data:
  fixes w :: u16
  assumes ex: "bs_eof_exact (sd_stream s)" and ne: "\<not> bs_eof (sd_stream s)"
    and b: "bs_buffer (sd_stream s) \<noteq> []" and a: "0 < a"
  defines "n \<equiv> min (unat a) 1000"
  defines "p \<equiv> take n (bs_buffer (sd_stream s))"
  defines "f \<equiv> is_input_ended (sd_stream s) \<and> length (bs_buffer (sd_stream s)) \<le> n \<and> unat w \<noteq> length p"
  shows "fill_body w a s = (sd_emit (s\<lparr>sd_stream := bs_pop_output (sd_stream s) (of_nat n),
     sd_is_fin_sent := sd_is_fin_sent s \<or> fin (seg_header (fin_segment p f))\<rparr>) (fin_segment p f), True)"
proof -
  have wf: "bs_wf (sd_stream s)" using ex by (simp add: bs_eof_exact_def)
  have m: "(if a < MAX_PAYLOAD_SIZE then a else MAX_PAYLOAD_SIZE) = of_nat n"
    by (auto simp: n_def MAX_PAYLOAD_SIZE_def min_def word_less_nat_alt)
  have n: "unat (of_nat n :: u64) = n" by (rule unat_of_nat_u64) (simp add: n_def)
  have pl: "length p \<le> 1000" by (simp add: p_def n_def)
  have pne: "p \<noteq> []" using b a by (simp add: p_def n_def u64_pos_iff)
  have "unat (ucast w :: u64) = unat w"
    using unat_u16_less [of w] by (simp add: unsigned_ucast_eq take_bit_eq_mod)
  then have "(ucast w :: u64) = of_nat (length p) \<longleftrightarrow> unat w = length p"
    using pl by (simp add: word_unat_eq_iff unat_of_nat_u64)
  then have g: "0 < (ucast w :: u64) - of_nat (length p) \<longleftrightarrow> unat w \<noteq> length p"
    by (simp add: word_neq_0_conv [symmetric])
  have e: "bs_eof (bs_pop_output (sd_stream s) (of_nat n)) \<longleftrightarrow>
      is_input_ended (sd_stream s) \<and> length (bs_buffer (sd_stream s)) \<le> n"
    using ex ne by (auto simp: bs_pop_output_eq [OF wf] n bs_eof_def bs_eof_exact_def)
  have rd: "bs_read (sd_stream s) (of_nat n) = (bs_pop_output (sd_stream s) (of_nat n), p)"
    by (simp add: bs_read_eq [OF wf] n p_def)
  have fl: "(0 < ucast w - length_in_sequence_space (fin_segment p False) \<and>
      bs_eof (bs_pop_output (sd_stream s) (of_nat n))) = f"
    using g by (auto simp: e f_def length_in_sequence_space_of_nat)
  have "length p + of_bool f < two64" "length p + of_bool f \<noteq> 0" using pl pne by simp_all
  then have "unat (of_nat (length p + of_bool f) :: u64) \<noteq> 0"
    by (metis unat_of_nat_u64)
  then have nz: "length_in_sequence_space (fin_segment p f) \<noteq> 0"
    by (auto simp: length_in_sequence_space_of_nat)
  show ?thesis
    unfolding fill_body_def Let_def m rd prod.case fl using ne nz by simp
qed

lemma fill_body_data_sent:
  fixes w :: u16
  assumes ex: "bs_eof_exact (sd_stream s)" and ne: "\<not> bs_eof (sd_stream s)"
    and b: "bs_buffer (sd_stream s) \<noteq> []" and a: "0 < a"
    and k: "nxt s + length (bs_buffer (sd_stream s)) + 1 < two64"
  obtains t p f where "fill_body w a s = (t, True)" "sd_sent s t [numbered s (fin_segment p f)]"
    "p \<noteq> []" "length p \<le> unat a" "f \<Longrightarrow> bs_eof (sd_stream t)" "f \<Longrightarrow> length p \<noteq> unat w"
    "bs_eof (sd_stream t) \<Longrightarrow> \<not> f \<Longrightarrow> unat w = length p"
proof -
  let ?n = "min (unat a) 1000" and ?b = "bs_buffer (sd_stream s)"
  let ?p = "take ?n ?b"
  let ?f = "is_input_ended (sd_stream s) \<and> length ?b \<le> ?n \<and> unat w \<noteq> length ?p"
  let ?st = "bs_pop_output (sd_stream s) (of_nat ?n)"
  have wf: "bs_wf (sd_stream s)" using ex by (simp add: bs_eof_exact_def)
  have n: "unat (of_nat ?n :: u64) = ?n" by (rule unat_of_nat_u64) simp
  have pne: "?p \<noteq> []" using b a by (simp add: u64_pos_iff)
  have ef: "bs_eof ?st \<longleftrightarrow> is_input_ended (sd_stream s) \<and> length ?b \<le> ?n"
    using ex ne by (auto simp: bs_pop_output_eq [OF wf] n bs_eof_def bs_eof_exact_def)
  have st: "bs_buffer ?st = drop ?n ?b"
    by (simp only: bsq.pop_contents [OF wf] n)
  have "sd_sent s (sd_emit (s\<lparr>sd_stream := ?st,
      sd_is_fin_sent := sd_is_fin_sent s \<or> fin (seg_header (fin_segment ?p ?f))\<rparr>) (fin_segment ?p ?f))
      [numbered s (fin_segment ?p ?f)]"
    using bs_eof_exact_pop [OF ex] pne k
    by (intro sd_sent_emit) (auto simp: st frame_simps)
  with fill_body_data [OF ex ne b a, of w] pne ef show thesis
    by (intro that [of _ ?p ?f]) (auto simp: sd_emit_eq)
qed

lemma fill_body_fin_sent:
  assumes ex: "bs_eof_exact (sd_stream s)" and e: "bs_eof (sd_stream s)"
    and nf: "\<not> sd_is_fin_sent s" and k: "nxt s + 1 < two64"
  obtains t where "fill_body w a s = (t, False)" "sd_sent s t [numbered s (fin_segment [] True)]"
    "bs_eof (sd_stream t)"
proof -
  have "sd_sent s (sd_emit (s\<lparr>sd_stream := sd_stream s,
      sd_is_fin_sent := sd_is_fin_sent s \<or> fin (seg_header (fin_segment [] True))\<rparr>) (fin_segment [] True))
      [numbered s (fin_segment [] True)]"
    using ex k by (intro sd_sent_emit) simp_all
  then show thesis
    using e nf by (intro that [of "sd_emit (s\<lparr>sd_is_fin_sent := True\<rparr>) (fin_segment [] True)"])
      (simp_all add: fill_body_def sd_emit_eq)
qed

lemma fill_loop_fin:
  assumes "sd_is_fin_sent s" "bs_eof (sd_stream s)"
  shows "fill_loop w a s = s"
  using assms by (simp add: fill_loop.simps fill_body_def)

text \<open>
  What a run of the loop sends: new segments without SYN or RST, where only the last may be a FIN.  If at its start the
  window had room, it stays within the window, a FIN apart, and it stops only when the window
  is full or there is nothing left to send.
\<close>

definition filled :: "u16 \<Rightarrow> tcp_sender \<Rightarrow> bool" where
  "filled w t \<longleftrightarrow>
     nxt t \<le> prv t + unat w + of_bool (sd_is_fin_sent t) \<and>
     (nxt t < prv t + unat w \<longrightarrow>
        bs_buffer (sd_stream t) = [] \<and> (is_input_ended (sd_stream t) \<longrightarrow> sd_is_fin_sent t))"

definition available :: "u16 \<Rightarrow> u64 \<Rightarrow> tcp_sender \<Rightarrow> bool" where
  "available w a s \<longleftrightarrow> prv s \<le> nxt s \<and> nxt s \<le> prv s + unat w \<and> unat a = prv s + unat w - nxt s"

definition plain_segs :: "tcp_segment list \<Rightarrow> bool" where
  "plain_segs segs \<longleftrightarrow> (\<forall>x \<in> set segs. \<not> syn (seg_header x) \<and> \<not> rst (seg_header x)) \<and>
     (\<forall>x \<in> set (butlast segs). \<not> fin (seg_header x))"

lemma plain_segs_simps [simp]:
  "plain_segs []" "plain_segs [x] \<longleftrightarrow> \<not> syn (seg_header x) \<and> \<not> rst (seg_header x)"
  by (auto simp: plain_segs_def)

lemma plain_segs_Cons:
  "plain_segs segs \<Longrightarrow> \<not> syn (seg_header x) \<Longrightarrow> \<not> rst (seg_header x) \<Longrightarrow> \<not> fin (seg_header x)
    \<Longrightarrow> plain_segs (x # segs)"
  by (auto simp: plain_segs_def)

lemma available_after:
  fixes w :: u16
  assumes "prv t \<le> nxt t" "nxt t \<le> prv t + unat w"
  shows "available w (ucast w - (next_seqno_abs t - previous_ackno t)) t"
proof -
  have u: "unat (ucast w :: u64) = unat w"
    using unat_u16_less [of w] by (simp add: unsigned_ucast_eq take_bit_eq_mod)
  have d: "unat (next_seqno_abs t - previous_ackno t) = nxt t - prv t"
    using assms(1) by (rule unat_sub_u64)
  have "unat (ucast w - (next_seqno_abs t - previous_ackno t)) = unat w - (nxt t - prv t)"
    using assms by (subst unat_sub_u64) (simp_all add: u d)
  then show ?thesis using assms by (simp add: available_def)
qed

lemma fill_loop_spec:
  assumes "bs_eof_exact (sd_stream s)" and "\<not> sd_is_fin_sent s"
    and "nxt s + length (bs_buffer (sd_stream s)) + 1 < two64"
  shows "\<exists>segs. sd_sent s (fill_loop w a s) segs \<and>
    plain_segs segs \<and>
    (sd_is_fin_sent (fill_loop w a s) \<longrightarrow> bs_eof (sd_stream (fill_loop w a s))) \<and>
    (available w a s \<longrightarrow> filled w (fill_loop w a s))"
  using assms
proof (induction w a s rule: fill_loop.induct)
  case (1 w a s)
  note ex = "1.prems"(1) and nf = "1.prems"(2) and k = "1.prems"(3)
  consider "a = 0" | "0 < a" "bs_eof (sd_stream s)" | "0 < a" "\<not> bs_eof (sd_stream s)" "bs_buffer (sd_stream s) = []"
    | "0 < a" "\<not> bs_eof (sd_stream s)" "bs_buffer (sd_stream s) \<noteq> []"
    by (meson word_neq_0_conv)
  then show ?case
  proof cases
    case 1
    then show ?thesis
      using ex nf by (auto simp: fill_loop.simps intro!: exI [of _ "[]"] sd_sent_refl
          simp: available_def filled_def)
  next
    case 2
    obtain t where t: "fill_body w a s = (t, False)" "sd_sent s t [numbered s (fin_segment [] True)]"
      "bs_eof (sd_stream t)"
      using ex 2 nf k by (elim fill_body_fin_sent) auto
    then show ?thesis
      using 2 by (auto simp: fill_loop.simps [of w a s] available_def filled_def sd_sent_def bs_eof_def bs_eof_exact_def
          intro!: exI [of _ "[numbered s (fin_segment [] True)]"])
  next
    case 3
    then show ?thesis
      using ex nf by (auto simp: fill_loop.simps [of w a s] fill_body_idle available_def filled_def
          bs_eof_def bs_eof_exact_def intro!: exI [of _ "[]"] sd_sent_refl)
  next
    case 4
    obtain t p f where t: "fill_body w a s = (t, True)" "sd_sent s t [numbered s (fin_segment p f)]"
      "p \<noteq> []" "length p \<le> unat a" "f \<Longrightarrow> bs_eof (sd_stream t)"
      using fill_body_data_sent [OF ex 4(2,3,1) k, of w] by metis
    let ?a = "ucast w - (next_seqno_abs t - previous_ackno t)"
    have l: "fill_loop w a s = fill_loop w ?a t" using 4 t by (simp add: fill_loop.simps [of w a s])
    have n: "nxt t = nxt s + length p + of_bool f" "prv t = prv s" "sd_is_fin_sent t \<longleftrightarrow> f"
      "bs_buffer (sd_stream s) = p @ bs_buffer (sd_stream t)" "bs_eof_exact (sd_stream t)"
      using t(2) nf by (auto simp: sd_sent_def)
    show ?thesis
    proof (cases f)
      case True
      have "fill_loop w a s = t" using True n t(5) by (simp add: l fill_loop_fin)
      with True n t show ?thesis
        by (auto simp: available_def filled_def bs_eof_def bs_eof_exact_def
            intro!: exI [of _ "[numbered s (fin_segment p f)]"])
    next
      case False
      have "nxt t + length (bs_buffer (sd_stream t)) + 1 < two64" "\<not> sd_is_fin_sent t"
        using k False n by simp_all
      from "1.IH" [OF 4(1) t(1) [symmetric] refl n(5) this(2,1)] obtain segs where
        r: "sd_sent t (fill_loop w ?a t) segs"
        "plain_segs segs"
        "sd_is_fin_sent (fill_loop w ?a t) \<longrightarrow> bs_eof (sd_stream (fill_loop w ?a t))"
        "available w ?a t \<longrightarrow> filled w (fill_loop w ?a t)"
        by auto
      have "available w a s \<Longrightarrow> available w ?a t"
        using n False t(4) by (intro available_after) (auto simp: available_def)
      then show ?thesis
        using r sd_sent_trans [OF t(2) r(1)] False
        by (auto simp: l plain_segs_Cons intro!: exI [of _ "numbered s (fin_segment p f) # segs"])
    qed
  qed
qed

end
