(* ===== verification/Sender_Invariant.thy ===== *)
theory Sender_Invariant
  imports TCP_Sender
begin

text \<open>
  The invariant of \<open>TCPSender\<close> (src/libsponge/tcp_sender.cc) and its preservation by every
  operation: what is in flight, what the segments carry, and how far the window is used.
\<close>

section \<open>The invariant of the sender\<close>

text \<open>
  The state is paired with the string \<open>S\<close> of all bytes accepted into the outgoing stream.  The
  bytes read so far are in segments, the others are in the buffer; the outstanding segments lie
  one after the other below the next sequence number and the cumulative acknowledgment falls
  inside the first; every segment sent is genuine for \<open>S\<close> or inert; and what is in flight stays
  in the window, as long as no FIN has been sent.
\<close>

abbreviation outs :: "tcp_sender \<Rightarrow> tcp_segment list" where
  "outs s \<equiv> outstanding_segments s"

abbreviation rdc :: "tcp_sender \<Rightarrow> nat" where
  "rdc s \<equiv> unat (total_read_bytes (sd_stream s))"

definition sd_stream_ok :: "bytes \<Rightarrow> tcp_sender \<Rightarrow> bool" where
  "sd_stream_ok S s \<longleftrightarrow> bs_eof_exact (sd_stream s) \<and> length S < two64 - 2 \<and> rdc s \<le> length S \<and>
     bs_buffer (sd_stream s) = drop (rdc s) S \<and> (sd_is_fin_sent s \<longrightarrow> bs_eof (sd_stream s)) \<and>
     (nxt s = 0 \<and> rdc s = 0 \<and> \<not> sd_is_fin_sent s \<or> nxt s = 1 + rdc s + of_bool (sd_is_fin_sent s))"

definition sd_queue_ok :: "tcp_sender \<Rightarrow> bool" where
  "sd_queue_ok s \<longleftrightarrow> segs_len (outs s) \<le> nxt s \<and>
     segs_at (sd_isn s) (nxt s - segs_len (outs s)) (outs s) \<and>
     bytes_in_flight s = of_nat (segs_len (outs s)) \<and>
     nxt s - segs_len (outs s) \<le> prv s \<and> prv s \<le> nxt s \<and>
     (outs s \<noteq> [] \<longrightarrow> prv s < nxt s - segs_len (outs s) + seg_len (hd (outs s)))"

definition sd_window_ok :: "tcp_sender \<Rightarrow> bool" where
  "sd_window_ok s \<longleftrightarrow> nxt s \<le> prv s + 65536 \<and>
     (\<not> sd_is_fin_sent s \<longrightarrow> nxt s \<le> prv s + max 1 (unat (sd_window_size s)))"

definition sd_seg_ok :: "bytes \<Rightarrow> tcp_sender \<Rightarrow> tcp_segment \<Rightarrow> bool" where
  "sd_seg_ok S s seg \<longleftrightarrow> seg_inert seg \<or>
     (\<exists>a. seg_genuine S (sd_isn s) a seg \<and> a + seg_len seg \<le> nxt s) \<and>
     (fin (seg_header seg) \<longrightarrow> sd_is_fin_sent s)"

definition sd_inv :: "tcp_sender \<times> bytes \<Rightarrow> bool" where
  "sd_inv = (\<lambda>(s, S). sd_stream_ok S s \<and> sd_queue_ok s \<and> sd_window_ok s \<and>
     (\<forall>seg \<in> set (sd_segments_out s) \<union> set (outs s). sd_seg_ok S s seg))"

text \<open>A gap-free run of plain segments that carries the next bytes of \<open>S\<close> is genuine.\<close>

lemma plain_segs_fin_count:
  "plain_segs segs \<Longrightarrow> segs_len segs = length (concat (map seg_payload segs))
     + of_bool (\<exists>x \<in> set segs. fin (seg_header x))"
  by (induction segs) (auto simp: plain_segs_def seg_len_def split: if_splits)

lemma segs_genuine:
  assumes "segs_at isn (Suc r) segs" "plain_segs segs" "drop r S = concat (map seg_payload segs) @ rest"
    and "r \<le> length S" and "(\<exists>x \<in> set segs. fin (seg_header x)) \<longrightarrow> rest = []" and "seg \<in> set segs"
  shows "\<exists>a. seg_genuine S isn a seg \<and> a + seg_len seg \<le> Suc r + segs_len segs"
  using assms
proof (induction segs arbitrary: r)
  case Nil
  then show ?case by simp
next
  case (Cons x xs)
  let ?p = "seg_payload x"
  have d: "drop r S = ?p @ concat (map seg_payload xs) @ rest" using Cons.prems(3) by simp
  then have len: "length S = r + length ?p + length (concat (map seg_payload xs) @ rest)"
    using Cons.prems(4) by (metis add.assoc add_diff_cancel_left' le_add_diff_inverse length_append length_drop)
  have sl: "slice_of S ?p r" using len by (simp add: slice_of_def d)
  have fx: "xs = []" if "fin (seg_header x)"
    using that Cons.prems(2) by (auto simp: plain_segs_def split: if_splits)
  have ns: "\<not> syn (seg_header x)" using Cons.prems(2) by (simp add: plain_segs_def)
  show ?case
  proof (cases "seg = x")
    case True
    have "fin (seg_header x) \<longrightarrow> r + length ?p = length S"
      using fx len Cons.prems(5) by auto
    then have "seg_genuine S isn (Suc r) x"
      using sl ns Cons.prems(1,4) by (simp add: seg_genuine_def seg_index_def)
    then show ?thesis using True by (auto intro!: exI [of _ "Suc r"])
  next
    case False
    then have "xs \<noteq> []" "seg \<in> set xs" using Cons.prems(6) by auto
    then have nf: "\<not> fin (seg_header x)" using fx by blast
    then have sx: "seg_len x = length ?p" using ns by (simp add: seg_len_def)
    have "\<exists>a. seg_genuine S isn a seg \<and> a + seg_len seg \<le> Suc (r + length ?p) + segs_len xs"
    proof (rule Cons.IH)
      show "segs_at isn (Suc (r + length ?p)) xs" using Cons.prems(1) sx by simp
      show "plain_segs xs" using Cons.prems(2) \<open>xs \<noteq> []\<close> by (auto simp: plain_segs_def)
      show "drop (r + length ?p) S = concat (map seg_payload xs) @ rest"
        using d by (metis add.commute append_eq_conv_conj drop_drop)
    qed (use len Cons.prems(5) \<open>seg \<in> set xs\<close> in auto)
    then show ?thesis by (simp add: sx add.assoc)
  qed
qed

lemma sd_stream_okD:
  assumes "sd_stream_ok S s"
  shows "bs_eof_exact (sd_stream s)" "length S < two64 - 2" "rdc s \<le> length S"
    "bs_buffer (sd_stream s) = drop (rdc s) S" "sd_is_fin_sent s \<Longrightarrow> bs_eof (sd_stream s)"
    "nxt s = 0 \<and> rdc s = 0 \<and> \<not> sd_is_fin_sent s \<or> nxt s = 1 + rdc s + of_bool (sd_is_fin_sent s)"
  using assms by (simp_all add: sd_stream_ok_def)

lemma sd_sent_read:
  assumes ok: "sd_stream_ok S s" and snt: "sd_sent s t segs"
  shows "rdc t = rdc s + length (concat (map seg_payload segs))" "rdc t \<le> length S"
    "bs_buffer (sd_stream t) = drop (rdc t) S"
proof -
  let ?c = "concat (map seg_payload segs)"
  have b: "drop (rdc s) S = ?c @ bs_buffer (sd_stream t)"
    using sd_stream_okD(4) [OF ok] sd_sentD(3) [OF snt] by simp
  then have len: "rdc s + length ?c + length (bs_buffer (sd_stream t)) = length S"
    using sd_stream_okD(3) [OF ok] by (metis add.assoc le_add_diff_inverse length_append length_drop)
  have "total_written_bytes (sd_stream s) = total_read_bytes (sd_stream s) + str_size (bs_buffer (sd_stream s))"
    "total_written_bytes (sd_stream t) = total_read_bytes (sd_stream t) + str_size (bs_buffer (sd_stream t))"
    using sd_stream_okD(1) [OF ok] sd_sentD(11) [OF snt] by (simp_all add: bs_eof_exact_def bs_wf_def)
  then have "total_read_bytes (sd_stream t) = total_read_bytes (sd_stream s) + str_size ?c"
    using sd_sentD(3,12) [OF snt] by (simp add: str_size_append)
  moreover have "length ?c < two64" "rdc s + length ?c < two64"
    using len sd_stream_okD(2) [OF ok] by simp_all
  ultimately show *: "rdc t = rdc s + length ?c"
    by (simp add: unat_add_u64 unat_str_size)
  show "rdc t \<le> length S" using len * by simp
  show "bs_buffer (sd_stream t) = drop (rdc t) S"
    unfolding * using b by (metis add.commute append_eq_conv_conj drop_drop)
qed

lemma sd_queue_ok_sent:
  assumes q: "sd_queue_ok s" and snt: "sd_sent s t segs"
  shows "sd_queue_ok t"
proof -
  have "prv s = nxt s" if "outs s = []"
    using that q by (simp add: sd_queue_ok_def)
  moreover have "0 < seg_len (hd segs)" if "segs \<noteq> []"
    using sd_sentD(4) [OF snt] that by (cases segs) auto
  ultimately show ?thesis
    using q by (auto simp: sd_queue_ok_def sd_sentD [OF snt] hd_append)
qed

lemma sd_seg_ok_mono:
  assumes "sd_seg_ok S s seg" "sd_isn t = sd_isn s" "nxt s \<le> nxt t" "sd_is_fin_sent s \<Longrightarrow> sd_is_fin_sent t"
  shows "sd_seg_ok S t seg"
  using assms(1,3,4) unfolding sd_seg_ok_def assms(2) by (meson le_trans)

lemma sd_invI:
  assumes "sd_stream_ok S s" "sd_queue_ok s" "sd_window_ok s"
    and "\<And>seg. seg \<in> set (sd_segments_out s) \<Longrightarrow> sd_seg_ok S s seg"
    and "\<And>seg. seg \<in> set (outs s) \<Longrightarrow> sd_seg_ok S s seg"
  shows "sd_inv (s, S)"
  using assms by (auto simp: sd_inv_def)

lemma sd_invD:
  assumes "sd_inv (s, S)"
  shows "sd_stream_ok S s" "sd_queue_ok s" "sd_window_ok s"
    "seg \<in> set (sd_segments_out s) \<Longrightarrow> sd_seg_ok S s seg" "seg \<in> set (outs s) \<Longrightarrow> sd_seg_ok S s seg"
  using assms by (auto simp: sd_inv_def)

text \<open>Sending segments keeps the invariant if the new ones are in order.\<close>

lemma sd_inv_sentI:
  assumes inv: "sd_inv (s, S)" and snt: "sd_sent s t segs" and st: "sd_stream_ok S t" and w: "sd_window_ok t"
    and new: "\<And>seg. seg \<in> set segs \<Longrightarrow> sd_seg_ok S t seg"
  shows "sd_inv (t, S)"
proof (rule sd_invI)
  have "sd_seg_ok S t seg" if "sd_seg_ok S s seg" for seg
    using that by (rule sd_seg_ok_mono) (simp_all add: sd_sentD [OF snt])
  then show "\<And>seg. seg \<in> set (sd_segments_out t) \<Longrightarrow> sd_seg_ok S t seg"
    "\<And>seg. seg \<in> set (outs t) \<Longrightarrow> sd_seg_ok S t seg"
    using new sd_invD [OF inv] by (auto simp: sd_sentD(1,2) [OF snt])
qed (use st w sd_queue_ok_sent [OF sd_invD(2) [OF inv] snt] in simp_all)

lemma sd_inv_sent:
  assumes inv: "sd_inv (s, S)" and snt: "sd_sent s t segs" and pl: "plain_segs segs"
    and n0: "nxt s \<noteq> 0" and nf: "\<not> sd_is_fin_sent s"
    and fe: "sd_is_fin_sent t \<longrightarrow> bs_eof (sd_stream t)" and w: "sd_window_ok t"
  shows "sd_inv (t, S)"
proof (rule sd_inv_sentI [OF inv snt _ w])
  note st = sd_invD(1) [OF inv]
  note rd = sd_sent_read [OF st snt]
  have n: "nxt s = Suc (rdc s)" using sd_stream_okD(6) [OF st] n0 nf by simp
  have ft: "sd_is_fin_sent t \<longleftrightarrow> (\<exists>x \<in> set segs. fin (seg_header x))"
    and nt: "nxt t = Suc (rdc s) + segs_len segs" using sd_sentD(5,10) [OF snt] nf n by simp_all
  show "sd_stream_ok S t"
    using sd_stream_okD(2) [OF st] sd_sentD(11) [OF snt] rd fe ft nt
    by (simp add: sd_stream_ok_def plain_segs_fin_count [OF pl])
  have e: "sd_is_fin_sent t \<Longrightarrow> bs_buffer (sd_stream t) = []"
    using fe sd_sentD(11) [OF snt] by (simp add: bs_eof_exact_def bs_eof_def)
  show "sd_seg_ok S t seg" if "seg \<in> set segs" for seg
  proof -
    have "\<exists>a. seg_genuine S (sd_isn s) a seg \<and> a + seg_len seg \<le> Suc (rdc s) + segs_len segs"
      using that sd_sentD(3,4) [OF snt] sd_stream_okD(3,4) [OF st] pl ft e n
      by (intro segs_genuine [where rest = "bs_buffer (sd_stream t)"]) simp_all
    then show ?thesis
      using that ft unfolding sd_seg_ok_def sd_sentD(7) [OF snt] nt by blast
  qed
qed

text \<open>The first segment is the SYN.\<close>

lemma syn_segment_simps [simp]:
  "seg_payload syn_segment = []" "fin (seg_header syn_segment) = False"
  "syn (seg_header syn_segment) = True" "rst (seg_header syn_segment) = False" "seg_len syn_segment = 1"
  by (simp_all add: syn_segment_def new_tcp_segment_def new_tcp_header_def seg_len_def)

lemma sd_sent_syn:
  assumes "bs_eof_exact (sd_stream s)" "nxt s + 1 < two64"
  shows "sd_sent s (sd_emit s syn_segment) [numbered s syn_segment]"
proof -
  have "s\<lparr>sd_stream := sd_stream s, sd_is_fin_sent := sd_is_fin_sent s \<or> fin (seg_header syn_segment)\<rparr> = s"
    by simp
  then show ?thesis
    using sd_sent_emit [of "sd_stream s" s syn_segment] assms by simp
qed

lemma sd_inv_syn:
  assumes inv: "sd_inv (s, S)" and n0: "nxt s = 0"
  shows "sd_inv (sd_emit s syn_segment, S)"
proof -
  let ?t = "sd_emit s syn_segment"
  note st = sd_invD(1) [OF inv]
  have snt: "sd_sent s ?t [numbered s syn_segment]"
    using n0 sd_stream_okD(1) [OF st] by (intro sd_sent_syn) simp_all
  note sent = sd_sentD [OF snt] and rd = sd_sent_read [OF st snt]
  have nf: "\<not> sd_is_fin_sent s" "rdc s = 0" using sd_stream_okD(6) [OF st] n0 by auto
  show ?thesis
  proof (rule sd_inv_sentI [OF inv snt])
    show "sd_stream_ok S ?t"
      using sd_stream_okD(2) [OF st] sent(5,10,11) rd nf n0 by (simp add: sd_stream_ok_def)
    show "sd_window_ok ?t" using sent(5,8) n0 by (simp add: sd_window_ok_def max_def)
    have "seg_genuine S (sd_isn s) 0 (numbered s syn_segment)"
      using n0 by (simp add: seg_genuine_def seg_index_def unat_eq_0)
    then show "sd_seg_ok S ?t seg" if "seg \<in> set [numbered s syn_segment]" for seg
      using that sent(5,7) by (auto simp: sd_seg_ok_def)
  qed
qed

section \<open>Filling the window\<close>

definition effective_window :: "tcp_sender \<Rightarrow> u16" where
  "effective_window s = (if sd_window_size s = 0 then 1 else sd_window_size s)"

lemma unat_effective_window: "unat (effective_window s) = max 1 (unat (sd_window_size s))"
  by (cases "sd_window_size s = 0") (auto simp: effective_window_def max_def unat_eq_0 [symmetric])

lemma filled_window_ok:
  assumes "filled (effective_window s) t" "sd_window_size t = sd_window_size s"
  shows "sd_window_ok t"
  using assms unat_u16_less [of "effective_window s"]
  by (cases "sd_is_fin_sent t") (auto simp: filled_def sd_window_ok_def unat_effective_window)

text \<open>
  Once the SYN is acknowledged and before the FIN is sent, \<open>fill_window\<close> sends new plain
  segments until the window is full or there is nothing left to send.
\<close>

lemma fill_window_sent:
  assumes inv: "sd_inv (s, S)" and n0: "nxt s \<noteq> 0" and ack: "next_seqno_abs s \<noteq> bytes_in_flight s"
    and nf: "\<not> sd_is_fin_sent s"
  obtains segs where "sd_sent s (fill_window s) segs" "plain_segs segs"
    "sd_is_fin_sent (fill_window s) \<longrightarrow> bs_eof (sd_stream (fill_window s))"
    "filled (effective_window s) (fill_window s)"
proof -
  let ?w = "effective_window s"
  let ?a = "ucast ?w - (next_seqno_abs s - previous_ackno s)"
  note st = sd_stream_okD [OF sd_invD(1) [OF inv]]
  have f: "fill_window s = fill_loop ?w ?a s"
    using n0 ack by (auto simp: fill_window_def Let_def effective_window_def)
  have "prv s \<le> nxt s" "nxt s \<le> prv s + unat ?w"
    using sd_invD(2,3) [OF inv] nf by (simp_all add: sd_queue_ok_def sd_window_ok_def unat_effective_window)
  then have av: "available ?w ?a s" by (rule available_after)
  have "nxt s + length (bs_buffer (sd_stream s)) + 1 < two64"
    using st n0 nf by simp
  from fill_loop_spec [OF st(1) nf this, of ?w ?a, folded f] av show thesis
    by (elim exE conjE) (rule that, auto)
qed

lemma sd_inv_fill:
  assumes inv: "sd_inv (s, S)"
  shows "sd_inv (fill_window s, S)"
proof -
  consider "nxt s = 0" | "nxt s \<noteq> 0" "next_seqno_abs s = bytes_in_flight s"
    | "nxt s \<noteq> 0" "next_seqno_abs s \<noteq> bytes_in_flight s" "sd_is_fin_sent s"
    | "nxt s \<noteq> 0" "next_seqno_abs s \<noteq> bytes_in_flight s" "\<not> sd_is_fin_sent s"
    by blast
  then show ?thesis
  proof cases
    case 1
    then have "fill_window s = sd_emit s syn_segment"
      by (simp add: fill_window_def Let_def unat_eq_0)
    then show ?thesis using sd_inv_syn [OF inv 1] by simp
  next
    case 2
    then have "fill_window s = s"
      by (auto simp: fill_window_def Let_def word_neq_0_conv)
    then show ?thesis using inv by simp
  next
    case 3
    then have "fill_window s = s"
      using sd_stream_okD(5) [OF sd_invD(1) [OF inv]]
      by (auto simp: fill_window_def Let_def fill_loop_fin)
    then show ?thesis using inv by simp
  next
    case 4
    obtain segs where segs: "sd_sent s (fill_window s) segs" "plain_segs segs"
      "sd_is_fin_sent (fill_window s) \<longrightarrow> bs_eof (sd_stream (fill_window s))"
      "filled (effective_window s) (fill_window s)"
      by (rule fill_window_sent [OF inv 4])
    then have "sd_window_ok (fill_window s)" by (intro filled_window_ok sd_sentD(9))
    with segs show ?thesis by (intro sd_inv_sent [OF inv _ _ 4(1,3)])
  qed
qed

lemma rto_start [simp]: "rto (rt_start x) = rto x"
  by (simp add: rt_start_def)

lemma fill_window_appends:
  assumes inv: "sd_inv (s, S)"
  shows "\<exists>new. outs (fill_window s) = outs s @ new \<and> previous_ackno (fill_window s) = previous_ackno s \<and>
    consecutive_retransmissions (fill_window s) = consecutive_retransmissions s \<and>
    rto (retx_timer (fill_window s)) = rto (retx_timer s)"
proof (cases "next_seqno_abs s = 0 \<or> next_seqno_abs s = bytes_in_flight s \<or> sd_is_fin_sent s")
  case True
  then show ?thesis
    using sd_stream_okD(5) [OF sd_invD(1) [OF inv]]
    by (auto simp: fill_window_def Let_def sd_emit_eq fill_loop_fin word_neq_0_conv [symmetric])
next
  case False
  then have "nxt s \<noteq> 0" "next_seqno_abs s \<noteq> bytes_in_flight s" "\<not> sd_is_fin_sent s"
    by (simp_all add: unat_eq_0)
  from fill_window_sent [OF inv this] obtain segs where "sd_sent s (fill_window s) segs" by blast
  then show ?thesis by (auto simp: sd_sent_def)
qed

section \<open>Acknowledgments\<close>

text \<open>
  The loop of \<open>ack_received\<close> drops exactly the segments that lie below the acknowledgment
  number, provided the numbers are close enough to be unwrapped.
\<close>

lemma pop_acked_spec:
  fixes A :: u64
  assumes "segs_at isn b segs" and "b + segs_len segs \<le> unat A + 2147483647" and "unat A \<le> b + 2147483647"
    and "b \<le> unat A" and "b + segs_len segs < two64"
  shows "\<exists>pre rest. segs = pre @ rest \<and>
    pop_acked isn A A segs inflight = (rest, inflight - of_nat (segs_len pre)) \<and>
    b + segs_len pre \<le> unat A \<and> (rest \<noteq> [] \<longrightarrow> unat A < b + segs_len pre + seg_len (hd rest))"
  using assms
proof (induction segs arbitrary: b inflight)
  case Nil
  then show ?case by simp
next
  case (Cons x xs)
  have b: "unat (of_nat b :: u64) = b" using Cons.prems(5) by (intro unat_of_nat_u64) simp
  have sb: "unat (of_nat (b + seg_len x) :: u64) = b + seg_len x"
    using Cons.prems(5) by (intro unat_of_nat_u64) simp
  have "\<bar>int (unat (of_nat b :: u64)) - int (unat A)\<bar> < 2147483648"
    unfolding b using Cons.prems(2,3) segs_len_simps(2) [of x xs] by linarith
  from seq.dec_enc [OF this, of isn] have u: "unwrap (seqno (seg_header x)) isn A = of_nat b"
    using Cons.prems(1) by simp
  have t: "unwrap (seqno (seg_header x)) isn A + length_in_sequence_space x \<le> A \<longleftrightarrow> b + seg_len x \<le> unat A"
    unfolding u length_in_sequence_space_of_nat of_nat_add [symmetric] word_le_nat_alt sb ..
  show ?case
  proof (cases "b + seg_len x \<le> unat A")
    case True
    have "\<exists>pre rest. xs = pre @ rest \<and>
      pop_acked isn A A xs (inflight - of_nat (seg_len x)) = (rest, inflight - of_nat (seg_len x) - of_nat (segs_len pre)) \<and>
      b + seg_len x + segs_len pre \<le> unat A \<and>
      (rest \<noteq> [] \<longrightarrow> unat A < b + seg_len x + segs_len pre + seg_len (hd rest))"
      using Cons.prems True by (intro Cons.IH) simp_all
    then obtain pre rest where "xs = pre @ rest"
      "pop_acked isn A A xs (inflight - of_nat (seg_len x)) = (rest, inflight - of_nat (seg_len x) - of_nat (segs_len pre))"
      "b + seg_len x + segs_len pre \<le> unat A"
      "rest \<noteq> [] \<longrightarrow> unat A < b + seg_len x + segs_len pre + seg_len (hd rest)" by blast
    then show ?thesis
      using True t by (intro exI [of _ "x # pre"] exI [of _ rest])
        (simp add: Let_def length_in_sequence_space_of_nat add.assoc)
  next
    case False
    then show ?thesis
      using Cons.prems t by (intro exI [of _ "[]"] exI [of _ "x # xs"]) (simp add: Let_def)
  qed
qed

text \<open>
  A peer that does not take back window it has offered: after the acknowledgment, what has been
  sent is still inside the window.
\<close>

definition acked_upto :: "tcp_sender \<Rightarrow> wrapping_int32 \<Rightarrow> nat" where
  "acked_upto s ackn =
     (let a = unat (unwrap ackn (sd_isn s) (previous_ackno s)) in if a \<le> nxt s then max a (prv s) else prv s)"

definition ack_keeps_window :: "tcp_sender \<Rightarrow> wrapping_int32 \<Rightarrow> u16 \<Rightarrow> bool" where
  "ack_keeps_window s ackn w \<longleftrightarrow> sd_is_fin_sent s \<or> nxt s \<le> acked_upto s ackn + max 1 (unat w)"

text \<open>The state of \<open>ack_received\<close> just before it calls \<open>fill_window\<close>.\<close>

definition sd_acked :: "tcp_sender \<Rightarrow> u64 \<Rightarrow> u16 \<Rightarrow> tcp_sender" where
  "sd_acked s A w =
     (let (segs, inflight) = pop_acked (sd_isn s) A A (outs s) (bytes_in_flight s)
      in s\<lparr>sd_window_size := w, previous_ackno := A,
           retx_timer := rt_start (rt_stop (rt_set_rto_init (retx_timer s))),
           outstanding_segments := segs, bytes_in_flight := inflight,
           consecutive_retransmissions := 0\<rparr>)"

lemma ack_received_eq:
  "ack_received s ackn w =
     (let A = unwrap ackn (sd_isn s) (previous_ackno s); t = fill_window (sd_acked s A w)
      in if previous_ackno s < A \<and> A \<le> next_seqno_abs s
         then t\<lparr>retx_timer := (if outs t \<noteq> [] then rt_start (rt_stop (retx_timer t)) else rt_stop (retx_timer t))\<rparr>
         else s\<lparr>sd_window_size := w\<rparr>)"
  by (auto simp: ack_received_def sd_acked_def Let_def not_less split: prod.splits)

lemma sd_queue_span:
  assumes q: "sd_queue_ok s" and w: "sd_window_ok s"
  shows "segs_len (outs s) \<le> 66538"
proof (cases "outs s")
  case (Cons x xs)
  then have "length (seg_payload x) \<le> 1000" using q by (simp add: sd_queue_ok_def)
  then have "seg_len x \<le> 1002" by (simp add: seg_len_def)
  then show ?thesis using q w Cons by (auto simp: sd_queue_ok_def sd_window_ok_def)
qed simp

lemma sd_inv_cong:
  assumes "sd_inv (s, S)" and "sd_queue_ok t" "sd_window_ok t"
    and "sd_isn t = sd_isn s" "sd_stream t = sd_stream s" "next_seqno_abs t = next_seqno_abs s"
    "sd_is_fin_sent t = sd_is_fin_sent s"
    and "\<And>seg. seg \<in> set (sd_segments_out t) \<Longrightarrow> sd_seg_ok S s seg" "set (outs t) \<subseteq> set (outs s)"
  shows "sd_inv (t, S)"
proof -
  have "sd_seg_ok S t seg" if "sd_seg_ok S s seg" for seg
    using that by (rule sd_seg_ok_mono) (simp_all add: assms(4-7))
  moreover have "sd_stream_ok S t" using sd_invD(1) [OF assms(1)] by (simp add: sd_stream_ok_def assms(4-7))
  ultimately show ?thesis
    using assms(2,3,8,9) sd_invD(5) [OF assms(1)] by (intro sd_invI) auto
qed

lemma sd_acked_inv:
  assumes inv: "sd_inv (s, S)" and A: "prv s < unat A" "unat A \<le> nxt s"
    and w: "sd_is_fin_sent s \<or> nxt s \<le> unat A + max 1 (unat w)"
  shows "sd_inv (sd_acked s A w, S)"
    "\<exists>pre. outs s = pre @ outs (sd_acked s A w)"
proof -
  note q = sd_invD(2) [OF inv] and win = sd_invD(3) [OF inv]
  let ?b = "nxt s - segs_len (outs s)"
  have at: "segs_at (sd_isn s) ?b (outs s)" and n: "?b + segs_len (outs s) = nxt s" and "?b \<le> prv s"
    and fl: "bytes_in_flight s = of_nat (segs_len (outs s))"
    using q by (simp_all add: sd_queue_ok_def)
  then have "nxt s \<le> unat A + 2147483647" "unat A \<le> ?b + 2147483647" "?b \<le> unat A"
    using A sd_queue_span [OF q win] by simp_all
  from pop_acked_spec [OF at, of A "bytes_in_flight s", unfolded n, OF this unat_u64_less] obtain pre rest where
    pr: "outs s = pre @ rest" and
    p: "pop_acked (sd_isn s) A A (outs s) (bytes_in_flight s) = (rest, bytes_in_flight s - of_nat (segs_len pre))" and
    lo: "?b + segs_len pre \<le> unat A" and hi: "rest \<noteq> [] \<longrightarrow> unat A < ?b + segs_len pre + seg_len (hd rest)"
    by blast
  let ?t = "sd_acked s A w"
  have t: "?t = s\<lparr>sd_window_size := w, previous_ackno := A,
     retx_timer := rt_start (rt_stop (rt_set_rto_init (retx_timer s))), outstanding_segments := rest,
     bytes_in_flight := bytes_in_flight s - of_nat (segs_len pre), consecutive_retransmissions := 0\<rparr>"
    by (simp add: sd_acked_def p)
  have b: "nxt s - segs_len rest = ?b + segs_len pre" "segs_len rest \<le> nxt s" using n pr by simp_all
  have "segs_at (sd_isn s) (nxt s - segs_len rest) rest" using at unfolding b(1) by (simp add: pr)
  moreover have "bytes_in_flight s - of_nat (segs_len pre) = of_nat (segs_len rest)" by (simp add: fl pr)
  ultimately have "sd_queue_ok ?t"
    unfolding sd_queue_ok_def t using A(2) lo hi b by simp
  moreover have "sd_window_ok ?t" using win A w by (auto simp: sd_window_ok_def t)
  ultimately show "sd_inv (?t, S)"
    by (rule sd_inv_cong [OF inv]) (use sd_invD(4) [OF inv] pr in \<open>auto simp: t\<close>)
  show "\<exists>pre. outs s = pre @ outs ?t" using pr by (simp add: t)
qed

lemma sd_inv_timer:
  "sd_inv (s, S) \<Longrightarrow> sd_inv (s\<lparr>retx_timer := x\<rparr>, S)"
  by (rule sd_inv_cong) (auto simp: sd_queue_ok_def sd_window_ok_def sd_inv_def)

lemma sd_inv_ack:
  assumes inv: "sd_inv (s, S)" and k: "ack_keeps_window s ackn w"
  shows "sd_inv (ack_received s ackn w, S)"
proof -
  let ?A = "unwrap ackn (sd_isn s) (previous_ackno s)"
  have le: "prv s \<le> nxt s" using sd_invD(2) [OF inv] by (simp add: sd_queue_ok_def)
  show ?thesis
  proof (cases "previous_ackno s < ?A \<and> ?A \<le> next_seqno_abs s")
    case True
    then have "prv s < unat ?A" "unat ?A \<le> nxt s"
      by (simp_all add: word_less_nat_alt word_le_nat_alt)
    then have "sd_inv (sd_acked s ?A w, S)"
      using k by (intro sd_acked_inv [OF inv]) (auto simp: ack_keeps_window_def acked_upto_def Let_def)
    with True show ?thesis
      by (simp add: ack_received_eq Let_def sd_inv_fill sd_inv_timer)
  next
    case False
    then have "acked_upto s ackn = prv s"
      by (auto simp: acked_upto_def Let_def word_less_nat_alt word_le_nat_alt)
    then have "sd_inv (s\<lparr>sd_window_size := w\<rparr>, S)"
      using k sd_invD [OF inv]
      by (intro sd_inv_cong [OF inv]) (auto simp: ack_keeps_window_def sd_window_ok_def sd_queue_ok_def)
    with False show ?thesis by (simp only: ack_received_eq Let_def if_False)
  qed
qed

section \<open>The other operations\<close>

lemma sd_inv_stream:
  assumes inv: "sd_inv (s, S)" and st: "sd_stream_ok (S @ T) (s\<lparr>sd_stream := x\<rparr>)"
    and fn: "T = [] \<or> \<not> sd_is_fin_sent s"
  shows "sd_inv (s\<lparr>sd_stream := x\<rparr>, S @ T)"
proof -
  have "sd_seg_ok (S @ T) (s\<lparr>sd_stream := x\<rparr>) seg" if "sd_seg_ok S s seg" for seg
    using that fn by (auto simp: sd_seg_ok_def intro: seg_genuine_append)
  then show ?thesis
    using st sd_invD [OF inv] by (intro sd_invI) (auto simp: sd_queue_ok_def sd_window_ok_def)
qed

lemma sd_inv_write:
  assumes inv: "sd_inv (s, S)" and ne: "\<not> is_input_ended (sd_stream s)" and d: "length S + length d < two64 - 2"
  shows "sd_inv (fst (sd_write_stream s d), S @ take (unat (snd (sd_write_stream s d))) d)"
proof -
  let ?st = "fst (bs_write (sd_stream s) d)" and ?T = "take (bs_room (sd_stream s)) d"
  note st = sd_stream_okD [OF sd_invD(1) [OF inv]]
  have wf: "bs_wf (sd_stream s)" using st(1) by (simp add: bs_eof_exact_def)
  have d64: "length d < two64" using d by simp
  have nf: "\<not> sd_is_fin_sent s" using st(1,5) ne by (auto simp: bs_eof_def bs_eof_exact_def)
  have n: "take (unat (snd (bs_write (sd_stream s) d))) d = ?T"
    by (simp add: bsq.put_count [OF wf d64] min_def)
  have ex: "bs_eof_exact ?st" using bsm.step_inv [OF st(1), of "Put d"] ne d64 by simp
  have rd: "total_read_bytes ?st = total_read_bytes (sd_stream s)" by (simp add: frame_simps)
  have "bs_buffer ?st = drop (rdc s) (S @ ?T)"
    using st(3,4) by (simp add: bsq.put_contents [OF wf d64])
  then have "sd_stream_ok (S @ ?T) (s\<lparr>sd_stream := ?st\<rparr>)"
    using st nf ex d by (simp add: sd_stream_ok_def rd)
  from sd_inv_stream [OF inv this] nf show ?thesis
    by (simp add: sd_write_stream_def n split_beta)
qed

lemma sd_inv_end:
  assumes inv: "sd_inv (s, S)"
  shows "sd_inv (sd_end_stream s, S)"
proof -
  note st = sd_stream_okD [OF sd_invD(1) [OF inv]]
  let ?st = "bs_end_input (sd_stream s)"
  have ex: "bs_eof_exact ?st" using bsm.step_inv [OF st(1), of "Ctl EndInput"] by simp
  moreover have "bs_eof ?st" if "sd_is_fin_sent s"
    using ex st(1) st(5) [OF that] by (auto simp: bs_eof_def bs_eof_exact_def bs_end_input_def)
  ultimately have "sd_stream_ok (S @ []) (s\<lparr>sd_stream := ?st\<rparr>)"
    using st by (simp add: sd_stream_ok_def bs_end_input_def)
  from sd_inv_stream [OF inv this] show ?thesis by (simp add: sd_end_stream_def)
qed

lemma sd_inv_error:
  assumes inv: "sd_inv (s, S)"
  shows "sd_inv (sd_set_error s, S)"
proof -
  note st = sd_stream_okD [OF sd_invD(1) [OF inv]]
  have "bs_eof_exact (bs_set_error (sd_stream s))" using bsm.step_inv [OF st(1), of "Ctl SetError"] by simp
  then have "sd_stream_ok (S @ []) (s\<lparr>sd_stream := bs_set_error (sd_stream s)\<rparr>)"
    using st by (simp add: sd_stream_ok_def bs_set_error_def bs_eof_def)
  from sd_inv_stream [OF inv this] show ?thesis by (simp add: sd_set_error_def)
qed

lemma sd_inv_out:
  assumes inv: "sd_inv (s, S)" and seg: "seg_inert seg \<or> seg \<in> set (outs s)"
  shows "sd_inv (s\<lparr>sd_segments_out := sd_segments_out s @ [seg]\<rparr>, S)"
  using sd_invD [OF inv] seg
  by (intro sd_inv_cong [OF inv]) (auto simp: sd_queue_ok_def sd_window_ok_def sd_seg_ok_def [of S s seg])

lemma sd_inv_empty: "sd_inv (s, S) \<Longrightarrow> sd_inv (send_empty_segment s, S)"
  unfolding send_empty_segment_def Let_def
  by (erule sd_inv_out) (simp add: seg_inert_def new_tcp_segment_def new_tcp_header_def)

lemma sd_inv_retx_count:
  "sd_inv (s, S) \<Longrightarrow> sd_inv (s\<lparr>consecutive_retransmissions := n\<rparr>, S)"
  by (rule sd_inv_cong) (auto simp: sd_queue_ok_def sd_window_ok_def sd_inv_def)

lemma sd_inv_tick:
  assumes inv: "sd_inv (s, S)"
  shows "sd_inv (sd_tick s ms, S)"
proof -
  obtain x e where x: "rt_tick (retx_timer s) ms = (x, e)" by fastforce
  let ?s1 = "s\<lparr>retx_timer := x\<rparr>"
  let ?s2 = "case outs ?s1 of [] \<Rightarrow> ?s1 | seg # _ \<Rightarrow> ?s1\<lparr>sd_segments_out := sd_segments_out ?s1 @ [seg]\<rparr>"
  have s1: "sd_inv (?s1, S)" by (rule sd_inv_timer [OF inv])
  then have "sd_inv (?s2, S)" using sd_inv_out [OF s1] by (auto split: list.split)
  with s1 show ?thesis
    unfolding sd_tick_def x Let_def prod.case by (auto intro!: sd_inv_timer sd_inv_retx_count)
qed

section \<open>Runs of the sender\<close>

datatype sd_op = SWrite bytes | SEnd | SFill | SAck wrapping_int32 u16 | STick u64 | SEmpty | SError

fun sd_exec :: "tcp_sender \<times> bytes \<Rightarrow> sd_op \<Rightarrow> tcp_sender \<times> bytes" where
  "sd_exec (s, S) (SWrite d) = (fst (sd_write_stream s d), S @ take (unat (snd (sd_write_stream s d))) d)"
| "sd_exec (s, S) SEnd = (sd_end_stream s, S)"
| "sd_exec (s, S) SFill = (fill_window s, S)"
| "sd_exec (s, S) (SAck ackn w) = (ack_received s ackn w, S)"
| "sd_exec (s, S) (STick ms) = (sd_tick s ms, S)"
| "sd_exec (s, S) SEmpty = (send_empty_segment s, S)"
| "sd_exec (s, S) SError = (sd_set_error s, S)"

fun sd_fair :: "tcp_sender \<times> bytes \<Rightarrow> sd_op \<Rightarrow> bool" where
  "sd_fair (s, S) (SWrite d) = (\<not> is_input_ended (sd_stream s) \<and> length S + length d < two64 - 2)"
| "sd_fair (s, S) (SAck ackn w) = ack_keeps_window s ackn w"
| "sd_fair (s, S) _ = True"

interpretation sdm: guarded_machine sd_exec sd_fair sd_inv
proof
  fix st x
  assume "sd_inv st" "sd_fair st x"
  then show "sd_inv (sd_exec st x)"
    by (cases st; cases x) (auto intro: sd_inv_write sd_inv_end sd_inv_fill sd_inv_ack sd_inv_tick
        sd_inv_empty sd_inv_error)
qed

lemma sd_inv_new: "sd_inv (new_tcp_sender c r f rnd, [])"
  by (simp add: sd_inv_def new_tcp_sender_def sd_stream_ok_def sd_queue_ok_def sd_window_ok_def
      bs_eof_exact_new)

section \<open>Properties\<close>

text \<open>
  C3. In every run in which nothing is written after the end of the stream and the peer does not
  take back window, each segment the sender queues carries no sequence numbers or is a piece of
  the stream \<open>S\<close> written so far, at its place in sequence space below \<open>next_seqno\<close>: the SYN at
  number 0, byte \<open>i\<close> at number \<open>i + 1\<close>, and a FIN right after the last byte.
\<close>

theorem sender_segments_genuine:
  assumes "guarded sd_exec sd_fair (new_tcp_sender c timeout fixed rnd, []) ops"
  shows "case foldl sd_exec (new_tcp_sender c timeout fixed rnd, []) ops of (s, S) \<Rightarrow>
    \<forall>seg \<in> set (sd_segments_out s). seg_inert seg \<or>
      (\<exists>a. seg_genuine S (sd_isn s) a seg \<and> a + seg_len seg \<le> unat (next_seqno_abs s))"
  using sdm.run_inv [OF sd_inv_new assms] by (auto simp: sd_inv_def sd_seg_ok_def)

abbreviation example_sender :: tcp_sender where
  "example_sender \<equiv> new_tcp_sender 8 1000 (Some (WrappingInt32 4294967295)) 0"

theorem sender_segments_genuine_witness:
  "case foldl sd_exec (example_sender, []) [SFill, SWrite [5, 6], SAck (WrappingInt32 0) 4] of (s, S) \<Rightarrow>
    \<forall>seg \<in> set (sd_segments_out s). seg_inert seg \<or>
      (\<exists>a. seg_genuine S (sd_isn s) a seg \<and> a + seg_len seg \<le> unat (next_seqno_abs s))"
proof (rule sender_segments_genuine)
  let ?s1 = "fill_window example_sender" and ?s2 = "fst (sd_write_stream (fill_window example_sender) [5, 6])"
  have "\<not> is_input_ended (sd_stream ?s1)" "ack_keeps_window ?s2 (WrappingInt32 0) 4" by code_simp+
  then show "guarded sd_exec sd_fair (example_sender, []) [SFill, SWrite [5, 6], SAck (WrappingInt32 0) 4]"
    by simp
qed

text \<open>
  C11. In every run in which nothing is written after the end of the stream and no acknowledgment
  takes back window (an old or reordered one may do that), the bytes in flight are those of the outstanding segments, which end at
  \<open>next_seqno\<close>; the acknowledgment lies between; and what is sent and unacknowledged fits the
  window (one byte when the window is 0) until the FIN has been sent, and is never more than
  65536 sequence numbers.
\<close>

theorem sender_in_flight:
  assumes "guarded sd_exec sd_fair (new_tcp_sender c timeout fixed rnd, []) ops"
  shows "case foldl sd_exec (new_tcp_sender c timeout fixed rnd, []) ops of (s, S) \<Rightarrow>
    unat (bytes_in_flight s) = segs_len (outstanding_segments s) \<and>
    unat (previous_ackno s) \<le> unat (next_seqno_abs s) \<and>
    unat (next_seqno_abs s) \<le> unat (previous_ackno s) + unat (bytes_in_flight s) \<and>
    unat (next_seqno_abs s) \<le> unat (previous_ackno s) + 65536 \<and>
    (\<not> sd_is_fin_sent s \<longrightarrow>
       unat (next_seqno_abs s) \<le> unat (previous_ackno s) + max 1 (unat (sd_window_size s)))"
proof -
  obtain s S where r: "foldl sd_exec (new_tcp_sender c timeout fixed rnd, []) ops = (s, S)" by fastforce
  have inv: "sd_inv (s, S)" using sdm.run_inv [OF sd_inv_new assms] by (simp add: r)
  note q = sd_invD(2) [OF inv] and w = sd_invD(3) [OF inv]
  have "unat (bytes_in_flight s) = segs_len (outs s)"
    using q sd_queue_span [OF q w] by (simp add: sd_queue_ok_def unat_of_nat_u64)
  then show ?thesis using q w by (auto simp: r sd_queue_ok_def sd_window_ok_def)
qed

theorem sender_in_flight_witness:
  "case foldl sd_exec (example_sender, []) [SFill, SWrite [5, 6], SAck (WrappingInt32 0) 4] of (s, S) \<Rightarrow>
    unat (bytes_in_flight s) = segs_len (outstanding_segments s) \<and>
    unat (previous_ackno s) \<le> unat (next_seqno_abs s) \<and>
    unat (next_seqno_abs s) \<le> unat (previous_ackno s) + unat (bytes_in_flight s) \<and>
    unat (next_seqno_abs s) \<le> unat (previous_ackno s) + 65536 \<and>
    (\<not> sd_is_fin_sent s \<longrightarrow>
       unat (next_seqno_abs s) \<le> unat (previous_ackno s) + max 1 (unat (sd_window_size s)))"
proof (rule sender_in_flight)
  let ?s1 = "fill_window example_sender" and ?s2 = "fst (sd_write_stream (fill_window example_sender) [5, 6])"
  have "\<not> is_input_ended (sd_stream ?s1)" "ack_keeps_window ?s2 (WrappingInt32 0) 4" by code_simp+
  then show "guarded sd_exec sd_fair (example_sender, []) [SFill, SWrite [5, 6], SAck (WrappingInt32 0) 4]"
    by simp
qed

text \<open>
  C12. In a state reached by a run in which nothing is written after the end of the stream and no
  acknowledgment takes back window, once the SYN has been acknowledged and as long as no FIN has
  been sent, \<open>fill_window\<close> sends the next bytes of the stream, in order and without gaps, and stops
  only when the window is used up or the stream is drained (with the FIN sent if its input has
  ended); it goes beyond the window by a FIN at most.
\<close>

theorem fill_window_maximal:
  assumes run: "guarded sd_exec sd_fair (new_tcp_sender c timeout fixed rnd, []) ops"
      "foldl sd_exec (new_tcp_sender c timeout fixed rnd, []) ops = (s, S)"
    and "next_seqno_abs s \<noteq> 0" "next_seqno_abs s \<noteq> bytes_in_flight s" "\<not> sd_is_fin_sent s"
  shows "let t = fill_window s; w = max 1 (unat (sd_window_size s)); used = unat (next_seqno_abs t) - unat (previous_ackno s)
    in (\<exists>segs. sd_segments_out t = sd_segments_out s @ segs \<and>
               bs_buffer (sd_stream s) = concat (map seg_payload segs) @ bs_buffer (sd_stream t)) \<and>
       used \<le> w + of_bool (sd_is_fin_sent t) \<and>
       (used < w \<longrightarrow> bs_buffer (sd_stream t) = [] \<and> (bs_input_ended (sd_stream t) \<longrightarrow> sd_is_fin_sent t))"
proof -
  have inv: "sd_inv (s, S)" using sdm.run_inv [OF sd_inv_new run(1)] by (simp add: run(2))
  have "nxt s \<noteq> 0" using assms(3) by (simp add: unat_eq_0)
  from fill_window_sent [OF inv this assms(4,5)] obtain segs where
    "sd_sent s (fill_window s) segs" "filled (effective_window s) (fill_window s)" by blast
  then show ?thesis
    unfolding Let_def filled_def unat_effective_window
    using sd_sentD(1,3,8) [of s "fill_window s" segs] by (auto simp: bs_input_ended_def)
qed

theorem fill_window_maximal_witness:
  "let s = fst (foldl sd_exec (example_sender, []) [SFill, SAck (WrappingInt32 0) 4, SWrite [5, 6]]);
       t = fill_window s; w = max 1 (unat (sd_window_size s)); used = unat (next_seqno_abs t) - unat (previous_ackno s)
    in (\<exists>segs. sd_segments_out t = sd_segments_out s @ segs \<and>
               bs_buffer (sd_stream s) = concat (map seg_payload segs) @ bs_buffer (sd_stream t)) \<and>
       used \<le> w + of_bool (sd_is_fin_sent t) \<and>
       (used < w \<longrightarrow> bs_buffer (sd_stream t) = [] \<and> (bs_input_ended (sd_stream t) \<longrightarrow> sd_is_fin_sent t))"
proof -
  let ?ops = "[SFill, SAck (WrappingInt32 0) 4, SWrite [5, 6]]"
  let ?s1 = "fill_window example_sender" and ?s2 = "ack_received (fill_window example_sender) (WrappingInt32 0) 4"
  let ?s = "fst (foldl sd_exec (example_sender, []) ?ops)"
  have "ack_keeps_window ?s1 (WrappingInt32 0) 4" "\<not> is_input_ended (sd_stream ?s2)" by code_simp+
  then have "guarded sd_exec sd_fair (example_sender, []) ?ops" by simp
  moreover have "foldl sd_exec (example_sender, []) ?ops = (?s, snd (foldl sd_exec (example_sender, []) ?ops))" by (simp only: prod.collapse)
  moreover have "next_seqno_abs ?s \<noteq> 0" "next_seqno_abs ?s \<noteq> bytes_in_flight ?s" "\<not> sd_is_fin_sent ?s"
    by code_simp+
  ultimately show ?thesis unfolding Let_def by (rule fill_window_maximal [unfolded Let_def])
qed

text \<open>What a new acknowledgment does to the queue, counted from the first outstanding number.\<close>

lemma ack_received_new:
  assumes inv: "sd_inv (s, S)" and A: "prv s < unat A" "unat A \<le> nxt s"
    and w: "sd_is_fin_sent s \<or> nxt s \<le> unat A + max 1 (unat w)"
  shows "\<exists>dropped kept new. outs s = dropped @ kept \<and> outs (fill_window (sd_acked s A w)) = kept @ new \<and>
    nxt s - segs_len (outs s) + segs_len dropped \<le> unat A \<and>
    (kept \<noteq> [] \<longrightarrow> unat A < nxt s - segs_len (outs s) + segs_len dropped + seg_len (hd kept))"
    "previous_ackno (fill_window (sd_acked s A w)) = A"
    "consecutive_retransmissions (fill_window (sd_acked s A w)) = 0"
    "rto (retx_timer (fill_window (sd_acked s A w))) = init_rto (retx_timer s)"
proof -
  let ?a = "sd_acked s A w" and ?t = "fill_window (sd_acked s A w)"
  note a = sd_acked_inv [OF inv A w]
  from a(2) obtain dropped where d: "outs s = dropped @ outs ?a" ..
  have b: "next_seqno_abs ?a = next_seqno_abs s" "previous_ackno ?a = A" by (simp_all add: sd_acked_def split_beta)
  have base: "nxt s - segs_len (outs s) + segs_len dropped = nxt s - segs_len (outs ?a)"
    using sd_invD(2) [OF inv] by (simp add: d sd_queue_ok_def)
  have "nxt s - segs_len (outs ?a) \<le> unat A"
    "outs ?a \<noteq> [] \<longrightarrow> unat A < nxt s - segs_len (outs ?a) + seg_len (hd (outs ?a))"
    using sd_invD(2) [OF a(1)] unfolding sd_queue_ok_def b by blast+
  note qa = this [folded base]
  from fill_window_appends [OF a(1)] obtain new where
    f: "outs ?t = outs ?a @ new" "previous_ackno ?t = previous_ackno ?a"
      "consecutive_retransmissions ?t = consecutive_retransmissions ?a"
      "rto (retx_timer ?t) = rto (retx_timer ?a)" by blast
  show "\<exists>dropped kept new. outs s = dropped @ kept \<and> outs ?t = kept @ new \<and>
    nxt s - segs_len (outs s) + segs_len dropped \<le> unat A \<and>
    (kept \<noteq> [] \<longrightarrow> unat A < nxt s - segs_len (outs s) + segs_len dropped + seg_len (hd kept))"
    using d f(1) qa by blast
  show "previous_ackno ?t = A" "consecutive_retransmissions ?t = 0" "rto (retx_timer ?t) = init_rto (retx_timer s)"
    unfolding f(2-4) by (simp_all add: sd_acked_def split_beta rt_start_def rt_stop_def rt_set_rto_init_def)
qed

text \<open>
  C13. An acknowledgment of new data drops exactly the segments that lie below it, from the front
  of the outstanding ones, resets the count of retransmissions and the timeout, and is remembered;
  one that is not above the last or is beyond \<open>next_seqno\<close> changes the window size only.
\<close>

theorem ack_received_drops_acked:
  assumes inv: "sd_inv (s, S)" and k: "ack_keeps_window s ackn w"
  shows "let A = unwrap ackn (sd_isn s) (previous_ackno s); t = ack_received s ackn w;
             first = unat (next_seqno_abs s) - unat (bytes_in_flight s)
    in if previous_ackno s < A \<and> A \<le> next_seqno_abs s
       then previous_ackno t = A \<and> consecutive_retransmissions t = 0 \<and>
            rto (retx_timer t) = init_rto (retx_timer s) \<and>
            (\<exists>dropped kept new. outstanding_segments s = dropped @ kept \<and>
               outstanding_segments t = kept @ new \<and>
               first + segs_len dropped \<le> unat A \<and>
               (kept \<noteq> [] \<longrightarrow> unat A < first + segs_len dropped + seg_len (hd kept)))
       else t = s\<lparr>sd_window_size := w\<rparr>"
proof -
  let ?A = "unwrap ackn (sd_isn s) (previous_ackno s)"
  note q = sd_invD(2) [OF inv] and win = sd_invD(3) [OF inv]
  have fl: "unat (bytes_in_flight s) = segs_len (outs s)"
    using q sd_queue_span [OF q win] by (simp add: sd_queue_ok_def unat_of_nat_u64)
  show ?thesis
  proof (cases "previous_ackno s < ?A \<and> ?A \<le> next_seqno_abs s")
    case True
    then have A: "prv s < unat ?A" "unat ?A \<le> nxt s"
      by (simp_all add: word_less_nat_alt word_le_nat_alt)
    then have "sd_is_fin_sent s \<or> nxt s \<le> unat ?A + max 1 (unat w)"
      using k by (auto simp: ack_keeps_window_def acked_upto_def Let_def)
    from ack_received_new [OF inv A this] True show ?thesis
      unfolding Let_def fl by (simp add: ack_received_eq Let_def rt_stop_def)
  next
    case False
    then show ?thesis by (simp only: ack_received_eq Let_def if_False)
  qed
qed

theorem ack_received_drops_acked_witness:
  "let s = fst (foldl sd_exec (example_sender, []) [SFill, SWrite [5, 6]]); A = 1;
       t = ack_received s (WrappingInt32 0) 4; first = unat (next_seqno_abs s) - unat (bytes_in_flight s)
   in A = unwrap (WrappingInt32 0) (sd_isn s) (previous_ackno s) \<and> previous_ackno t = A \<and>
      (\<exists>dropped kept new. outstanding_segments s = dropped @ kept \<and>
         outstanding_segments t = kept @ new \<and> first + segs_len dropped \<le> unat A \<and>
         (kept \<noteq> [] \<longrightarrow> unat A < first + segs_len dropped + seg_len (hd kept)))"
proof -
  let ?s = "fst (foldl sd_exec (example_sender, []) [SFill, SWrite [5, 6]])"
  have "\<not> is_input_ended (sd_stream (fill_window example_sender))" by code_simp
  then have "guarded sd_exec sd_fair (example_sender, []) [SFill, SWrite [5, 6]]" by simp
  from sdm.run_inv [OF sd_inv_new this]
  have "sd_inv (?s, snd (foldl sd_exec (example_sender, []) [SFill, SWrite [5, 6]]))"
    by (simp only: prod.collapse)
  moreover have "ack_keeps_window ?s (WrappingInt32 0) 4" by code_simp
  moreover have "unwrap (WrappingInt32 0) (sd_isn ?s) (previous_ackno ?s) = 1" by code_simp
  moreover have "previous_ackno ?s < 1 \<and> 1 \<le> next_seqno_abs ?s" by code_simp
  ultimately show ?thesis
    using ack_received_drops_acked [of ?s _ "WrappingInt32 0" 4] unfolding Let_def by metis
qed

text \<open>
  The guard on acknowledgments is needed.  \<open>ack_received\<close> stores the window size before it looks
  at the acknowledgment number, and \<open>fill_window\<close> computes the free window by an unsigned
  subtraction: after a smaller window, even of an old acknowledgment, the difference wraps around
  and everything that is written goes out, here 7 bytes in flight with a window of 2.
\<close>

lemma shrunk_window_overrun:
  "let s = fst (foldl sd_exec (example_sender, [])
       [SFill, SAck (WrappingInt32 0) 4, SWrite [1, 2, 3, 4], SFill, SAck (WrappingInt32 0) 2, SWrite [5, 6, 7], SFill])
   in bytes_in_flight s = 7 \<and> sd_window_size s = 2 \<and> previous_ackno s = 1"
  by code_simp

text \<open>
  The FIN is added when the whole window exceeds the payload, not when the rest of it does: here 5
  sequence numbers are in flight with a window of 4.
\<close>

lemma fin_beyond_window:
  "let s = fst (foldl sd_exec (example_sender, [])
       [SFill, SAck (WrappingInt32 0) 4, SWrite [1, 2], SFill, SWrite [3, 4], SEnd, SFill])
   in bytes_in_flight s = 5 \<and> sd_window_size s = 4"
  by code_simp

end
