(* ===== verification/TCP_State.thy ===== *)
theory TCP_State
  imports TCP_Receiver Sender_Invariant
begin

text \<open>
  The class \<open>TCPState\<close> (src/libsponge/tcp_helpers/tcp_state.hh and .cc): the summary of a
  sender and a receiver as one of the strings of \<open>TCPSenderStateSummary\<close> and
  \<open>TCPReceiverStateSummary\<close>, and the official states of TCP in these terms.
\<close>

section \<open>Summaries\<close>

definition RS_ERROR :: string where "RS_ERROR = ''error (connection was reset)''"
definition RS_LISTEN :: string where "RS_LISTEN = ''waiting for SYN: ackno is empty''"
definition RS_SYN_RECV :: string where
  "RS_SYN_RECV = ''SYN received (ackno exists), and input to stream hasn't ended''"
definition RS_FIN_RECV :: string where "RS_FIN_RECV = ''input to stream has ended''"

definition SS_ERROR :: string where "SS_ERROR = ''error (connection was reset)''"
definition SS_CLOSED :: string where "SS_CLOSED = ''waiting for stream to begin (no SYN sent)''"
definition SS_SYN_SENT :: string where "SS_SYN_SENT = ''stream started but nothing acknowledged''"
definition SS_SYN_ACKED :: string where "SS_SYN_ACKED = ''stream ongoing''"
definition SS_FIN_SENT :: string where
  "SS_FIN_SENT = ''stream finished (FIN sent) but not fully acknowledged''"
definition SS_FIN_ACKED :: string where "SS_FIN_ACKED = ''stream finished and fully acknowledged''"

lemmas summary_defs = RS_ERROR_def RS_LISTEN_def RS_SYN_RECV_def RS_FIN_RECV_def SS_ERROR_def
  SS_CLOSED_def SS_SYN_SENT_def SS_SYN_ACKED_def SS_FIN_SENT_def SS_FIN_ACKED_def

definition state_summary_receiver :: "tcp_receiver \<Rightarrow> string" where
  "state_summary_receiver r =
     (if bs_error (rc_stream_out r) then RS_ERROR
      else if rc_ackno r = None then RS_LISTEN
      else if bs_input_ended (rc_stream_out r) then RS_FIN_RECV
      else RS_SYN_RECV)"

definition state_summary_sender :: "tcp_sender \<Rightarrow> string" where
  "state_summary_sender s =
     (if bs_error (sd_stream s) then SS_ERROR
      else if next_seqno_abs s = 0 then SS_CLOSED
      else if next_seqno_abs s = bytes_in_flight s then SS_SYN_SENT
      else if \<not> bs_eof (sd_stream s) then SS_SYN_ACKED
      else if next_seqno_abs s < bs_bytes_written (sd_stream s) + 2 then SS_SYN_ACKED
      else if bytes_in_flight s \<noteq> 0 then SS_FIN_SENT
      else SS_FIN_ACKED)"

section \<open>States\<close>

record tcp_state =
  ts_sender :: string
  ts_receiver :: string
  ts_active :: bool
  ts_linger :: bool

definition tcp_state_eq :: "tcp_state \<Rightarrow> tcp_state \<Rightarrow> bool" where
  "tcp_state_eq a b \<longleftrightarrow> ts_active a = ts_active b \<and> ts_linger a = ts_linger b \<and>
     ts_sender a = ts_sender b \<and> ts_receiver a = ts_receiver b"

definition tcp_state_name :: "tcp_state \<Rightarrow> string" where
  "tcp_state_name a =
     ''sender=`'' @ ts_sender a @ ''`, receiver=`'' @ ts_receiver a @ ''`, active='' @
     (if ts_active a then ''1'' else ''0'') @ '', linger_after_streams_finish='' @
     (if ts_linger a then ''1'' else ''0'')"

datatype official_state = LISTEN | SYN_RCVD | SYN_SENT | ESTABLISHED | CLOSE_WAIT | LAST_ACK
  | FIN_WAIT_1 | FIN_WAIT_2 | CLOSING | TIME_WAIT | CLOSED | RESET

fun official_tcp_state :: "official_state \<Rightarrow> tcp_state" where
  "official_tcp_state LISTEN =
     \<lparr>ts_sender = SS_CLOSED, ts_receiver = RS_LISTEN, ts_active = True, ts_linger = True\<rparr>"
| "official_tcp_state SYN_RCVD =
     \<lparr>ts_sender = SS_SYN_SENT, ts_receiver = RS_SYN_RECV, ts_active = True, ts_linger = True\<rparr>"
| "official_tcp_state SYN_SENT =
     \<lparr>ts_sender = SS_SYN_SENT, ts_receiver = RS_LISTEN, ts_active = True, ts_linger = True\<rparr>"
| "official_tcp_state ESTABLISHED =
     \<lparr>ts_sender = SS_SYN_ACKED, ts_receiver = RS_SYN_RECV, ts_active = True, ts_linger = True\<rparr>"
| "official_tcp_state CLOSE_WAIT =
     \<lparr>ts_sender = SS_SYN_ACKED, ts_receiver = RS_FIN_RECV, ts_active = True, ts_linger = False\<rparr>"
| "official_tcp_state LAST_ACK =
     \<lparr>ts_sender = SS_FIN_SENT, ts_receiver = RS_FIN_RECV, ts_active = True, ts_linger = False\<rparr>"
| "official_tcp_state CLOSING =
     \<lparr>ts_sender = SS_FIN_SENT, ts_receiver = RS_FIN_RECV, ts_active = True, ts_linger = True\<rparr>"
| "official_tcp_state FIN_WAIT_1 =
     \<lparr>ts_sender = SS_FIN_SENT, ts_receiver = RS_SYN_RECV, ts_active = True, ts_linger = True\<rparr>"
| "official_tcp_state FIN_WAIT_2 =
     \<lparr>ts_sender = SS_FIN_ACKED, ts_receiver = RS_SYN_RECV, ts_active = True, ts_linger = True\<rparr>"
| "official_tcp_state TIME_WAIT =
     \<lparr>ts_sender = SS_FIN_ACKED, ts_receiver = RS_FIN_RECV, ts_active = True, ts_linger = True\<rparr>"
| "official_tcp_state RESET =
     \<lparr>ts_sender = SS_ERROR, ts_receiver = RS_ERROR, ts_active = False, ts_linger = False\<rparr>"
| "official_tcp_state CLOSED =
     \<lparr>ts_sender = SS_FIN_ACKED, ts_receiver = RS_FIN_RECV, ts_active = False, ts_linger = False\<rparr>"

definition tcp_state_of :: "tcp_sender \<Rightarrow> tcp_receiver \<Rightarrow> bool \<Rightarrow> bool \<Rightarrow> tcp_state" where
  "tcp_state_of sender receiver active linger =
     \<lparr>ts_sender = state_summary_sender sender, ts_receiver = state_summary_receiver receiver,
      ts_active = active, ts_linger = (if active then linger else False)\<rparr>"

section \<open>The summaries say what they mean\<close>

lemma tcp_state_eq_iff: "tcp_state_eq a b \<longleftrightarrow> a = b"
  by (cases a; cases b) (auto simp: tcp_state_eq_def)

lemma summaries_distinct:
  "distinct [SS_ERROR, SS_CLOSED, SS_SYN_SENT, SS_SYN_ACKED, SS_FIN_SENT, SS_FIN_ACKED]"
  "distinct [RS_ERROR, RS_LISTEN, RS_SYN_RECV, RS_FIN_RECV]"
  by (simp_all add: summary_defs)

lemma official_tcp_state_inj: "official_tcp_state a = official_tcp_state b \<longleftrightarrow> a = b"
  using summaries_distinct by (cases a; cases b) auto

section \<open>Properties\<close>

lemma sd_written:
  assumes "sd_stream_ok S s"
  shows "unat (total_written_bytes (sd_stream s)) = length S"
proof -
  note st = sd_stream_okD [OF assms]
  have "total_written_bytes (sd_stream s) = total_read_bytes (sd_stream s) + of_nat (length (bs_buffer (sd_stream s)))"
    using st(1) by (simp add: bs_eof_exact_def bs_wf_def str_size_def)
  moreover have "unat (of_nat (length (bs_buffer (sd_stream s))) :: u64) = length S - rdc s"
    unfolding st(4) using st(2) by (intro trans [OF unat_of_nat_u64]) simp_all
  ultimately show ?thesis using st(2,3) by (simp add: unat_add_u64)
qed

text \<open>
  For a sender whose SYN has been acknowledged, the summary is "stream ongoing" until the FIN
  has been sent, "FIN sent" while something is unacknowledged, and "fully acknowledged" exactly
  when the FIN has been sent and everything up to \<open>next_seqno\<close> has been acknowledged.
\<close>

theorem sender_summary_meaning:
  assumes inv: "sd_inv (s, S)" and ne: "\<not> bs_error (sd_stream s)"
    and n0: "next_seqno_abs s \<noteq> 0" and syn: "next_seqno_abs s \<noteq> bytes_in_flight s"
  shows "state_summary_sender s =
    (if \<not> sd_is_fin_sent s then SS_SYN_ACKED
     else if unat (previous_ackno s) < length S + 2 then SS_FIN_SENT else SS_FIN_ACKED)"
proof -
  note st = sd_stream_okD [OF sd_invD(1) [OF inv]] and q = sd_invD(2) [OF inv]
  have wr: "unat (bs_bytes_written (sd_stream s) + 2) = length S + 2"
    using st(2) sd_written [OF sd_invD(1) [OF inv]] by (simp add: bs_bytes_written_def unat_add_u64)
  have n: "nxt s = 1 + rdc s + of_bool (sd_is_fin_sent s)" using st(6) n0 by (auto simp: unat_eq_0)
  have rd: "rdc s = length S" if "sd_is_fin_sent s"
    using that st(1,3,4,5) by (simp add: bs_eof_def bs_eof_exact_def)
  have fin: "sd_is_fin_sent s \<longleftrightarrow> \<not> next_seqno_abs s < bs_bytes_written (sd_stream s) + 2"
    unfolding word_less_nat_alt wr using n rd st(3) by auto
  have fl: "unat (bytes_in_flight s) = segs_len (outs s)"
    using q sd_queue_span [OF q sd_invD(3) [OF inv]] by (simp add: sd_queue_ok_def unat_of_nat_u64)
  have "bytes_in_flight s = 0 \<longleftrightarrow> outs s = []"
    using fl segs_at_len_0 q unfolding unat_eq_0 [symmetric] sd_queue_ok_def by metis
  moreover have "outs s = [] \<longleftrightarrow> prv s = nxt s"
    using q by (cases "outs s") (auto simp: sd_queue_ok_def)
  ultimately show ?thesis
    using fin n rd st(5) q ne n0 syn by (auto simp: state_summary_sender_def sd_queue_ok_def)
qed

theorem sender_summary_meaning_witness:
  "let (s, S) = foldl sd_exec (example_sender, []) [SFill, SAck (WrappingInt32 0) 4, SWrite [9], SEnd, SFill]
   in S = [9] \<and> state_summary_sender s =
     (if \<not> sd_is_fin_sent s then SS_SYN_ACKED
      else if unat (previous_ackno s) < length S + 2 then SS_FIN_SENT else SS_FIN_ACKED)"
proof -
  let ?ops = "[SFill, SAck (WrappingInt32 0) 4, SWrite [9], SEnd, SFill]"
  let ?s1 = "fill_window example_sender" and ?s2 = "ack_received (fill_window example_sender) (WrappingInt32 0) 4"
  let ?s = "fst (foldl sd_exec (example_sender, []) ?ops)" and ?S = "snd (foldl sd_exec (example_sender, []) ?ops)"
  have "ack_keeps_window ?s1 (WrappingInt32 0) 4" "\<not> is_input_ended (sd_stream ?s2)" by code_simp+
  then have "guarded sd_exec sd_fair (example_sender, []) ?ops" by simp
  from sdm.run_inv [OF sd_inv_new this] have "sd_inv (?s, ?S)" by (simp only: prod.collapse)
  moreover have "\<not> bs_error (sd_stream ?s)" "next_seqno_abs ?s \<noteq> 0" "next_seqno_abs ?s \<noteq> bytes_in_flight ?s"
    by code_simp+
  moreover have "?S = [9]" by code_simp
  ultimately show ?thesis
    using sender_summary_meaning [of ?s ?S] unfolding Let_def split_beta by blast
qed

end
