(* ===== verification/TCP_Connection.thy ===== *)
theory TCP_Connection
  imports TCP_State
begin

text \<open>
  The class \<open>TCPConnection\<close> (src/libsponge/tcp_connection.hh and .cc): it hands incoming
  segments to the receiver and the acknowledgment fields to the sender, stamps the outgoing
  segments with the receiver's acknowledgment number and window, and decides when the
  connection is over.
\<close>

section \<open>State and operations\<close>

record tcp_connection =
  cfg :: tcp_config
  receiver :: tcp_receiver
  sender :: tcp_sender
  segments_out :: "tcp_segment list"
  linger_after_streams_finish :: bool
  time_since_last_segment_received :: u64
  active :: bool
  is_fin_sent :: bool
  is_fin_acked :: bool

definition new_tcp_connection :: "tcp_config \<Rightarrow> u32 \<Rightarrow> tcp_connection" where
  "new_tcp_connection c rnd =
     \<lparr>cfg = c, receiver = new_tcp_receiver (recv_capacity c),
      sender = new_tcp_sender (send_capacity c) (rt_timeout c) (fixed_isn c) rnd,
      segments_out = [], linger_after_streams_finish = True,
      time_since_last_segment_received = 0, active = True, is_fin_sent = False, is_fin_acked = False\<rparr>"

definition remaining_outbound_capacity :: "tcp_connection \<Rightarrow> u64" where
  "remaining_outbound_capacity c = bs_remaining_capacity (sd_stream (sender c))"

definition tc_bytes_in_flight :: "tcp_connection \<Rightarrow> u64" where
  "tc_bytes_in_flight c = bytes_in_flight (sender c)"

definition tc_unassembled_bytes :: "tcp_connection \<Rightarrow> u64" where
  "tc_unassembled_bytes c = rc_unassembled_bytes (receiver c)"

definition tc_state :: "tcp_connection \<Rightarrow> tcp_state" where
  "tc_state c = tcp_state_of (sender c) (receiver c) (active c) (linger_after_streams_finish c)"

text \<open>\<open>flush_sender\<close>: every segment of the sender's queue, stamped.\<close>

definition stamp :: "tcp_receiver \<Rightarrow> tcp_segment \<Rightarrow> tcp_segment" where
  "stamp r front_seg =
     (let h = seg_header front_seg;
          h1 = (case rc_ackno r of Some a \<Rightarrow> h\<lparr>ackno := a, ack := True\<rparr> | None \<Rightarrow> h);
          h2 = h1\<lparr>win := (if rc_window_size r < 65535 then ucast (rc_window_size r) else 65535)\<rparr>
      in front_seg\<lparr>seg_header := h2\<rparr>)"

fun flush_loop :: "tcp_segment list \<Rightarrow> tcp_connection \<Rightarrow> tcp_connection" where
  "flush_loop [] c = c"
| "flush_loop (front_seg # segs) c =
     (let out = stamp (receiver c) front_seg
      in flush_loop segs
           (c\<lparr>sender := (sender c)\<lparr>sd_segments_out := segs\<rparr>,
              segments_out := segments_out c @ [out],
              is_fin_sent := is_fin_sent c \<or> fin (seg_header out)\<rparr>))"

definition flush_sender :: "tcp_connection \<Rightarrow> tcp_connection" where
  "flush_sender c = flush_loop (sd_segments_out (sender c)) c"

definition set_errors :: "tcp_connection \<Rightarrow> tcp_connection" where
  "set_errors c = c\<lparr>sender := sd_set_error (sender c), receiver := rc_set_error (receiver c)\<rparr>"

definition send_rst :: "tcp_connection \<Rightarrow> tcp_connection" where
  "send_rst c =
     (let c1 = (set_errors c)\<lparr>active := False\<rparr>;
          s = send_empty_segment ((sender c1)\<lparr>sd_segments_out := []\<rparr>);
          front = hd (sd_segments_out s);
          rst_seg = front\<lparr>seg_header := (seg_header front)\<lparr>rst := True\<rparr>\<rparr>
      in c1\<lparr>sender := s\<lparr>sd_segments_out := tl (sd_segments_out s)\<rparr>,
            segments_out := segments_out c1 @ [rst_seg]\<rparr>)"

text \<open>
  The body of \<open>segment_received\<close> in three stages: the receiver and the sender see the segment,
  the flags of the shutdown are updated, and a reply is queued if there is nothing else to send.
\<close>

definition sr_delivered :: "tcp_connection \<Rightarrow> tcp_segment \<Rightarrow> tcp_connection" where
  "sr_delivered c seg =
     (let header = seg_header seg;
          c1 = c\<lparr>receiver := rc_segment_received (receiver c) seg\<rparr>;
          c2 = (if ack header
                then c1\<lparr>sender := ack_received (sender c1) (ackno header) (win header)\<rparr> else c1)
      in if rc_ackno (receiver c2) \<noteq> None
         then c2\<lparr>sender := fill_window (sender c2)\<rparr> else c2)"

definition sr_fin :: "tcp_connection \<Rightarrow> tcp_segment \<Rightarrow> tcp_connection" where
  "sr_fin c seg =
     (if is_fin_sent c
      then (if wi_eq (ackno (seg_header seg)) (sd_next_seqno (sender c))
            then c\<lparr>is_fin_acked := True, active := active c \<and> linger_after_streams_finish c\<rparr>
            else c)
      else c\<lparr>linger_after_streams_finish := linger_after_streams_finish c
               \<and> \<not> bs_input_ended (rc_stream_out (receiver c))\<rparr>)"

definition sr_reply :: "tcp_connection \<Rightarrow> tcp_segment \<Rightarrow> tcp_connection" where
  "sr_reply c seg =
     (let c1 = (if 0 < length_in_sequence_space seg \<and> sd_segments_out (sender c) = []
                then c\<lparr>sender := send_empty_segment (sender c)\<rparr> else c);
          keep_alive = (case rc_ackno (receiver c1) of
                          Some a \<Rightarrow> length_in_sequence_space seg = 0 \<and>
                                    wi_eq (seqno (seg_header seg)) (wi_minus a 1)
                        | None \<Rightarrow> False)
      in if keep_alive then c1\<lparr>sender := send_empty_segment (sender c1)\<rparr> else c1)"

definition segment_received :: "tcp_connection \<Rightarrow> tcp_segment \<Rightarrow> tcp_connection" where
  "segment_received c0 seg =
     (let c = c0\<lparr>time_since_last_segment_received := 0\<rparr>;
          header = seg_header seg
      in if \<not> active c
         then (if syn header
               then c\<lparr>active := True, receiver := rc_segment_received (receiver c) seg\<rparr>
               else c)
         else if rst header
         then set_errors (c\<lparr>active := False\<rparr>)
         else flush_sender (sr_reply (sr_fin (sr_delivered c seg) seg) seg))"

definition tc_write :: "tcp_connection \<Rightarrow> bytes \<Rightarrow> tcp_connection \<times> u64" where
  "tc_write c data =
     (let (s, accepted_bytes) = sd_write_stream (sender c) data
      in (flush_sender (c\<lparr>sender := fill_window s\<rparr>), accepted_bytes))"

definition tc_tick :: "tcp_connection \<Rightarrow> u64 \<Rightarrow> tcp_connection" where
  "tc_tick c ms_since_last_tick =
     (let c1 = c\<lparr>time_since_last_segment_received := time_since_last_segment_received c + ms_since_last_tick,
                 sender := sd_tick (sender c) ms_since_last_tick\<rparr>
      in if MAX_RETX_ATTEMPTS < consecutive_retransmissions (sender c1)
         then send_rst c1
         else
           let c2 = (if bs_input_ended (rc_stream_out (receiver c1)) \<and> is_fin_acked c1
                     then (if \<not> linger_after_streams_finish c1 then c1\<lparr>active := False\<rparr>
                           else if 10 * ucast (rt_timeout (cfg c1)) \<le> time_since_last_segment_received c1
                           then c1\<lparr>active := False\<rparr>
                           else c1)
                     else c1)
           in flush_sender c2)"

definition end_input_stream :: "tcp_connection \<Rightarrow> tcp_connection" where
  "end_input_stream c = flush_sender (c\<lparr>sender := fill_window (sd_end_stream (sender c))\<rparr>)"

definition connect :: "tcp_connection \<Rightarrow> tcp_connection" where
  "connect c = (let c1 = c\<lparr>active := True\<rparr> in flush_sender (c1\<lparr>sender := fill_window (sender c1)\<rparr>))"

text \<open>The destructor.\<close>

definition destroy :: "tcp_connection \<Rightarrow> tcp_connection" where
  "destroy c = (if active c then send_rst c else c)"

text \<open>The reader's side of \<open>inbound_stream()\<close>, and the owner taking the queued segments.\<close>

definition tc_read :: "tcp_connection \<Rightarrow> u64 \<Rightarrow> tcp_connection \<times> bytes" where
  "tc_read c n = (let (r, got) = rc_read_out (receiver c) n in (c\<lparr>receiver := r\<rparr>, got))"

definition tc_take_segments :: "tcp_connection \<Rightarrow> tcp_connection \<times> tcp_segment list" where
  "tc_take_segments c = (c\<lparr>segments_out := []\<rparr>, segments_out c)"

section \<open>Flushing\<close>

lemma flush_loop_eq:
  "flush_loop segs c =
     (if segs = [] then c
      else c\<lparr>sender := (sender c)\<lparr>sd_segments_out := []\<rparr>,
             segments_out := segments_out c @ map (stamp (receiver c)) segs,
             is_fin_sent := is_fin_sent c \<or> (\<exists>x \<in> set segs. fin (seg_header x))\<rparr>)"
proof (induction segs arbitrary: c)
  case Nil
  then show ?case by simp
next
  case (Cons x xs)
  have "fin (seg_header (stamp (receiver c) x)) = fin (seg_header x)"
    by (simp add: stamp_def Let_def split: option.split)
  then show ?case
    by (simp only: flush_loop.simps Let_def Cons.IH) auto
qed

lemma flush_sender_eq:
  "flush_sender c =
     c\<lparr>sender := (sender c)\<lparr>sd_segments_out := []\<rparr>,
       segments_out := segments_out c @ map (stamp (receiver c)) (sd_segments_out (sender c)),
       is_fin_sent := is_fin_sent c \<or> (\<exists>x \<in> set (sd_segments_out (sender c)). fin (seg_header x))\<rparr>"
  unfolding flush_sender_def flush_loop_eq
  by (cases "sd_segments_out (sender c)") simp_all

lemma stamp_simps [simp]:
  "seg_payload (stamp r x) = seg_payload x" "seqno (seg_header (stamp r x)) = seqno (seg_header x)"
  "syn (seg_header (stamp r x)) = syn (seg_header x)" "fin (seg_header (stamp r x)) = fin (seg_header x)"
  "rst (seg_header (stamp r x)) = rst (seg_header x)"
  by (simp_all add: stamp_def Let_def split: option.split)

lemma stamp_ack:
  "rc_ackno r = Some a \<Longrightarrow> ack (seg_header (stamp r x)) \<and> ackno (seg_header (stamp r x)) = a"
  "unat (win (seg_header (stamp r x))) = min (unat (rc_window_size r)) 65535"
proof -
  show "rc_ackno r = Some a \<Longrightarrow> ack (seg_header (stamp r x)) \<and> ackno (seg_header (stamp r x)) = a"
    by (simp add: stamp_def Let_def)
  have "unat (ucast (w :: u64) :: u16) = unat w" if "w < 65535" for w
    using that by (simp add: unsigned_ucast_eq take_bit_eq_mod word_less_nat_alt)
  then show "unat (win (seg_header (stamp r x))) = min (unat (rc_window_size r)) 65535"
    by (auto simp: stamp_def Let_def word_less_nat_alt min_def split: option.split)
qed

lemma sd_seg_ok_stamp [simp]: "sd_seg_ok S s (stamp r x) \<longleftrightarrow> sd_seg_ok S s x"
  by (simp add: sd_seg_ok_def seg_inert_def seg_genuine_def seg_len_def)

section \<open>The invariant of a connection\<close>

text \<open>
  Between two calls the sender's queue is empty and the sender satisfies its invariant for the
  bytes \<open>S\<close> written so far; every queued segment is genuine for \<open>S\<close> or occupies no sequence
  numbers; and \<open>_is_fin_acked\<close> means that the peer has acknowledged everything.
\<close>

definition tc_inv :: "tcp_connection \<times> bytes \<Rightarrow> bool" where
  "tc_inv = (\<lambda>(c, S). sd_inv (sender c, S) \<and> sd_segments_out (sender c) = [] \<and>
     (is_fin_sent c \<longleftrightarrow> sd_is_fin_sent (sender c)) \<and>
     (\<forall>x \<in> set (segments_out c). sd_seg_ok S (sender c) x) \<and>
     (is_fin_acked c \<longrightarrow> is_fin_sent c \<and> prv (sender c) = nxt (sender c)))"

text \<open>The same while the sender's queue is being filled.\<close>

definition tc_mid :: "tcp_connection \<Rightarrow> bytes \<Rightarrow> bool" where
  "tc_mid c S \<longleftrightarrow> sd_inv (sender c, S) \<and>
     (is_fin_sent c \<or> (\<exists>x \<in> set (sd_segments_out (sender c)). fin (seg_header x))
        \<longleftrightarrow> sd_is_fin_sent (sender c)) \<and>
     (\<forall>x \<in> set (segments_out c). sd_seg_ok S (sender c) x) \<and>
     (is_fin_acked c \<longrightarrow> is_fin_sent c \<and> prv (sender c) = nxt (sender c))"

lemma tc_inv_iff: "tc_inv (c, S) \<longleftrightarrow> tc_mid c S \<and> sd_segments_out (sender c) = []"
  by (auto simp: tc_inv_def tc_mid_def)

lemma tc_inv_mid: "tc_inv (c, S) \<Longrightarrow> tc_mid c S"
  by (simp add: tc_inv_iff)

lemma sd_inv_out_empty: "sd_inv (s, S) \<Longrightarrow> sd_inv (s\<lparr>sd_segments_out := []\<rparr>, S)"
  by (rule sd_inv_cong) (auto simp: sd_queue_ok_def sd_window_ok_def sd_inv_def)

lemma tc_inv_flush:
  assumes "tc_mid c S"
  shows "tc_inv (flush_sender c, S)"
proof -
  have "sd_seg_ok S ((sender c)\<lparr>sd_segments_out := []\<rparr>) x \<longleftrightarrow> sd_seg_ok S (sender c) x" for x
    by (simp add: sd_seg_ok_def)
  then show ?thesis
    using assms sd_inv_out_empty [of "sender c" S]
    by (auto simp: tc_inv_def tc_mid_def flush_sender_eq sd_inv_def)
qed

text \<open>What the steps of the sender do to what the connection relies on.\<close>

definition sd_step_ok :: "tcp_sender \<Rightarrow> tcp_sender \<Rightarrow> bool" where
  "sd_step_ok s t \<longleftrightarrow> nxt s \<le> nxt t \<and> sd_isn t = sd_isn s \<and>
     (sd_is_fin_sent s \<longrightarrow> next_seqno_abs t = next_seqno_abs s \<and> sd_is_fin_sent t) \<and>
     (\<exists>new. sd_segments_out t = sd_segments_out s @ new \<and>
        (sd_is_fin_sent t \<longleftrightarrow> sd_is_fin_sent s \<or> (\<exists>x \<in> set new. fin (seg_header x))))"

lemma sd_step_okI:
  assumes "next_seqno_abs t = next_seqno_abs s" "sd_isn t = sd_isn s" "sd_is_fin_sent t = sd_is_fin_sent s"
    and "sd_segments_out t = sd_segments_out s @ new"
    and "\<And>x. x \<in> set new \<Longrightarrow> fin (seg_header x) \<Longrightarrow> sd_is_fin_sent s"
  shows "sd_step_ok s t"
  using assms by (auto simp: sd_step_ok_def)

lemma sd_step_trans:
  assumes st: "sd_step_ok s t" and tu: "sd_step_ok t u"
  shows "sd_step_ok s u"
proof -
  from st obtain xs where xs: "sd_segments_out t = sd_segments_out s @ xs"
    "sd_is_fin_sent t \<longleftrightarrow> sd_is_fin_sent s \<or> (\<exists>x \<in> set xs. fin (seg_header x))"
    unfolding sd_step_ok_def by blast
  from tu obtain ys where ys: "sd_segments_out u = sd_segments_out t @ ys"
    "sd_is_fin_sent u \<longleftrightarrow> sd_is_fin_sent t \<or> (\<exists>x \<in> set ys. fin (seg_header x))"
    unfolding sd_step_ok_def by blast
  have "sd_segments_out u = sd_segments_out s @ (xs @ ys)" using xs(1) ys(1) by simp
  moreover have "sd_is_fin_sent u \<longleftrightarrow> sd_is_fin_sent s \<or> (\<exists>x \<in> set (xs @ ys). fin (seg_header x))"
    using xs(2) ys(2) by auto
  moreover have "nxt s \<le> nxt u" "sd_isn u = sd_isn s"
    "sd_is_fin_sent s \<Longrightarrow> next_seqno_abs u = next_seqno_abs s \<and> sd_is_fin_sent u"
    using st tu by (simp_all add: sd_step_ok_def)
  ultimately show ?thesis unfolding sd_step_ok_def by blast
qed

lemma fill_window_fin:
  assumes inv: "sd_inv (s, S)" and f: "sd_is_fin_sent s"
  shows "fill_window s = s"
  using sd_stream_okD(5,6) [OF sd_invD(1) [OF inv]] f
  by (auto simp: fill_window_def Let_def fill_loop_fin)

lemma sd_step_fill:
  assumes inv: "sd_inv (s, S)"
  shows "sd_step_ok s (fill_window s)" "previous_ackno (fill_window s) = previous_ackno s"
proof -
  have sent: "sd_step_ok s t \<and> previous_ackno t = previous_ackno s"
    if "sd_sent s t segs" "\<not> sd_is_fin_sent s" for t segs
    using that by (auto simp: sd_step_ok_def sd_sent_def)
  have same: "sd_step_ok s s" by (rule sd_step_okI [where new = "[]"]) simp_all
  have nf: "\<not> sd_is_fin_sent s" if "nxt s = 0"
    using sd_stream_okD(6) [OF sd_invD(1) [OF inv]] that by simp
  consider "sd_is_fin_sent s" | "nxt s = 0" | "nxt s \<noteq> 0" "next_seqno_abs s = bytes_in_flight s"
    | "nxt s \<noteq> 0" "next_seqno_abs s \<noteq> bytes_in_flight s" "\<not> sd_is_fin_sent s"
    by blast
  then have "sd_step_ok s (fill_window s) \<and> previous_ackno (fill_window s) = previous_ackno s"
  proof cases
    case 1
    then show ?thesis using same by (simp add: fill_window_fin [OF inv])
  next
    case 2
    have "sd_sent s (sd_emit s syn_segment) [numbered s syn_segment]"
      using sd_stream_okD(1) [OF sd_invD(1) [OF inv]] 2 by (intro sd_sent_syn) simp_all
    from sent [OF this nf [OF 2]] 2 show ?thesis
      by (simp add: fill_window_def Let_def unat_eq_0)
  next
    case 3
    then have "fill_window s = s"
      by (auto simp: fill_window_def Let_def word_neq_0_conv)
    then show ?thesis using same by simp
  next
    case 4
    then show ?thesis by (elim fill_window_sent [OF inv]) (auto dest: sent)
  qed
  then show "sd_step_ok s (fill_window s)" "previous_ackno (fill_window s) = previous_ackno s" by simp_all
qed

lemma sd_acked_simps [simp]:
  "next_seqno_abs (sd_acked s A w) = next_seqno_abs s" "sd_isn (sd_acked s A w) = sd_isn s"
  "sd_is_fin_sent (sd_acked s A w) = sd_is_fin_sent s" "sd_segments_out (sd_acked s A w) = sd_segments_out s"
  "previous_ackno (sd_acked s A w) = A"
  by (simp_all add: sd_acked_def split_beta)

lemma sd_step_ack:
  assumes inv: "sd_inv (s, S)" and k: "ack_keeps_window s ackn w"
  shows "sd_step_ok s (ack_received s ackn w)" "prv (ack_received s ackn w) = acked_upto s ackn"
proof -
  let ?A = "unwrap ackn (sd_isn s) (previous_ackno s)"
  have *: "sd_step_ok s (ack_received s ackn w) \<and> prv (ack_received s ackn w) = acked_upto s ackn"
  proof (cases "previous_ackno s < ?A \<and> ?A \<le> next_seqno_abs s")
    case True
    then have A: "prv s < unat ?A" "unat ?A \<le> nxt s"
      by (simp_all add: word_less_nat_alt word_le_nat_alt)
    then have "sd_inv (sd_acked s ?A w, S)"
      using k by (intro sd_acked_inv [OF inv]) (auto simp: ack_keeps_window_def acked_upto_def Let_def)
    note f = sd_step_fill [OF this]
    have "sd_step_ok s (sd_acked s ?A w)"
      by (rule sd_step_okI [where new = "[]"]) simp_all
    from sd_step_trans [OF this f(1)] have "sd_step_ok s (fill_window (sd_acked s ?A w))" .
    then show ?thesis
      using True A f(2) by (simp add: ack_received_eq Let_def sd_step_ok_def acked_upto_def)
  next
    case False
    then have "acked_upto s ackn = prv s"
      by (auto simp: acked_upto_def Let_def word_less_nat_alt word_le_nat_alt)
    moreover have "sd_step_ok s (s\<lparr>sd_window_size := w\<rparr>)"
      by (rule sd_step_okI [where new = "[]"]) simp_all
    ultimately show ?thesis using False by (simp only: ack_received_eq Let_def if_False) simp
  qed
  then show "sd_step_ok s (ack_received s ackn w)" "prv (ack_received s ackn w) = acked_upto s ackn" by simp_all
qed

text \<open>Acknowledging the next sequence number acknowledges everything.\<close>

lemma acked_upto_next:
  assumes inv: "sd_inv (s, S)"
  shows "acked_upto s (sd_next_seqno s) = nxt s"
proof -
  have "prv s \<le> nxt s" "nxt s \<le> prv s + 65536"
    using sd_invD(2,3) [OF inv] by (simp_all add: sd_queue_ok_def sd_window_ok_def)
  then have "\<bar>int (nxt s) - int (prv s)\<bar> < 2147483648" by linarith
  from seq.dec_enc [OF this, of "sd_isn s"] \<open>prv s \<le> nxt s\<close> show ?thesis
    by (simp add: acked_upto_def sd_next_seqno_def Let_def)
qed

lemma tc_mid_frame [simp]:
  "tc_mid (c\<lparr>receiver := r\<rparr>) S = tc_mid c S" "tc_mid (c\<lparr>active := b\<rparr>) S = tc_mid c S"
  "tc_mid (c\<lparr>linger_after_streams_finish := b\<rparr>) S = tc_mid c S"
  "tc_mid (c\<lparr>time_since_last_segment_received := n\<rparr>) S = tc_mid c S"
  by (simp_all add: tc_mid_def)

lemma tc_midD: "tc_mid c S \<Longrightarrow> sd_inv (sender c, S)"
  by (simp add: tc_mid_def)

lemma tc_mid_step:
  assumes c: "tc_mid c S" and inv: "sd_inv (t, S)" and st: "sd_step_ok (sender c) t"
    and a: "is_fin_acked c \<Longrightarrow> prv (sender c) = nxt (sender c) \<Longrightarrow> prv t = nxt t"
  shows "tc_mid (c\<lparr>sender := t\<rparr>) S"
proof -
  have "sd_seg_ok S t x" if "sd_seg_ok S (sender c) x" for x
    using that st by (elim sd_seg_ok_mono) (simp_all add: sd_step_ok_def)
  then show ?thesis
    using c inv st a by (auto simp: tc_mid_def sd_step_ok_def)
qed

lemma tc_mid_fill:
  assumes "tc_mid c S"
  shows "tc_mid (c\<lparr>sender := fill_window (sender c)\<rparr>) S"
proof -
  have inv: "sd_inv (sender c, S)" by (rule tc_midD [OF assms])
  have "sd_is_fin_sent (sender c)" if "is_fin_acked c" using that assms by (auto simp: tc_mid_def)
  then show ?thesis
    by (intro tc_mid_step [OF assms sd_inv_fill [OF inv] sd_step_fill(1) [OF inv]])
      (simp add: fill_window_fin [OF inv])
qed

lemma tc_mid_empty:
  assumes "tc_mid c S"
  shows "tc_mid (c\<lparr>sender := send_empty_segment (sender c)\<rparr>) S"
  using assms
proof (rule tc_mid_step)
  show "sd_step_ok (sender c) (send_empty_segment (sender c))"
    by (rule sd_step_okI)
      (auto simp: send_empty_segment_def Let_def new_tcp_segment_def new_tcp_header_def)
qed (use sd_inv_empty [OF tc_midD [OF assms]] in \<open>simp_all add: send_empty_segment_def Let_def\<close>)

lemma sd_tick_step:
  assumes inv: "sd_inv (s, S)"
  shows "sd_step_ok s (sd_tick s ms)" "next_seqno_abs (sd_tick s ms) = next_seqno_abs s"
    "previous_ackno (sd_tick s ms) = previous_ackno s"
    "sd_segments_out (sd_tick s ms) = sd_segments_out s \<or>
     (\<exists>x \<in> set (outs s). sd_segments_out (sd_tick s ms) = sd_segments_out s @ [x])"
proof -
  show nx: "next_seqno_abs (sd_tick s ms) = next_seqno_abs s"
    "previous_ackno (sd_tick s ms) = previous_ackno s"
    by (simp_all add: sd_tick_def Let_def split_beta split: list.split)
  have f: "sd_isn (sd_tick s ms) = sd_isn s" "sd_is_fin_sent (sd_tick s ms) = sd_is_fin_sent s"
    by (simp_all add: sd_tick_def Let_def split_beta split: list.split)
  show out: "sd_segments_out (sd_tick s ms) = sd_segments_out s \<or>
     (\<exists>x \<in> set (outs s). sd_segments_out (sd_tick s ms) = sd_segments_out s @ [x])"
    by (simp add: sd_tick_def Let_def split_beta split: list.split)
  have fn: "fin (seg_header x) \<Longrightarrow> x \<in> set (outs s) \<Longrightarrow> sd_is_fin_sent s" for x
    using sd_invD(5) [OF inv] by (auto simp: sd_seg_ok_def seg_inert_def)
  from out show "sd_step_ok s (sd_tick s ms)"
  proof (elim disjE bexE)
    assume "sd_segments_out (sd_tick s ms) = sd_segments_out s"
    then show ?thesis by (intro sd_step_okI [OF nx(1) f, of "[]"]) simp_all
  next
    fix x
    assume "x \<in> set (outs s)" "sd_segments_out (sd_tick s ms) = sd_segments_out s @ [x]"
    then show ?thesis using fn by (intro sd_step_okI [OF nx(1) f, of "[x]"]) auto
  qed
qed

lemma tc_mid_tick:
  assumes "tc_mid c S"
  shows "tc_mid (c\<lparr>sender := sd_tick (sender c) ms\<rparr>) S"
  using tc_midD [OF assms]
  by (intro tc_mid_step [OF assms]) (simp_all add: sd_inv_tick sd_tick_step)

lemma tc_mid_ack:
  assumes c: "tc_mid c S" and k: "ack_keeps_window (sender c) a w"
  shows "tc_mid (c\<lparr>sender := ack_received (sender c) a w\<rparr>) S"
proof (rule tc_mid_step [OF c])
  note inv = tc_midD [OF c]
  show "sd_inv (ack_received (sender c) a w, S)" by (rule sd_inv_ack [OF inv k])
  note st = sd_step_ack [OF inv k]
  show "sd_step_ok (sender c) (ack_received (sender c) a w)" by (rule st(1))
  assume "is_fin_acked c" "prv (sender c) = nxt (sender c)"
  moreover from this have "sd_is_fin_sent (sender c)" using c by (auto simp: tc_mid_def)
  ultimately show "prv (ack_received (sender c) a w) = nxt (ack_received (sender c) a w)"
    using st by (simp add: sd_step_ok_def acked_upto_def Let_def)
qed

section \<open>Every operation keeps the invariant\<close>

lemma tc_mid_errors:
  assumes "tc_mid c S"
  shows "tc_mid (set_errors c) S"
proof -
  have "sd_step_ok (sender c) (sd_set_error (sender c))"
    by (rule sd_step_okI [where new = "[]"]) (simp_all add: sd_set_error_def)
  then have "tc_mid (c\<lparr>sender := sd_set_error (sender c)\<rparr>) S"
    using sd_inv_error [OF tc_midD [OF assms]] by (intro tc_mid_step [OF assms]) (simp_all add: sd_set_error_def)
  then show ?thesis by (simp add: set_errors_def)
qed

lemma tc_inv_errors: "tc_inv (c, S) \<Longrightarrow> tc_inv (set_errors (c\<lparr>active := b\<rparr>), S)"
  using tc_mid_errors [of "c\<lparr>active := b\<rparr>" S]
  by (simp add: tc_inv_iff) (simp add: set_errors_def sd_set_error_def)

text \<open>\<open>send_rst\<close> drops what is queued; a FIN among it must have been sent before.\<close>

lemma send_rst_eq:
  "send_rst c = (set_errors c)\<lparr>active := False,
     sender := (sd_set_error (sender c))\<lparr>sd_segments_out := []\<rparr>,
     segments_out := segments_out c @ [new_tcp_segment\<lparr>seg_header :=
       new_tcp_header\<lparr>seqno := sd_next_seqno (sender c), rst := True\<rparr>\<rparr>]\<rparr>"
  by (simp add: send_rst_def set_errors_def send_empty_segment_def Let_def sd_set_error_def
      sd_next_seqno_def new_tcp_segment_def)

lemma tc_inv_send_rst:
  assumes c: "tc_mid c S"
    and f: "sd_is_fin_sent (sender c) \<Longrightarrow> is_fin_sent c"
  shows "tc_inv (send_rst c, S)"
proof -
  let ?s = "(sd_set_error (sender c))\<lparr>sd_segments_out := []\<rparr>"
  have "sd_inv (?s, S)" by (intro sd_inv_out_empty sd_inv_error tc_midD [OF c])
  moreover have "sd_seg_ok S ?s x \<longleftrightarrow> sd_seg_ok S (sender c) x" for x
    by (simp add: sd_seg_ok_def sd_set_error_def)
  moreover have "sd_seg_ok S (sender c) (new_tcp_segment\<lparr>seg_header :=
      new_tcp_header\<lparr>seqno := sd_next_seqno (sender c), rst := True\<rparr>\<rparr>)"
    by (simp add: sd_seg_ok_def seg_inert_def new_tcp_segment_def new_tcp_header_def)
  ultimately show ?thesis
    using c f unfolding tc_inv_def tc_mid_def send_rst_eq set_errors_def
    by (auto simp: sd_set_error_def)
qed

lemma tc_inv_connect: "tc_inv (c, S) \<Longrightarrow> tc_inv (connect c, S)"
  using tc_mid_fill [of "c\<lparr>active := True\<rparr>" S]
  by (simp add: connect_def Let_def tc_inv_flush tc_inv_mid)

lemma tc_inv_destroy: "tc_inv (c, S) \<Longrightarrow> tc_inv (destroy c, S)"
  using tc_inv_send_rst [of c S] by (auto simp: destroy_def tc_inv_iff tc_mid_def)

lemma tc_inv_end:
  assumes "tc_inv (c, S)"
  shows "tc_inv (end_input_stream c, S)"
proof -
  have m: "tc_mid c S" by (rule tc_inv_mid [OF assms])
  have "sd_step_ok (sender c) (sd_end_stream (sender c))"
    by (rule sd_step_okI [where new = "[]"]) (simp_all add: sd_end_stream_def)
  then have "tc_mid (c\<lparr>sender := sd_end_stream (sender c)\<rparr>) S"
    using sd_inv_end [OF tc_midD [OF m]] by (intro tc_mid_step [OF m]) (simp_all add: sd_end_stream_def)
  from tc_inv_flush [OF tc_mid_fill [OF this]] show ?thesis by (simp add: end_input_stream_def)
qed

lemma tc_inv_write:
  assumes c: "tc_inv (c, S)" and ne: "\<not> is_input_ended (sd_stream (sender c))"
    and d: "length S + length data < two64 - 2"
  shows "tc_inv (fst (tc_write c data), S @ take (unat (snd (tc_write c data))) data)"
proof -
  let ?t = "fst (sd_write_stream (sender c) data)" and ?T = "take (unat (snd (sd_write_stream (sender c) data))) data"
  have m: "tc_mid c S" by (rule tc_inv_mid [OF c])
  note inv = tc_midD [OF m]
  obtain x where t: "?t = (sender c)\<lparr>sd_stream := x\<rparr>"
    by (simp add: sd_write_stream_def split_beta)
  have nf: "\<not> sd_is_fin_sent (sender c)"
    using sd_stream_okD(1,5) [OF sd_invD(1) [OF inv]] ne by (auto simp: bs_eof_def bs_eof_exact_def)
  then have "sd_seg_ok (S @ ?T) ?t y" if "sd_seg_ok S (sender c) y" for y
    using that unfolding t by (auto simp: sd_seg_ok_def intro: seg_genuine_append)
  then have "tc_mid (c\<lparr>sender := ?t\<rparr>) (S @ ?T)"
    using m sd_inv_write [OF inv ne d] unfolding tc_mid_def t by simp
  from tc_inv_flush [OF tc_mid_fill [OF this]] show ?thesis
    by (simp add: tc_write_def split_beta Let_def)
qed

lemma tc_inv_tick:
  assumes c: "tc_inv (c, S)"
  shows "tc_inv (tc_tick c ms, S)"
proof -
  let ?c1 = "c\<lparr>time_since_last_segment_received := time_since_last_segment_received c + ms,
    sender := sd_tick (sender c) ms\<rparr>"
  have m: "tc_mid c S" by (rule tc_inv_mid [OF c])
  have c1: "tc_mid ?c1 S"
    using tc_mid_tick [of "c\<lparr>time_since_last_segment_received := time_since_last_segment_received c + ms\<rparr>" S ms] m
    by simp
  have "sd_is_fin_sent (sd_tick (sender c) ms) = is_fin_sent c"
    using c by (simp add: tc_inv_def sd_tick_def Let_def split_beta split: list.split)
  then have "tc_inv (send_rst ?c1, S)" by (intro tc_inv_send_rst [OF c1]) simp
  moreover have "tc_inv (flush_sender ?c1, S)" by (rule tc_inv_flush [OF c1])
  moreover have "tc_mid (?c1\<lparr>active := False\<rparr>) S" using c1 by (simp only: tc_mid_frame)
  then have "tc_inv (flush_sender (?c1\<lparr>active := False\<rparr>), S)" by (rule tc_inv_flush)
  ultimately show ?thesis by (simp add: tc_tick_def Let_def)
qed

text \<open>
  The peer keeps the window it has offered, and acknowledges our FIN only in segments with the
  ACK flag (the code does not look at the flag there).
\<close>

definition tc_seg_fair :: "tcp_connection \<Rightarrow> tcp_segment \<Rightarrow> bool" where
  "tc_seg_fair c seg \<longleftrightarrow>
     (if ack (seg_header seg)
      then ack_keeps_window (sender c) (ackno (seg_header seg)) (win (seg_header seg))
      else ackno (seg_header seg) \<noteq> sd_next_seqno (sender c))"

lemma sr_delivered_mid:
  assumes c: "tc_mid c S" and ok: "tc_seg_fair c seg" and e: "is_fin_sent c \<longleftrightarrow> sd_is_fin_sent (sender c)"
  shows "tc_mid (sr_delivered c seg) S"
    "is_fin_sent (sr_delivered c seg) \<Longrightarrow>
     ackno (seg_header seg) = sd_next_seqno (sender (sr_delivered c seg)) \<Longrightarrow>
     prv (sender (sr_delivered c seg)) = nxt (sender (sr_delivered c seg))"
proof -
  let ?h = "seg_header seg"
  define r where "r = rc_segment_received (receiver c) seg"
  define s where "s = (if ack ?h then ack_received (sender c) (ackno ?h) (win ?h) else sender c)"
  define t where "t = (if rc_ackno r \<noteq> None then fill_window s else s)"
  have d: "sr_delivered c seg = c\<lparr>receiver := r, sender := t\<rparr>"
    by (simp add: sr_delivered_def r_def s_def t_def Let_def)
  have inv: "sd_inv (sender c, S)" by (rule tc_midD [OF c])
  have ms: "tc_mid (c\<lparr>receiver := r, sender := s\<rparr>) S"
    using tc_mid_ack [of "c\<lparr>receiver := r\<rparr>" S] c ok by (auto simp: s_def tc_seg_fair_def)
  then have mt: "tc_mid (c\<lparr>receiver := r, sender := t\<rparr>) S"
    using tc_mid_fill [OF ms] by (simp add: t_def)
  then show "tc_mid (sr_delivered c seg) S" by (simp only: d)
  have "sd_inv (s, S)" using tc_midD [OF ms] by simp
  moreover assume "is_fin_sent (sr_delivered c seg)" and a: "ackno ?h = sd_next_seqno (sender (sr_delivered c seg))"
  then have f: "sd_is_fin_sent (sender c)" using e by (simp add: d)
  then have "next_seqno_abs s = next_seqno_abs (sender c) \<and> sd_is_fin_sent s \<and> sd_isn s = sd_isn (sender c)"
    using sd_step_ack(1) [OF inv] ok by (auto simp: s_def tc_seg_fair_def sd_step_ok_def)
  ultimately have n: "t = s" "next_seqno_abs s = next_seqno_abs (sender c)" "sd_isn s = sd_isn (sender c)"
    by (auto simp: t_def fill_window_fin)
  then have "ackno ?h = sd_next_seqno (sender c)" using a by (simp add: d sd_next_seqno_def)
  then have "prv s = nxt (sender c)"
    using ok sd_step_ack(2) [OF inv] acked_upto_next [OF inv] by (auto simp: s_def tc_seg_fair_def)
  then show "prv (sender (sr_delivered c seg)) = nxt (sender (sr_delivered c seg))"
    using n by (simp add: d)
qed

lemma tc_mid_reply: "tc_mid c S \<Longrightarrow> tc_mid (sr_reply c seg) S"
  by (simp add: sr_reply_def Let_def tc_mid_empty split: option.split)

lemma tc_inv_segment:
  assumes c: "tc_inv (c, S)" and ok: "active c \<Longrightarrow> \<not> rst (seg_header seg) \<Longrightarrow> tc_seg_fair c seg"
  shows "tc_inv (segment_received c seg, S)"
proof -
  let ?c = "c\<lparr>time_since_last_segment_received := 0\<rparr>"
  have c0: "tc_inv (?c, S)" using c by (auto simp: tc_inv_def)
  have e: "tc_inv (set_errors (?c\<lparr>active := False\<rparr>), S)" by (rule tc_inv_errors [OF c0])
  show ?thesis
  proof (cases "active c \<and> \<not> rst (seg_header seg)")
    case False
    have "tc_inv (?c\<lparr>active := True, receiver := r\<rparr>, S)" for r using c by (auto simp: tc_inv_def)
    with False c0 e show ?thesis by (auto simp: segment_received_def Let_def)
  next
    case True
    let ?d = "sr_delivered ?c seg"
    have "tc_mid ?c S" "tc_seg_fair ?c seg" "is_fin_sent ?c \<longleftrightarrow> sd_is_fin_sent (sender ?c)"
      using c ok True by (auto simp: tc_inv_def tc_mid_def tc_seg_fair_def)
    note d = sr_delivered_mid [OF this]
    then have "tc_mid (sr_fin ?d seg) S"
      by (auto simp: sr_fin_def) (auto simp: tc_mid_def)
    then have "tc_inv (flush_sender (sr_reply (sr_fin ?d seg) seg), S)"
      by (intro tc_inv_flush tc_mid_reply)
    with True show ?thesis by (simp add: segment_received_def Let_def)
  qed
qed

section \<open>Runs of a connection\<close>

datatype tc_op = TConnect | TWrite bytes | TEnd | TSegment tcp_segment | TTick u64 | TRead u64
  | TTake | TDestroy

fun tc_exec :: "tcp_connection \<times> bytes \<Rightarrow> tc_op \<Rightarrow> tcp_connection \<times> bytes" where
  "tc_exec (c, S) TConnect = (connect c, S)"
| "tc_exec (c, S) (TWrite d) = (fst (tc_write c d), S @ take (unat (snd (tc_write c d))) d)"
| "tc_exec (c, S) TEnd = (end_input_stream c, S)"
| "tc_exec (c, S) (TSegment seg) = (segment_received c seg, S)"
| "tc_exec (c, S) (TTick ms) = (tc_tick c ms, S)"
| "tc_exec (c, S) (TRead n) = (fst (tc_read c n), S)"
| "tc_exec (c, S) TTake = (fst (tc_take_segments c), S)"
| "tc_exec (c, S) TDestroy = (destroy c, S)"

fun tc_fair :: "tcp_connection \<times> bytes \<Rightarrow> tc_op \<Rightarrow> bool" where
  "tc_fair (c, S) (TWrite d) =
     (\<not> is_input_ended (sd_stream (sender c)) \<and> length S + length d < two64 - 2)"
| "tc_fair (c, S) (TSegment seg) = (active c \<and> \<not> rst (seg_header seg) \<longrightarrow> tc_seg_fair c seg)"
| "tc_fair (c, S) _ = True"

interpretation tcm: guarded_machine tc_exec tc_fair tc_inv
proof
  fix st x
  assume i: "tc_inv st" and f: "tc_fair st x"
  obtain c S where st: "st = (c, S)" by fastforce
  have "tc_inv (fst (tc_read c n), S)" "tc_inv (fst (tc_take_segments c), S)" for n
    using i by (auto simp: st tc_inv_def tc_read_def tc_take_segments_def split_beta)
  with i f show "tc_inv (tc_exec st x)"
    by (cases x) (auto simp: st intro: tc_inv_connect tc_inv_write tc_inv_end tc_inv_segment
        tc_inv_tick tc_inv_destroy)
qed

lemma tc_inv_new: "tc_inv (new_tcp_connection c rnd, [])"
  using sd_inv_new [of "send_capacity c" "rt_timeout c" "fixed_isn c" rnd]
  by (simp add: tc_inv_def new_tcp_connection_def) (simp add: new_tcp_sender_def)

section \<open>Replies\<close>

lemma rc_isn_kept: "rc_isn r = Some i \<Longrightarrow> rc_isn (rc_segment_received r seg) = Some i"
  by (simp add: rc_segment_received_def Let_def)

lemma rc_ackno_Some_iff: "rc_ackno r \<noteq> None \<longleftrightarrow> rc_isn r \<noteq> None"
  by (simp add: rc_ackno_def Let_def split: option.split)

lemma sr_fin_frame [simp]: "sender (sr_fin c seg) = sender c" "receiver (sr_fin c seg) = receiver c"
  "segments_out (sr_fin c seg) = segments_out c"
  by (simp_all add: sr_fin_def)

lemma sr_reply_frame [simp]: "receiver (sr_reply c seg) = receiver c" "segments_out (sr_reply c seg) = segments_out c"
  by (simp_all add: sr_reply_def Let_def split: option.split)

lemma sr_delivered_frame [simp]:
  "receiver (sr_delivered c seg) = rc_segment_received (receiver c) seg" "segments_out (sr_delivered c seg) = segments_out c"
  by (simp_all add: sr_delivered_def Let_def)

lemma sr_reply_nonempty: "0 < length_in_sequence_space seg \<Longrightarrow> sd_segments_out (sender (sr_reply c seg)) \<noteq> []"
  by (auto simp: sr_reply_def Let_def send_empty_segment_def split: option.split)

section \<open>Giving up\<close>




lemma send_rst_gives_up:
  "\<not> active (send_rst c)" "rst (seg_header (last (segments_out (send_rst c))))"
  "bs_error (sd_stream (sender (send_rst c)))" "bs_error (rc_stream_out (receiver (send_rst c)))"
  by (simp_all add: send_rst_eq set_errors_def sd_set_error_def rc_set_error_def bs_error_def bs_set_error_def
      rc_stream_out_def)




section \<open>Properties\<close>

text \<open>
  C5. In every fair run of a connection, whatever is written, received, read and whenever the clock
  ticks: each queued segment is a piece of the stream \<open>S\<close> written so far or occupies no sequence
  numbers, the sender's queue has been flushed, and \<open>_is_fin_acked\<close> holds only if the FIN has been
  sent and the peer has acknowledged all of \<open>S\<close> and the FIN.
\<close>

theorem connection_invariant:
  assumes "guarded tc_exec tc_fair (new_tcp_connection cf rnd, []) ops"
  shows "case foldl tc_exec (new_tcp_connection cf rnd, []) ops of (c, S) \<Rightarrow>
    sd_segments_out (sender c) = [] \<and>
    (\<forall>x \<in> set (segments_out c). seg_inert x \<or> (\<exists>a. seg_genuine S (sd_isn (sender c)) a x)) \<and>
    (is_fin_acked c \<longrightarrow> is_fin_sent c \<and> unat (previous_ackno (sender c)) = length S + 2)"
proof -
  obtain c S where r: "foldl tc_exec (new_tcp_connection cf rnd, []) ops = (c, S)" by fastforce
  have inv: "tc_inv (c, S)" using tcm.run_inv [OF tc_inv_new assms] by (simp add: r)
  then have sd: "sd_inv (sender c, S)" by (simp add: tc_inv_def)
  note st = sd_stream_okD [OF sd_invD(1) [OF sd]]
  have "nxt (sender c) = length S + 2" if "sd_is_fin_sent (sender c)"
    using that st(1,3,4,5,6) by (auto simp: bs_eof_def bs_eof_exact_def)
  with inv show ?thesis by (auto simp: r tc_inv_def sd_seg_ok_def)
qed

abbreviation example_connection :: tcp_connection where
  "example_connection \<equiv> new_tcp_connection
     \<lparr>rt_timeout = 1000, recv_capacity = 8, send_capacity = 8, fixed_isn = Some (WrappingInt32 10)\<rparr> 0"

abbreviation syn_ack_segment :: tcp_segment where
  "syn_ack_segment \<equiv> \<lparr>seg_header = new_tcp_header\<lparr>seqno := WrappingInt32 70, syn := True, ack := True,
     ackno := WrappingInt32 11, win := 4\<rparr>, seg_payload = []\<rparr>"

theorem connection_invariant_witness:
  "case foldl tc_exec (example_connection, []) [TConnect, TSegment syn_ack_segment, TWrite [5]] of (c, S) \<Rightarrow>
    sd_segments_out (sender c) = [] \<and>
    (\<forall>x \<in> set (segments_out c). seg_inert x \<or> (\<exists>a. seg_genuine S (sd_isn (sender c)) a x)) \<and>
    (is_fin_acked c \<longrightarrow> is_fin_sent c \<and> unat (previous_ackno (sender c)) = length S + 2)"
proof (rule connection_invariant)
  have "tc_seg_fair (connect example_connection) syn_ack_segment"
    "\<not> is_input_ended (sd_stream (sender (segment_received (connect example_connection) syn_ack_segment)))"
    by code_simp+
  then show "guarded tc_exec tc_fair (example_connection, []) [TConnect, TSegment syn_ack_segment, TWrite [5]]"
    by simp
qed

text \<open>
  C14. An active connection answers every segment that occupies sequence numbers and is not a RST:
  at least one segment is queued, and all that are carry the receiver's acknowledgment number after
  this segment and its window, cut at 65535.
\<close>

theorem segment_answered:
  assumes "active c" "\<not> rst (seg_header seg)" "0 < length_in_sequence_space seg"
    and "rc_ackno (rc_segment_received (receiver c) seg) = Some a"
  shows "\<exists>new. segments_out (segment_received c seg) = segments_out c @ new \<and> new \<noteq> [] \<and>
    (\<forall>x \<in> set new. ack (seg_header x) \<and> ackno (seg_header x) = a \<and>
       unat (win (seg_header x)) = min (unat (rc_window_size (receiver (segment_received c seg)))) 65535)"
proof -
  let ?d = "sr_reply (sr_fin (sr_delivered (c\<lparr>time_since_last_segment_received := 0\<rparr>) seg) seg) seg"
  have e: "segment_received c seg = flush_sender ?d" using assms(1,2) by (simp add: segment_received_def Let_def)
  show ?thesis
    unfolding e flush_sender_eq using sr_reply_nonempty [OF assms(3)] stamp_ack assms(4) by auto
qed

theorem segment_answered_witness:
  "\<exists>new. segments_out (segment_received (connect example_connection) syn_ack_segment) =
      segments_out (connect example_connection) @ new \<and> new \<noteq> [] \<and>
    (\<forall>x \<in> set new. ack (seg_header x) \<and> ackno (seg_header x) = WrappingInt32 71 \<and>
       unat (win (seg_header x)) =
         min (unat (rc_window_size (receiver (segment_received (connect example_connection) syn_ack_segment)))) 65535)"
proof (rule segment_answered)
  show "active (connect example_connection)" by code_simp
  show "\<not> rst (seg_header syn_ack_segment)" by code_simp
  show "0 < length_in_sequence_space syn_ack_segment" by code_simp
  show "rc_ackno (rc_segment_received (receiver (connect example_connection)) syn_ack_segment) = Some (WrappingInt32 71)"
    by code_simp
qed

text \<open>
  A RST that belongs to the connection: at the next sequence number expected from the peer or, while
  only the own SYN has been sent, with an acknowledgment of that SYN.
\<close>

definition rst_acceptable :: "tcp_connection \<Rightarrow> tcp_header \<Rightarrow> bool" where
  "rst_acceptable c h \<longleftrightarrow>
     (case rc_ackno (receiver c) of
        Some next_expected \<Rightarrow> seqno h = next_expected
      | None \<Rightarrow> next_seqno_abs (sender c) \<noteq> 0 \<and> ack h \<and> ackno h = sd_next_seqno (sender c))"

lemma rst_kills:
  "active c \<Longrightarrow> rst (seg_header seg) \<Longrightarrow>
   segment_received c seg = set_errors (c\<lparr>time_since_last_segment_received := 0, active := False\<rparr>)"
  by (simp add: segment_received_def Let_def)

lemma dead_ignores:
  "\<not> active c \<Longrightarrow> \<forall>seg \<in> set segs. \<not> syn (seg_header seg) \<Longrightarrow>
   foldl segment_received c segs = (if segs = [] then c else c\<lparr>time_since_last_segment_received := 0\<rparr>)"
  by (induction segs arbitrary: c) (simp_all add: segment_received_def Let_def)

text \<open>
  C16. A RST that belongs to the connection (at the next expected sequence number or, in SYN_SENT,
  with an acknowledgment of the SYN) kills an active connection for good: it is no longer active,
  \<open>state()\<close> is the official state RESET, nothing is sent in reply, and no later segments without a
  SYN change that.
\<close>

theorem rst_resets:
  assumes "active c" "rst (seg_header seg)" "rst_acceptable c (seg_header seg)"
    and "\<forall>seg' \<in> set later. \<not> syn (seg_header seg')"
  shows "let c' = foldl segment_received c (seg # later)
    in \<not> active c' \<and> tc_state c' = official_tcp_state RESET \<and> segments_out c' = segments_out c"
proof -
  let ?d = "set_errors (c\<lparr>time_since_last_segment_received := 0, active := False\<rparr>)"
  have "\<not> active ?d" by (simp add: set_errors_def)
  from dead_ignores [OF this assms(4)] have "foldl segment_received c (seg # later) = ?d"
    using rst_kills [OF assms(1,2)] by (auto simp: set_errors_def)
  then show ?thesis unfolding Let_def
    by (simp only:) (simp add: set_errors_def tc_state_def tcp_state_of_def state_summary_sender_def
        state_summary_receiver_def sd_set_error_def rc_set_error_def bs_set_error_def bs_error_def rc_stream_out_def)
qed

abbreviation syn_refused :: tcp_segment where
  "syn_refused \<equiv> \<lparr>seg_header = new_tcp_header\<lparr>rst := True, ack := True, ackno := sd_next_seqno (sender (connect example_connection))\<rparr>,
     seg_payload = []\<rparr>"

theorem rst_resets_witness:
  "let c = connect example_connection; c' = foldl segment_received c [syn_refused, syn_refused]
   in \<not> active c' \<and> tc_state c' = official_tcp_state RESET \<and> segments_out c' = segments_out c"
proof -
  have "active (connect example_connection)" "rst_acceptable (connect example_connection) (seg_header syn_refused)"
    by code_simp+
  from rst_resets [OF this(1) _ this(2), of "[syn_refused]"] show ?thesis
    unfolding Let_def by (simp add: new_tcp_header_def)
qed

text \<open>
  Other RSTs are obeyed too: one that reaches a listening connection, and one without an
  acknowledgment in SYN_SENT.
\<close>

lemma any_rst_obeyed:
  "let r = \<lparr>seg_header = new_tcp_header\<lparr>rst := True\<rparr>, seg_payload = []\<rparr> in
   \<not> rst_acceptable example_connection (seg_header r) \<and>
   tc_state (segment_received example_connection r) = official_tcp_state RESET \<and>
   \<not> rst_acceptable (connect example_connection) (seg_header r) \<and>
   tc_state (segment_received (connect example_connection) r) = official_tcp_state RESET"
  by code_simp



text \<open>
  A tick ends an active connection in exactly two cases: more than eight retransmissions in a
  row, or both streams finished (the inbound one has ended and our FIN is acknowledged) and either
  there is no need to linger or ten timeouts have passed since the last segment.
\<close>

theorem tick_ends_connection:
  assumes "active c"
  shows "active (tc_tick c ms) \<longleftrightarrow>
    \<not> 8 < consecutive_retransmissions (sd_tick (sender c) ms) \<and>
    \<not> (bs_input_ended (rc_stream_out (receiver c)) \<and> is_fin_acked c \<and>
       (linger_after_streams_finish c \<longrightarrow>
          10 * ucast (rt_timeout (cfg c)) \<le> time_since_last_segment_received c + ms))"
  using assms by (auto simp: tc_tick_def Let_def flush_sender_eq send_rst_gives_up MAX_RETX_ATTEMPTS_def)

theorem tick_ends_connection_witness:
  "active (tc_tick (connect example_connection) 5) \<longleftrightarrow>
    \<not> 8 < consecutive_retransmissions (sd_tick (sender (connect example_connection)) 5) \<and>
    \<not> (bs_input_ended (rc_stream_out (receiver (connect example_connection))) \<and> is_fin_acked (connect example_connection) \<and>
       (linger_after_streams_finish (connect example_connection) \<longrightarrow>
          10 * ucast (rt_timeout (cfg (connect example_connection)))
            \<le> time_since_last_segment_received (connect example_connection) + 5))"
proof (rule tick_ends_connection)
  show "active (connect example_connection)" by code_simp
qed

text \<open>
  What the code does beyond its contract.  The timer runs from the start, so a connection that only
  listens counts retransmissions of nothing and resets itself; a dead connection is revived by any
  SYN; and the FIN counts as acknowledged when the acknowledgment field of a segment without the ACK
  flag happens to hold the next sequence number.
\<close>

lemma idle_listener_resets:
  "let c = foldl tc_tick example_connection [1000, 2000, 4000, 8000, 16000, 32000, 64000, 128000, 256000]
   in tc_state example_connection = official_tcp_state LISTEN \<and> \<not> active c \<and> map (rst \<circ> seg_header) (segments_out c) = [True]"
  by code_simp

lemma syn_revives_reset_connection:
  "let c = segment_received (connect example_connection) (syn_ack_segment\<lparr>seg_header := new_tcp_header\<lparr>rst := True\<rparr>\<rparr>)
   in \<not> active c \<and> active (segment_received c syn_ack_segment)"
  by code_simp

lemma fin_acked_without_ack:
  "let c = end_input_stream (segment_received (connect example_connection) syn_ack_segment);
       d = segment_received c \<lparr>seg_header = new_tcp_header\<lparr>seqno := WrappingInt32 71, ackno := WrappingInt32 12\<rparr>, seg_payload = []\<rparr>
   in is_fin_acked d \<and> tc_bytes_in_flight d = 1"
  by code_simp

end
