(* ===== verification/Connection_Streams.thy ===== *)
theory Connection_Streams
  imports TCP_Connection
begin

text \<open>
  What holds of a \<open>TCPConnection\<close> without any assumption on the peer: both byte streams stay well
  formed (counters and buffers agree, capacities are respected) whatever segments arrive, in and
  out of the window, genuine or not.
\<close>

section \<open>The outbound stream\<close>

lemma bs_wf_set_error: "bs_wf (bs_set_error s) \<longleftrightarrow> bs_wf s"
  by (simp add: bs_wf_def bs_set_error_def)

lemma bs_wf_end_input: "bs_wf s \<Longrightarrow> bs_wf (bs_end_input s)"
  using bs_wf_control [of s EndInput] by simp

lemma sd_emit_stream [simp]: "sd_stream (sd_emit s seg) = sd_stream s"
  by (simp add: sd_emit_def Let_def)

lemma fill_body_stream: "bs_wf (sd_stream s) \<Longrightarrow> bs_wf (sd_stream (fst (fill_body w a s)))"
  by (auto simp: fill_body_def Let_def bs_read_def bs_wf_pop split: prod.splits)

lemma fill_loop_stream: "bs_wf (sd_stream s) \<Longrightarrow> bs_wf (sd_stream (fill_loop w a s))"
proof (induction w a s rule: fill_loop.induct)
  case (1 w a s)
  obtain t b where f: "fill_body w a s = (t, b)" by (cases "fill_body w a s")
  have "bs_wf (sd_stream t)" using fill_body_stream [OF 1(2), of w a] f by simp
  then show ?case using 1 f by (subst fill_loop.simps) (auto split: bool.splits)
qed

lemma fill_window_stream: "bs_wf (sd_stream s) \<Longrightarrow> bs_wf (sd_stream (fill_window s))"
  by (auto simp: fill_window_def Let_def fill_loop_stream)

lemma ack_received_stream: "bs_wf (sd_stream s) \<Longrightarrow> bs_wf (sd_stream (ack_received s a w))"
  by (auto simp: ack_received_def Let_def fill_window_stream split: prod.splits)

lemma sd_tick_stream [simp]: "sd_stream (sd_tick s ms) = sd_stream s"
  by (auto simp: sd_tick_def Let_def split: prod.splits list.splits)

lemma send_empty_segment_stream [simp]: "sd_stream (send_empty_segment s) = sd_stream s"
  by (simp add: send_empty_segment_def Let_def)

lemma flush_sender_stream [simp]:
  "sd_stream (sender (flush_sender c)) = sd_stream (sender c)" "receiver (flush_sender c) = receiver c"
proof -
  have "sd_stream (sender (flush_loop segs c)) = sd_stream (sender c) \<and> receiver (flush_loop segs c) = receiver c" for segs
    by (induction segs arbitrary: c) (simp_all add: Let_def)
  then show "sd_stream (sender (flush_sender c)) = sd_stream (sender c)" "receiver (flush_sender c) = receiver c"
    by (simp_all add: flush_sender_def)
qed

section \<open>The inbound stream\<close>

definition ra_safe :: "stream_reassembler \<Rightarrow> bool" where
  "ra_safe s \<longleftrightarrow> bs_wf (ra_output s) \<and> length (occupied s) < two64"

lemma store_loop_safe: "ra_safe s \<Longrightarrow> ra_safe (store_loop d x b i s)"
proof (induction d x b i s rule: store_loop.induct)
  case (1 d x b i s)
  have "ra_safe (store_byte d x i s)" using 1(2) by (simp add: ra_safe_def store_byte_def Let_def)
  then show ?case using 1 by (subst store_loop.simps) simp
qed

lemma collect_loop_safe:
  "collect_loop s acc n = (s', w, m) \<Longrightarrow>
   ra_output s' = ra_output s \<and> length (occupied s') = length (occupied s) \<and>
   length w \<le> length acc + length (filter id (occupied s))"
proof (induction s acc n arbitrary: s' w m rule: collect_loop.induct)
  case (1 s acc n)
  let ?b = "unat ((n + seperator s) mod ra_capacity s)"
  show ?case
  proof (cases "?b < length (occupied s) \<and> occupied s ! ?b")
    case True
    then have "Suc (length (filter id ((occupied s)[?b := False]))) = length (filter id (occupied s))"
      using length_filter_id_update [of ?b "occupied s" False] by simp
    moreover have "collect_loop (s\<lparr>unassembled_buffer := (unassembled_buffer s)[?b := 32], occupied := (occupied s)[?b := False],
        unassembled_bytes := unassembled_bytes s - 1\<rparr>) (acc @ [unassembled_buffer s ! ?b]) (n + 1) = (s', w, m)"
      using 1(2) True by (subst (asm) collect_loop.simps) (simp add: Let_def)
    note 1(1) [OF refl True this]
    ultimately show ?thesis by (auto simp: id_def)
  next
    case False
    then show ?thesis using 1(2) by (subst (asm) collect_loop.simps) (auto simp: Let_def)
  qed
qed

lemma push_substring_safe:
  assumes "ra_safe s"
  shows "ra_safe (push_substring s d i e)"
proof -
  define s2 where "s2 = (fst (store_data s d i))\<lparr>is_eof_data_received :=
    is_eof_data_received (fst (store_data s d i)) \<or> e \<and> snd (store_data s d i) = str_size d\<rparr>"
  have s2: "ra_safe s2" using store_loop_safe [OF assms] by (simp add: s2_def store_data_def Let_def ra_safe_def)
  obtain s' w m where c: "collect_loop s2 [] 0 = (s', w, m)" by (metis prod_cases3)
  have "length w \<le> length (filter id (occupied s2))" using collect_loop_safe [OF c] by simp
  also have "\<dots> \<le> length (occupied s2)" by (rule length_filter_le)
  also have "\<dots> < two64" using s2 by (simp add: ra_safe_def)
  finally have "length w < two64" .
  then have "ra_safe (write_to_output s2)"
    using collect_loop_safe [OF c] s2 by (simp add: write_to_output_def c ra_safe_def bs_wf_write)
  then show ?thesis
    by (auto simp: push_substring_def Let_def split_beta s2_def [symmetric] ra_safe_def bs_wf_end_input)
qed

lemma ra_safe_new: "ra_safe (new_stream_reassembler c)"
  using unat_u64_less [of c] by (simp add: ra_safe_def new_stream_reassembler_def)

lemma rc_segment_received_safe:
  "ra_safe (rc_reassembler r) \<Longrightarrow> ra_safe (rc_reassembler (rc_segment_received r seg))"
  by (auto simp: rc_segment_received_def Let_def push_substring_safe split: option.splits)

lemma rc_set_error_safe: "ra_safe (rc_reassembler (rc_set_error r)) \<longleftrightarrow> ra_safe (rc_reassembler r)"
  by (simp add: rc_set_error_def ra_safe_def bs_wf_set_error)

lemma rc_read_out_safe: "ra_safe (rc_reassembler r) \<Longrightarrow> ra_safe (rc_reassembler (fst (rc_read_out r n)))"
  by (simp add: rc_read_out_def ra_read_out_def ra_safe_def bs_read_def bs_wf_pop split_beta)

section \<open>The connection\<close>

definition tc_safe :: "tcp_connection \<Rightarrow> bool" where
  "tc_safe c \<longleftrightarrow> bs_wf (sd_stream (sender c)) \<and> ra_safe (rc_reassembler (receiver c))"

lemma tc_safe_new: "tc_safe (new_tcp_connection cf rnd)"
  by (simp add: tc_safe_def new_tcp_connection_def new_tcp_sender_def new_tcp_receiver_def ra_safe_new)

lemma tc_safe_send_rst: "tc_safe c \<Longrightarrow> tc_safe (send_rst c)"
  by (simp add: tc_safe_def send_rst_def set_errors_def sd_set_error_def Let_def bs_wf_set_error rc_set_error_safe)

lemma tc_safe_segment_received:
  assumes "tc_safe c"
  shows "tc_safe (segment_received c seg)"
proof -
  have "tc_safe (sr_delivered (c\<lparr>time_since_last_segment_received := 0\<rparr>) seg)"
    using assms by (simp add: tc_safe_def sr_delivered_def Let_def rc_segment_received_safe ack_received_stream fill_window_stream)
  then have "tc_safe (sr_reply (sr_fin (sr_delivered (c\<lparr>time_since_last_segment_received := 0\<rparr>) seg) seg) seg)"
    by (simp add: tc_safe_def) (auto simp: sr_reply_def Let_def split: option.splits)
  then show ?thesis using assms
    by (auto simp: segment_received_def Let_def tc_safe_def set_errors_def sd_set_error_def bs_wf_set_error
        rc_set_error_safe rc_segment_received_safe)
qed

fun tc_sized :: "tc_op \<Rightarrow> bool" where
  "tc_sized (TWrite d) = (length d < two64)"
| "tc_sized _ = True"

lemma tc_safe_exec:
  assumes "tc_safe c" "tc_sized x"
  shows "tc_safe (fst (tc_exec (c, S) x))"
proof (cases x)
  case (TWrite d)
  then show ?thesis using assms
    by (simp add: tc_write_def sd_write_stream_def split_beta tc_safe_def fill_window_stream bs_wf_write)
next
  case (TTick ms)
  let ?c1 = "c\<lparr>time_since_last_segment_received := time_since_last_segment_received c + ms, sender := sd_tick (sender c) ms\<rparr>"
  have "tc_safe ?c1" using assms(1) by (simp add: tc_safe_def)
  then have "tc_safe (send_rst ?c1)" "tc_safe (flush_sender ?c1)" "tc_safe (flush_sender (?c1\<lparr>active := False\<rparr>))"
    by (simp_all add: tc_safe_send_rst) (simp_all add: tc_safe_def)
  then show ?thesis by (simp add: TTick tc_tick_def Let_def)
qed (use assms tc_safe_send_rst [of c] tc_safe_segment_received [of c] in
  \<open>simp_all add: connect_def end_input_stream_def sd_end_stream_def destroy_def tc_read_def tc_take_segments_def
     tc_safe_def fill_window_stream bs_wf_end_input rc_read_out_safe split_beta Let_def\<close>)

section \<open>Properties\<close>

text \<open>
  Both byte streams of a connection are well formed after any sequence of operations, with no
  assumption on the segments that arrive: the counters of each stream differ by the bytes it holds,
  and each holds at most its capacity.
\<close>

theorem streams_stay_well_formed:
  assumes "\<forall>x \<in> set ops. tc_sized x"
  shows "let c = fst (foldl tc_exec (new_tcp_connection cf rnd, []) ops)
    in bs_wf (sd_stream (sender c)) \<and> bs_wf (rc_stream_out (receiver c))"
proof -
  have "tc_safe (fst (foldl tc_exec st ops))" if "tc_safe (fst st)" for st
    using that assms
  proof (induction ops arbitrary: st)
    case (Cons x xs)
    then show ?case using tc_safe_exec [of "fst st" x "snd st"] by simp
  qed simp
  from this [of "(new_tcp_connection cf rnd, [])"] show ?thesis
    by (auto simp: tc_safe_new tc_safe_def [of "fst _"] ra_safe_def rc_stream_out_def Let_def)
qed

text \<open>A reset with data far outside the window does not harm the streams.\<close>

abbreviation stray_segment :: tcp_segment where
  "stray_segment \<equiv> \<lparr>seg_header = new_tcp_header\<lparr>seqno := WrappingInt32 99, ack := True, ackno := WrappingInt32 77\<rparr>, seg_payload = [1, 2, 3]\<rparr>"

theorem streams_stay_well_formed_witness:
  "let c = fst (foldl tc_exec (new_tcp_connection \<lparr>rt_timeout = 1000, recv_capacity = 8, send_capacity = 8, fixed_isn = Some (WrappingInt32 10)\<rparr> 0, [])
      [TConnect, TSegment stray_segment, TWrite [1, 2]])
    in bs_wf (sd_stream (sender c)) \<and> bs_wf (rc_stream_out (receiver c))"
  by (rule streams_stay_well_formed) simp

end
