(* ===== verification/End_To_End.thy ===== *)
theory End_To_End
  imports TCP_Connection
begin

text \<open>
  Two connections and the network between them.  Everything an endpoint has ever sent stays
  available to the network, which may deliver it to the other endpoint in any order, any number of
  times or never.  The system is a step relation; its reachable states are those of the reflexive
  transitive closure.
\<close>

section \<open>The system\<close>

record endpoint =
  ep_conn :: tcp_connection
  ep_written :: bytes
  ep_read :: bytes
  ep_sent :: "tcp_segment set"

definition new_endpoint :: "tcp_config \<Rightarrow> u32 \<Rightarrow> endpoint" where
  "new_endpoint cf rnd = \<lparr>ep_conn = new_tcp_connection cf rnd, ep_written = [], ep_read = [], ep_sent = {}\<rparr>"

text \<open>The segment starts inside the window of the receiver, as the receiver itself numbers it.\<close>

definition starts_in_window :: "tcp_receiver \<Rightarrow> tcp_segment \<Rightarrow> bool" where
  "starts_in_window r seg \<longleftrightarrow>
     (case rc_isn r of
        None \<Rightarrow> True
      | Some isn \<Rightarrow> unat (unwrap (seqno (seg_header seg)) isn (bs_bytes_written (rc_stream_out r) + 1)) \<le>
          window_end (rc_reassembler r) + 1)"

fun tc_local :: "tc_op \<Rightarrow> bool" where
  "tc_local (TSegment seg) = False"
| "tc_local (TRead n) = False"
| "tc_local TTake = False"
| "tc_local x = True"

inductive ep_step :: "tcp_segment set \<Rightarrow> endpoint \<Rightarrow> endpoint \<Rightarrow> bool" where
  call: "tc_local x \<Longrightarrow> tc_fair (ep_conn e, ep_written e) x \<Longrightarrow> tc_exec (ep_conn e, ep_written e) x = (c, S) \<Longrightarrow>
    length S < 2147483646 \<Longrightarrow> ep_step N e (e\<lparr>ep_conn := c, ep_written := S\<rparr>)"
| receive: "seg \<in> N \<Longrightarrow> starts_in_window (receiver (ep_conn e)) seg \<Longrightarrow> tc_fair (ep_conn e, ep_written e) (TSegment seg) \<Longrightarrow>
    ep_step N e (e\<lparr>ep_conn := segment_received (ep_conn e) seg\<rparr>)"
| read: "tc_read (ep_conn e) n = (c, got) \<Longrightarrow> ep_step N e (e\<lparr>ep_conn := c, ep_read := ep_read e @ got\<rparr>)"
| send: "segments_out (ep_conn e) = seg # segs \<Longrightarrow>
    ep_step N e (e\<lparr>ep_conn := (ep_conn e)\<lparr>segments_out := segs\<rparr>, ep_sent := insert seg (ep_sent e)\<rparr>)"

inductive net_step :: "endpoint \<times> endpoint \<Rightarrow> endpoint \<times> endpoint \<Rightarrow> bool" where
  left: "ep_step (ep_sent b) a a' \<Longrightarrow> net_step (a, b) (a', b)"
| right: "ep_step (ep_sent a) b b' \<Longrightarrow> net_step (a, b) (a, b')"

inductive_cases ep_stepE: "ep_step N e e'"
inductive_cases net_stepE: "net_step (a, b) ab"

section \<open>What a step does to the sending side\<close>

text \<open>The sender keeps its initial sequence number, moves forward, and does not forget its FIN.\<close>

definition sd_ext :: "tcp_sender \<Rightarrow> tcp_sender \<Rightarrow> bool" where
  "sd_ext s t \<longleftrightarrow> sd_isn t = sd_isn s \<and> unat (next_seqno_abs s) \<le> unat (next_seqno_abs t) \<and>
     (sd_is_fin_sent s \<longrightarrow> sd_is_fin_sent t)"

lemma sd_ext_refl: "sd_ext s s"
  by (simp add: sd_ext_def)

lemma sd_ext_trans: "sd_ext s t \<Longrightarrow> sd_ext t u \<Longrightarrow> sd_ext s u"
  by (auto simp: sd_ext_def)

lemma sd_ext_step: "sd_step_ok s t \<Longrightarrow> sd_ext s t"
  by (simp add: sd_ext_def sd_step_ok_def)

lemma sd_ext_frame [simp]:
  "sd_ext s (t\<lparr>sd_segments_out := x\<rparr>) = sd_ext s t" "sd_ext (s\<lparr>sd_stream := y\<rparr>) t = sd_ext s t"
  "sd_ext s (t\<lparr>sd_stream := y\<rparr>) = sd_ext s t"
  by (simp_all add: sd_ext_def)

lemma sd_ext_misc [simp]:
  "sd_ext s (send_empty_segment t) = sd_ext s t" "sd_ext s (sd_set_error t) = sd_ext s t"
  "sd_ext s (sd_tick t ms) = sd_ext s t"
  by (simp_all add: sd_ext_def send_empty_segment_def sd_set_error_def sd_tick_def Let_def split_beta split: list.split)

lemma sd_ext_fill: "sd_inv (t, S) \<Longrightarrow> sd_ext s t \<Longrightarrow> sd_ext s (fill_window t)"
  using sd_ext_step [OF sd_step_fill(1)] sd_ext_trans by blast

lemma sender_flush [simp]: "sender (flush_sender c) = (sender c)\<lparr>sd_segments_out := []\<rparr>"
  by (simp add: flush_sender_eq)

lemma sender_send_rst [simp]: "sd_ext s (sender (send_rst c)) = sd_ext s (sender c)"
  by (simp add: send_rst_eq)

lemma sd_ext_delivered:
  assumes "sd_inv (sender c, S)" "tc_seg_fair c seg"
  shows "sd_ext (sender c) (sender (sr_delivered c seg))"
proof -
  let ?h = "seg_header seg"
  let ?s = "if ack ?h then ack_received (sender c) (ackno ?h) (win ?h) else sender c"
  have "sd_inv (?s, S)" "sd_ext (sender c) ?s"
    using assms sd_inv_ack [OF assms(1)] sd_ext_step [OF sd_step_ack(1) [OF assms(1)]]
    by (auto simp: tc_seg_fair_def sd_ext_refl)
  then show ?thesis
    using sd_ext_fill [of ?s S "sender c"] by (auto simp: sr_delivered_def Let_def)
qed

lemma sd_ext_reply [simp]: "sd_ext s (sender (sr_reply c seg)) = sd_ext s (sender c)"
  by (simp add: sr_reply_def Let_def split: option.split)

lemma sd_ext_segment:
  assumes "tc_inv (c, S)" "tc_fair (c, S) (TSegment seg)"
  shows "sd_ext (sender c) (sender (segment_received c seg))"
proof (cases "active c \<and> \<not> rst (seg_header seg)")
  case True
  let ?c = "c\<lparr>time_since_last_segment_received := 0\<rparr>"
  have "sd_inv (sender ?c, S)" "tc_seg_fair ?c seg"
    using assms True by (auto simp: tc_inv_def tc_seg_fair_def)
  from sd_ext_delivered [OF this] True show ?thesis by (simp add: segment_received_def Let_def)
next
  case False
  then show ?thesis by (auto simp: segment_received_def Let_def set_errors_def sd_ext_refl)
qed

lemma sd_ext_exec:
  assumes i: "tc_inv (c, S)" and f: "tc_fair (c, S) x" and x: "tc_exec (c, S) x = (c', S')"
  shows "sd_ext (sender c) (sender c')"
proof -
  have inv: "sd_inv (sender c, S)" using i by (simp add: tc_inv_def)
  have w: "sd_ext (sender c) (sender (fst (tc_write c d)))" if "x = TWrite d" for d
  proof -
    have "sd_inv (fst (sd_write_stream (sender c) d), S @ take (unat (snd (sd_write_stream (sender c) d))) d)"
      using f that by (intro sd_inv_write [OF inv]) auto
    moreover have "sd_ext (sender c) (fst (sd_write_stream (sender c) d))"
      by (simp add: sd_write_stream_def split_beta sd_ext_refl)
    ultimately show ?thesis using sd_ext_fill by (simp add: tc_write_def split_beta Let_def)
  qed
  have e: "sd_ext (sender c) (fill_window (sd_end_stream (sender c)))"
    by (rule sd_ext_fill [OF sd_inv_end [OF inv]]) (simp add: sd_end_stream_def sd_ext_refl)
  have t: "sd_ext (sender c) (sender (tc_tick c ms))" for ms
    by (simp add: tc_tick_def Let_def sd_ext_refl)
  show ?thesis
    using x w e t sd_ext_segment [OF i] f sd_ext_fill [OF inv sd_ext_refl]
    by (cases x) (auto simp: connect_def end_input_stream_def destroy_def tc_read_def tc_take_segments_def
        Let_def split_beta sd_ext_refl)
qed

text \<open>Segments sent before stay genuine when the stream grows.\<close>

lemma sd_seg_ok_exec:
  assumes i: "tc_inv (c, S)" and f: "tc_fair (c, S) x" and x: "tc_exec (c, S) x = (c', S')"
    and ok: "sd_seg_ok S (sender c) seg"
  shows "sd_seg_ok S' (sender c') seg"
proof -
  have inv: "sd_inv (sender c, S)" using i by (simp add: tc_inv_def)
  obtain T where T: "S' = S @ T" using x by (cases x) auto
  have "sd_seg_ok S' (sender c) seg"
  proof (cases "T = [] \<or> \<not> fin (seg_header seg)")
    case True
    then show ?thesis using ok seg_genuine_append unfolding sd_seg_ok_def T by (auto simp: seg_inert_def)
  next
    case False
    then obtain d where d: "x = TWrite d" using x T by (cases x) auto
    have "sd_is_fin_sent (sender c) \<Longrightarrow> is_input_ended (sd_stream (sender c))"
      using sd_stream_okD(1,5) [OF sd_invD(1) [OF inv]] by (auto simp: bs_eof_def bs_eof_exact_def)
    then have "\<not> sd_is_fin_sent (sender c)" using f d by auto
    then show ?thesis using ok False by (auto simp: sd_seg_ok_def seg_inert_def)
  qed
  then show ?thesis
    using sd_ext_exec [OF i f x] by (elim sd_seg_ok_mono) (simp_all add: sd_ext_def)
qed

section \<open>What a step does to the receiving side\<close>

lemma ra_pending_output [simp]: "ra_pending (s\<lparr>ra_output := out\<rparr>) = ra_pending s"
  by (simp add: fun_eq_iff ra_pending_def slot_val_def slot_def)

lemma ra_tracks_error: "ra_tracks S (s, got) \<Longrightarrow> ra_tracks S (s\<lparr>ra_output := bs_set_error (ra_output s)\<rparr>, got)"
  by (auto simp: ra_tracks_def ra_wf_def ra_fit_def ra_shape_def bs_set_error_def window_end_def bs_wf_def bs_room_def)

lemma rc_tracks_error: "rc_tracks S isn (r, got) \<Longrightarrow> rc_tracks S isn (rc_set_error r, got)"
  using ra_tracks_error by (simp add: rc_tracks_def rc_set_error_def)

lemma ra_tracks_grow:
  assumes "ra_tracks S (s, got)" "length (S @ T) < 2147483646"
  shows "ra_tracks (S @ T) (s, got)"
proof -
  have "cap_of s \<le> 9223372036854775808" using assms(1) by (simp add: ra_tracks_def ra_wf_def ra_fit_def ra_shape_def)
  then show ?thesis using assms by (auto simp: ra_tracks_def nth_append trans_less_add1)
qed

lemma rc_tracks_grow: "rc_tracks S isn (r, got) \<Longrightarrow> length (S @ T) < 2147483646 \<Longrightarrow> rc_tracks (S @ T) isn (r, got)"
  using ra_tracks_grow by (simp add: rc_tracks_def)

lemma rc_tracks_receive:
  assumes tr: "rc_tracks S isn (r, got)" and seg: "sd_seg_ok S s seg" "sd_isn s = isn" and w: "starts_in_window r seg"
  shows "rc_tracks S isn (rc_segment_received r seg, got)"
proof (cases "seg_inert seg")
  case True
  then show ?thesis by (rule rc_tracks_inert [OF tr])
next
  case False
  then obtain a where a: "seg_genuine S isn a seg" using seg by (auto simp: sd_seg_ok_def)
  show ?thesis
  proof (cases "rc_isn r = None \<and> a \<noteq> 0")
    case True
    then show ?thesis using tr rc_segment_received_push [OF tr a] by simp
  next
    case F: False
    have "a < two64" using a tr by (auto simp: seg_genuine_def rc_tracks_def)
    have "a \<le> window_end (rc_reassembler r) + 1"
    proof (cases "rc_isn r")
      case None
      then show ?thesis using F by simp
    next
      case (Some i)
      then have "i = isn" using tr by (simp add: rc_tracks_def)
      then show ?thesis
        using w Some unwrap_genuine [OF tr a] unat_of_nat_u64 [OF \<open>a < two64\<close>] by (simp add: starts_in_window_def)
    qed
    then have "seg_index a \<le> window_end (rc_reassembler r)" by (auto simp: seg_index_def)
    then show ?thesis using rcm.step_inv [OF tr, of "SegIn seg"] a by auto
  qed
qed

lemma receiver_flush [simp]: "receiver (flush_sender c) = receiver c"
  by (simp add: flush_sender_eq)

lemma receiver_segment:
  "receiver (segment_received c seg) \<in> {receiver c, rc_set_error (receiver c), rc_segment_received (receiver c) seg}"
  by (simp add: segment_received_def Let_def set_errors_def)

lemma receiver_local:
  "tc_local x \<Longrightarrow> tc_exec (c, S) x = (c', S') \<Longrightarrow> receiver c' \<in> {receiver c, rc_set_error (receiver c)}"
  by (cases x) (auto simp: connect_def tc_write_def end_input_stream_def tc_tick_def destroy_def send_rst_eq set_errors_def
      Let_def split_beta)

section \<open>The invariant of the system\<close>

definition pair_inv :: "endpoint \<Rightarrow> endpoint \<Rightarrow> bool" where
  "pair_inv a b \<longleftrightarrow>
     tc_inv (ep_conn a, ep_written a) \<and> length (ep_written a) < 2147483646 \<and>
     (\<forall>seg \<in> ep_sent a. sd_seg_ok (ep_written a) (sender (ep_conn a)) seg) \<and>
     rc_tracks (ep_written a) (sd_isn (sender (ep_conn a))) (receiver (ep_conn b), ep_read b)"

lemma pair_inv_sender:
  assumes p: "pair_inv a b" and st: "ep_step N a a'"
  shows "pair_inv a' b"
  using st
proof cases
  case (call x c S)
  have i: "tc_inv (ep_conn a, ep_written a)" using p by (simp add: pair_inv_def)
  have "tc_inv (c, S)" using tcm.step_inv [OF i call(3)] call(4) by simp
  moreover obtain T where "S = ep_written a @ T" using call(4) by (cases x) auto
  moreover have "sd_isn (sender c) = sd_isn (sender (ep_conn a))"
    using sd_ext_exec [OF i call(3,4)] by (simp add: sd_ext_def)
  ultimately show ?thesis
    using p call sd_seg_ok_exec [OF i call(3,4)] rc_tracks_grow by (simp add: pair_inv_def)
next
  case (receive seg)
  have i: "tc_inv (ep_conn a, ep_written a)" using p by (simp add: pair_inv_def)
  let ?x = "tc_exec (ep_conn a, ep_written a) (TSegment seg)"
  have x: "?x = (segment_received (ep_conn a) seg, ep_written a)" by simp
  have "tc_inv ?x" by (rule tcm.step_inv [OF i receive(4)])
  moreover have "sd_isn (sender (segment_received (ep_conn a) seg)) = sd_isn (sender (ep_conn a))"
    using sd_ext_exec [OF i receive(4) x] by (simp add: sd_ext_def)
  ultimately show ?thesis
    using p receive sd_seg_ok_exec [OF i receive(4) x] by (simp add: pair_inv_def)
next
  case (read n c got)
  then show ?thesis using p by (auto simp: pair_inv_def tc_read_def tc_inv_def split_beta)
next
  case (send seg segs)
  then show ?thesis using p by (auto simp: pair_inv_def tc_inv_def)
qed

lemma pair_inv_receiver:
  assumes p: "pair_inv b a" and st: "ep_step (ep_sent b) a a'"
  shows "pair_inv b a'"
  using st
proof cases
  case (call x c S)
  then show ?thesis using p receiver_local [OF call(2,4)] rc_tracks_error by (auto simp: pair_inv_def)
next
  case (receive seg)
  then show ?thesis
    using p receiver_segment [of "ep_conn a" seg] rc_tracks_error rc_tracks_receive
    by (auto simp: pair_inv_def)
next
  case (read n c got)
  then show ?thesis
    using p rcm.step_inv [of "ep_written b" "sd_isn (sender (ep_conn b))" "(receiver (ep_conn a), ep_read a)" "ReadIn n"]
    by (auto simp: pair_inv_def tc_read_def split_beta)
next
  case (send seg segs)
  then show ?thesis using p by (auto simp: pair_inv_def)
qed

lemma net_inv_step:
  assumes "pair_inv a b \<and> pair_inv b a" "net_step (a, b) (a', b')"
  shows "pair_inv a' b' \<and> pair_inv b' a'"
  using assms(2) assms(1) pair_inv_sender pair_inv_receiver by (elim net_stepE) blast+

lemma net_inv_reach:
  assumes "net_step\<^sup>*\<^sup>* (a0, b0) ab" "pair_inv a0 b0 \<and> pair_inv b0 a0"
  shows "pair_inv (fst ab) (snd ab) \<and> pair_inv (snd ab) (fst ab)"
  using assms
proof (induction rule: rtranclp_induct)
  case (step y z)
  then show ?case using net_inv_step by (metis prod.collapse)
qed simp

lemma pair_inv_new:
  assumes "0 < unat (recv_capacity cb)" "unat (recv_capacity cb) \<le> 9223372036854775808"
  shows "pair_inv (new_endpoint ca ra) (new_endpoint cb rb)"
  using tc_inv_new [of ca ra] rc_tracks_new [OF assms, of "[]"]
  by (simp add: pair_inv_def new_endpoint_def) (simp add: new_tcp_connection_def)

text \<open>
  C1. Data arrives intact and in order, in both directions: take two connections over a network that
  reorders, duplicates and loses segments, and any writes, reads, clock ticks, connects and
  shutdowns on both sides in any interleaving, under two conditions on each segment that is
  delivered: it starts inside or before the window of the receiver at that time, and the window it
  advertises does not end before what the other side has already sent (and a segment without ACK
  does not carry that side's next sequence number in its unused field).  Then in every reachable
  state the bytes read at one end, followed by those waiting to be read there, are a prefix of the
  bytes accepted from the writer at the other end.  Nothing is written after the end of a stream,
  and each side writes less than 2 GiB.  Without the two conditions the statement is false of the
  code, see \<open>stale_window_breaks_order\<close>.
\<close>

theorem streams_delivered_in_order:
  assumes "net_step\<^sup>*\<^sup>* (new_endpoint ca ra, new_endpoint cb rb) (a, b)"
    and "0 < unat (recv_capacity ca)" "unat (recv_capacity ca) \<le> 9223372036854775808"
    and "0 < unat (recv_capacity cb)" "unat (recv_capacity cb) \<le> 9223372036854775808"
  shows "(\<exists>rest. ep_written a = ep_read b @ bs_buffer (rc_stream_out (receiver (ep_conn b))) @ rest) \<and>
         (\<exists>rest. ep_written b = ep_read a @ bs_buffer (rc_stream_out (receiver (ep_conn a))) @ rest)"
proof -
  have "pair_inv a b \<and> pair_inv b a"
    using net_inv_reach [OF assms(1)] pair_inv_new [OF assms(2,3)] pair_inv_new [OF assms(4,5)] by auto
  moreover have "\<exists>rest. ep_written x = ep_read y @ bs_buffer (rc_stream_out (receiver (ep_conn y))) @ rest"
    if "pair_inv x y" for x y
  proof -
    let ?n = "first_of (rc_reassembler (receiver (ep_conn y)))"
    have "ep_read y @ bs_buffer (rc_stream_out (receiver (ep_conn y))) = take ?n (ep_written x)"
      using that by (simp add: pair_inv_def rc_tracks_def ra_tracks_def rc_stream_out_def)
    then show ?thesis by (metis append_assoc append_take_drop_id)
  qed
  ultimately show ?thesis by blast
qed

abbreviation example_config :: tcp_config where
  "example_config \<equiv> \<lparr>rt_timeout = 1000, recv_capacity = 8, send_capacity = 8, fixed_isn = Some (WrappingInt32 10)\<rparr>"

abbreviation example_syn :: tcp_segment where
  "example_syn \<equiv> \<lparr>seg_header = new_tcp_header\<lparr>seqno := WrappingInt32 10, syn := True, win := 8\<rparr>, seg_payload = []\<rparr>"

theorem streams_delivered_in_order_witness:
  "\<exists>a b. net_step\<^sup>*\<^sup>* (new_endpoint example_config 0, new_endpoint example_config 0) (a, b) \<and>
     example_syn \<in> ep_sent a \<and> rc_isn (receiver (ep_conn b)) = Some (WrappingInt32 10) \<and>
     (\<exists>rest. ep_written a = ep_read b @ bs_buffer (rc_stream_out (receiver (ep_conn b))) @ rest)"
proof -
  let ?e = "new_endpoint example_config 0"
  let ?a1 = "?e\<lparr>ep_conn := connect (ep_conn ?e), ep_written := ep_written ?e\<rparr>"
  let ?a = "?a1\<lparr>ep_conn := (ep_conn ?a1)\<lparr>segments_out := []\<rparr>, ep_sent := insert example_syn (ep_sent ?a1)\<rparr>"
  let ?b = "?e\<lparr>ep_conn := segment_received (ep_conn ?e) example_syn\<rparr>"
  have out: "segments_out (ep_conn ?a1) = [example_syn]" by code_simp
  have fair: "tc_seg_fair (ep_conn ?e) example_syn" by code_simp
  have isn: "rc_isn (receiver (ep_conn ?b)) = Some (WrappingInt32 10)" by code_simp
  have new: "rc_isn (receiver (ep_conn ?e)) = None" "length (ep_written ?e) < 2147483646"
    by (simp_all add: new_endpoint_def new_tcp_connection_def new_tcp_receiver_def)
  have "net_step (?e, ?e) (?a1, ?e)"
    by (rule net_step.left, rule ep_step.call [where x = TConnect]) (use new in simp_all)
  moreover have "net_step (?a1, ?e) (?a, ?e)"
    by (rule net_step.left, rule ep_step.send) (rule out)
  moreover have "net_step (?a, ?e) (?a, ?b)"
    by (rule net_step.right, rule ep_step.receive) (use out fair new in \<open>simp_all add: starts_in_window_def\<close>)
  ultimately have r: "net_step\<^sup>*\<^sup>* (?e, ?e) (?a, ?b)" by (meson rtranclp.rtrancl_into_rtrancl rtranclp.rtrancl_refl)
  from streams_delivered_in_order [OF r]
  have "\<exists>rest. ep_written ?a = ep_read ?b @ bs_buffer (rc_stream_out (receiver (ep_conn ?b))) @ rest" by simp
  moreover have "example_syn \<in> ep_sent ?a" using out by simp
  ultimately show ?thesis using r isn by blast
qed

text \<open>
  An acknowledgment that closed the window, delivered late, makes the sender overrun the window;
  the receiver then takes a byte from beyond its window for another one.  Here the bytes 1 to 18
  are written, and the reader gets 18 after 9.
\<close>

lemma stale_window_breaks_order:
  "let a = connect (new_tcp_connection example_config 0);
       b = segment_received (new_tcp_connection example_config 0) (last (segments_out a));
       a = segment_received a (last (segments_out b));
       b = segment_received b (last (segments_out a));
       a = fst (tc_write a [1, 2, 3, 4, 5, 6, 7, 8]); first = last (segments_out a);
       b = segment_received b first; stale = last (segments_out b);
       (b, got) = tc_read b 8;
       b = segment_received b first;
       a = segment_received a (last (segments_out b));
       a = fst (tc_write a [9]); s9 = last (segments_out a);
       a = fst (tc_write a [10, 11, 12, 13, 14, 15, 16]);
       a = segment_received a stale;
       a = fst (tc_write a [17]);
       a = fst (tc_write a [18]); s18 = last (segments_out a);
       b = segment_received b s18;
       b = segment_received b s9
   in got @ bs_buffer (rc_stream_out (receiver b)) = [1, 2, 3, 4, 5, 6, 7, 8, 9, 18]"
  by code_simp

end
