(* ===== verification/Stream_Copy.thy ===== *)
theory Stream_Copy
  imports Byte_Stream Event_Loop Sockets
begin

text \<open>
  \<open>bidirectional_stream_copy\<close> (src/apps/bidirectional_stream_copy.cc): two byte streams between
  standard input, a socket and standard output, driven by four rules of an \<open>EventLoop\<close>.  The state
  also records what has crossed the border to the kernel: the bytes read from the input and from
  the socket, and those that the socket and the output have taken.
\<close>

section \<open>Moving bytes between a descriptor and a stream\<close>

text \<open>Reading as much as the stream has room for; the answer of the kernel depends on the limit.\<close>

definition copy_in :: "file_descriptor \<Rightarrow> byte_stream \<Rightarrow> (u64 \<Rightarrow> bytes reply) \<Rightarrow> (exn + bytes) \<times> file_descriptor \<times> byte_stream" where
  "copy_in fd stream k =
     (let limit = bs_remaining_capacity stream
      in case fd_read fd limit (k limit) of
           (Inl ex, fd) \<Rightarrow> (Inl ex, fd, stream)
         | (Inr bs, fd) \<Rightarrow>
             let stream = fst (bs_write stream bs)
             in (Inr bs, fd, if fd_eof fd then bs_end_input stream else stream))"

definition max_copy_length :: u64 where "max_copy_length = 65536"

definition copy_out :: "file_descriptor \<Rightarrow> byte_stream \<Rightarrow> (bytes \<Rightarrow> nat reply) \<Rightarrow> (exn + bytes) \<times> file_descriptor \<times> byte_stream" where
  "copy_out fd stream k =
     (let bytes_to_write = min max_copy_length (bs_buffer_size stream);
          buf = bs_peek_output stream bytes_to_write
      in case fd_write_once fd [buf] (k buf) of
           (Inl ex, fd) \<Rightarrow> (Inl ex, fd, stream)
         | (Inr bytes_written, fd) \<Rightarrow> (Inr (take (unat bytes_written) buf), fd, bs_pop_output stream bytes_written))"

lemma copy_in_spec:
  assumes "copy_in fd st k = (res, fd', st')" "bs_wf st"
  shows "bs_wf st'" "total_capacity st' = total_capacity st" "bs_error_flag st' = bs_error_flag st"
    "fd_closed fd' = fd_closed fd" "fd_eof fd \<Longrightarrow> fd_eof fd'" "write_count fd' = write_count fd"
    "bs_buffer st' = bs_buffer st @ (case res of Inl _ \<Rightarrow> [] | Inr bs \<Rightarrow> bs)"
    "is_input_ended st' \<Longrightarrow> is_input_ended st \<or> fd_eof fd'"
    "is_input_ended st \<Longrightarrow> is_input_ended st'"
    "\<lbrakk>bs_eof_exact st; \<not> is_input_ended st\<rbrakk> \<Longrightarrow> bs_eof_exact st'"
proof -
  let ?limit = "bs_remaining_capacity st"
  obtain r fd1 where rd: "fd_read fd ?limit (k ?limit) = (r, fd1)" by (cases "fd_read fd ?limit (k ?limit)")
  have fd': "fd' = fd1" using assms(1) rd by (auto simp: copy_in_def Let_def split: sum.splits)
  show "fd_closed fd' = fd_closed fd" "fd_eof fd \<Longrightarrow> fd_eof fd'" "write_count fd' = write_count fd"
    using fd_read_frame [OF rd] fd' by auto
  have "bs_wf st' \<and> total_capacity st' = total_capacity st \<and> bs_error_flag st' = bs_error_flag st \<and>
    bs_buffer st' = bs_buffer st @ (case res of Inl _ \<Rightarrow> [] | Inr bs \<Rightarrow> bs) \<and>
    (is_input_ended st' \<longrightarrow> is_input_ended st \<or> fd_eof fd') \<and> (is_input_ended st \<longrightarrow> is_input_ended st') \<and>
    (bs_eof_exact st \<and> \<not> is_input_ended st \<longrightarrow> bs_eof_exact st')"
  proof (cases r)
    case (Inl ex)
    then show ?thesis using assms rd by (auto simp: copy_in_def Let_def)
  next
    case (Inr bs)
    then have len: "length bs \<le> bs_room st" "length bs < two64"
      using fd_read_ok(1) [of fd ?limit "k ?limit" bs fd1] rd unat_bs_remaining_capacity [OF assms(2)]
        unat_u64_less [of ?limit] by auto
    have w: "bs_wf (fst (bs_write st bs))" "bs_buffer (fst (bs_write st bs)) = bs_buffer st @ bs"
      using bs_wf_write [OF assms(2) len(2)] len by (simp_all add: bs_write_eq [OF assms(2)] Let_def)
    have st': "st' = (if fd_eof fd1 then bs_end_input (fst (bs_write st bs)) else fst (bs_write st bs))" "res = Inr bs"
      using assms(1) rd Inr by (auto simp: copy_in_def Let_def)
    have e: "bs_eof_exact st \<Longrightarrow> \<not> is_input_ended st \<Longrightarrow> bs_eof_exact (fst (bs_write st bs))"
      using bsm.step_inv [of st "Put bs"] len(2) by simp
    then have "bs_eof_exact st \<Longrightarrow> \<not> is_input_ended st \<Longrightarrow> bs_eof_exact (bs_end_input (fst (bs_write st bs)))"
      using bsm.step_inv [of "fst (bs_write st bs)" "Ctl EndInput"] by simp
    with e show ?thesis
      using w fd' bs_wf_control [OF w(1), of EndInput] by (auto simp: st' bs_write_frame bs_end_input_def)
  qed
  then show "bs_wf st'" "total_capacity st' = total_capacity st" "bs_error_flag st' = bs_error_flag st"
    "bs_buffer st' = bs_buffer st @ (case res of Inl _ \<Rightarrow> [] | Inr bs \<Rightarrow> bs)"
    "is_input_ended st' \<Longrightarrow> is_input_ended st \<or> fd_eof fd'" "is_input_ended st \<Longrightarrow> is_input_ended st'"
    "\<lbrakk>bs_eof_exact st; \<not> is_input_ended st\<rbrakk> \<Longrightarrow> bs_eof_exact st'" by blast+
qed

lemma copy_out_spec:
  assumes "copy_out fd st k = (res, fd', st')" "bs_wf st"
  shows "bs_wf st'" "total_capacity st' = total_capacity st" "bs_error_flag st' = bs_error_flag st"
    "fd_closed fd' = fd_closed fd" "fd_eof fd' = fd_eof fd" "read_count fd' = read_count fd"
    "(case res of Inl _ \<Rightarrow> [] | Inr bs \<Rightarrow> bs) @ bs_buffer st' = bs_buffer st"
    "is_input_ended st' = is_input_ended st" "bs_eof_exact st \<Longrightarrow> bs_eof_exact st'"
proof -
  let ?buf = "bs_peek_output st (min max_copy_length (bs_buffer_size st))"
  obtain r fd1 where rd: "fd_write_round fd [?buf] (k ?buf) = (r, fd1)" by (cases "fd_write_round fd [?buf] (k ?buf)")
  have fd': "fd' = fd1" using assms(1) rd by (auto simp: copy_out_def fd_write_once_eq Let_def split: sum.splits prod.splits)
  show "fd_closed fd' = fd_closed fd" "fd_eof fd' = fd_eof fd" "read_count fd' = read_count fd"
    using fd_write_round_frame [OF rd] fd' by auto
  have buf: "?buf = take 65536 (bs_buffer st)"
    using unat_bs_buffer_size [OF assms(2)]
    by (simp add: bs_peek_output_eq [OF assms(2)] max_copy_length_def min_def word_le_nat_alt)
  have "bs_wf st' \<and> total_capacity st' = total_capacity st \<and> bs_error_flag st' = bs_error_flag st \<and>
    (case res of Inl _ \<Rightarrow> [] | Inr bs \<Rightarrow> bs) @ bs_buffer st' = bs_buffer st \<and>
    is_input_ended st' = is_input_ended st \<and> (bs_eof_exact st \<longrightarrow> bs_eof_exact st')"
  proof (cases r)
    case (Inl ex)
    then show ?thesis using assms rd by (auto simp: copy_out_def fd_write_once_eq Let_def)
  next
    case (Inr bn)
    obtain b n where bn: "bn = (b, n)" by (cases bn)
    have "length (concat [?buf]) < 2 ^ 63" unfolding buf by simp
    from fd_write_round_reply [OF rd [unfolded Inr bn] this] obtain m where m: "m \<le> length ?buf" "n = of_nat m"
      by (metis append_Nil2 concat.simps(1,2))
    then have "m \<le> 65536" unfolding buf by simp
    then have n: "unat n = m" using m(2) by (simp add: unat_of_nat_u64)
    have st': "st' = bs_pop_output st n" "res = Inr (take m (bs_buffer st))"
      using assms(1) rd Inr bn n m(1) unfolding copy_out_def fd_write_once_eq Let_def buf by auto
    show ?thesis
      using bs_wf_pop [OF assms(2), of n] n bsm.step_inv [of st "Take n"]
      by (auto simp: st' bs_pop_output_eq [OF assms(2)] bs_read_def)
  qed
  then show "bs_wf st'" "total_capacity st' = total_capacity st" "bs_error_flag st' = bs_error_flag st"
    "(case res of Inl _ \<Rightarrow> [] | Inr bs \<Rightarrow> bs) @ bs_buffer st' = bs_buffer st"
    "is_input_ended st' = is_input_ended st" "bs_eof_exact st \<Longrightarrow> bs_eof_exact st'" by blast+
qed

lemma copy_out_taken:
  assumes "copy_out fd st k = (Inr bs, fd', st')" "bs_wf st"
  shows "\<exists>n. bs = take (unat n) (bs_buffer st) \<and> st' = bs_pop_output st n"
proof -
  obtain n where n: "bs = take (unat n) (bs_peek_output st (min max_copy_length (bs_buffer_size st)))" "st' = bs_pop_output st n"
    using assms(1) by (auto simp: copy_out_def Let_def split: prod.splits sum.splits)
  have sp: "bs @ bs_buffer st' = bs_buffer st" using copy_out_spec(7) [OF assms] by simp
  then have "bs = take (unat n) (bs_buffer st)"
    using n(2) by (simp add: bs_pop_output_eq [OF assms(2)]) (metis append_take_drop_id append_same_eq)
  with n(2) show ?thesis by blast
qed

section \<open>The state and the rules\<close>

record copy_state =
  cp_input :: file_descriptor
  cp_output :: file_descriptor
  cp_socket :: file_descriptor
  cp_outbound :: byte_stream
  cp_inbound :: byte_stream
  outbound_shutdown :: bool
  inbound_shutdown :: bool
  from_input :: bytes
  to_socket :: bytes
  from_socket :: bytes
  to_output :: bytes

definition copy_buffer_size :: u64 where "copy_buffer_size = 1048576"

definition new_copy_state :: "file_descriptor \<Rightarrow> file_descriptor \<Rightarrow> file_descriptor \<Rightarrow> copy_state" where
  "new_copy_state input output socket =
     \<lparr>cp_input = input, cp_output = output, cp_socket = socket,
      cp_outbound = new_byte_stream copy_buffer_size, cp_inbound = new_byte_stream copy_buffer_size,
      outbound_shutdown = False, inbound_shutdown = False,
      from_input = [], to_socket = [], from_socket = [], to_output = []\<rparr>"

text \<open>What the kernel answers to the system calls of the callbacks during one round.\<close>

record copy_kernel =
  k_input_read :: "u64 \<Rightarrow> bytes reply"
  k_socket_write :: "bytes \<Rightarrow> nat reply"
  k_socket_shutdown :: "nat reply"
  k_socket_read :: "u64 \<Rightarrow> bytes reply"
  k_output_write :: "bytes \<Rightarrow> nat reply"
  k_output_close :: "nat reply"

definition input_callback :: "copy_kernel \<Rightarrow> copy_state \<Rightarrow> (exn + unit) \<times> copy_state" where
  "input_callback k s =
     (case copy_in (cp_input s) (cp_outbound s) (k_input_read k) of
        (Inl ex, fd, stream) \<Rightarrow> (Inl ex, s\<lparr>cp_input := fd, cp_outbound := stream\<rparr>)
      | (Inr bs, fd, stream) \<Rightarrow> (Inr (), s\<lparr>cp_input := fd, cp_outbound := stream, from_input := from_input s @ bs\<rparr>))"

definition input_interest :: "copy_state \<Rightarrow> bool" where
  "input_interest s \<longleftrightarrow>
     \<not> bs_error (cp_outbound s) \<and> 0 < bs_remaining_capacity (cp_outbound s) \<and> \<not> bs_error (cp_inbound s)"

definition end_outbound :: "copy_state \<Rightarrow> (exn + unit) \<times> copy_state" where
  "end_outbound s = (Inr (), s\<lparr>cp_outbound := bs_end_input (cp_outbound s)\<rparr>)"

definition socket_write_callback :: "copy_kernel \<Rightarrow> copy_state \<Rightarrow> (exn + unit) \<times> copy_state" where
  "socket_write_callback k s =
     (case copy_out (cp_socket s) (cp_outbound s) (k_socket_write k) of
        (Inl ex, fd, stream) \<Rightarrow> (Inl ex, s\<lparr>cp_socket := fd, cp_outbound := stream\<rparr>)
      | (Inr bs, fd, stream) \<Rightarrow>
          let s = s\<lparr>cp_socket := fd, cp_outbound := stream, to_socket := to_socket s @ bs\<rparr>
          in if bs_eof stream
             then case sock_shutdown fd 1 (k_socket_shutdown k) of
                    (Inl ex, fd) \<Rightarrow> (Inl ex, s\<lparr>cp_socket := fd\<rparr>)
                  | (Inr _, fd) \<Rightarrow> (Inr (), s\<lparr>cp_socket := fd, outbound_shutdown := True\<rparr>)
             else (Inr (), s))"

definition socket_write_interest :: "copy_state \<Rightarrow> bool" where
  "socket_write_interest s \<longleftrightarrow>
     \<not> bs_buffer_empty (cp_outbound s) \<or> bs_eof (cp_outbound s) \<and> \<not> outbound_shutdown s"

definition socket_read_callback :: "copy_kernel \<Rightarrow> copy_state \<Rightarrow> (exn + unit) \<times> copy_state" where
  "socket_read_callback k s =
     (case copy_in (cp_socket s) (cp_inbound s) (k_socket_read k) of
        (Inl ex, fd, stream) \<Rightarrow> (Inl ex, s\<lparr>cp_socket := fd, cp_inbound := stream\<rparr>)
      | (Inr bs, fd, stream) \<Rightarrow> (Inr (), s\<lparr>cp_socket := fd, cp_inbound := stream, from_socket := from_socket s @ bs\<rparr>))"

definition socket_read_interest :: "copy_state \<Rightarrow> bool" where
  "socket_read_interest s \<longleftrightarrow>
     \<not> bs_error (cp_inbound s) \<and> 0 < bs_remaining_capacity (cp_inbound s) \<and> \<not> bs_error (cp_outbound s)"

definition end_inbound :: "copy_state \<Rightarrow> (exn + unit) \<times> copy_state" where
  "end_inbound s = (Inr (), s\<lparr>cp_inbound := bs_end_input (cp_inbound s)\<rparr>)"

definition output_callback :: "copy_kernel \<Rightarrow> copy_state \<Rightarrow> (exn + unit) \<times> copy_state" where
  "output_callback k s =
     (case copy_out (cp_output s) (cp_inbound s) (k_output_write k) of
        (Inl ex, fd, stream) \<Rightarrow> (Inl ex, s\<lparr>cp_output := fd, cp_inbound := stream\<rparr>)
      | (Inr bs, fd, stream) \<Rightarrow>
          let s = s\<lparr>cp_output := fd, cp_inbound := stream, to_output := to_output s @ bs\<rparr>
          in if bs_eof stream
             then case fd_close fd (k_output_close k) of
                    (Inl ex, fd) \<Rightarrow> (Inl ex, s\<lparr>cp_output := fd\<rparr>)
                  | (Inr _, fd) \<Rightarrow> (Inr (), s\<lparr>cp_output := fd, inbound_shutdown := True\<rparr>)
             else (Inr (), s))"

definition output_interest :: "copy_state \<Rightarrow> bool" where
  "output_interest s \<longleftrightarrow>
     \<not> bs_buffer_empty (cp_inbound s) \<or> bs_eof (cp_inbound s) \<and> \<not> inbound_shutdown s"

type_synonym copy_rule = "(copy_kernel, copy_state) rule"

definition input_rule :: copy_rule where
  "input_rule = \<lparr>r_fd = cp_input, r_direction = In, r_callback = input_callback, r_interest = input_interest, r_cancel = end_outbound\<rparr>"

definition socket_write_rule :: copy_rule where
  "socket_write_rule =
     \<lparr>r_fd = cp_socket, r_direction = Out, r_callback = socket_write_callback, r_interest = socket_write_interest, r_cancel = end_outbound\<rparr>"

definition socket_read_rule :: copy_rule where
  "socket_read_rule =
     \<lparr>r_fd = cp_socket, r_direction = In, r_callback = socket_read_callback, r_interest = socket_read_interest, r_cancel = end_inbound\<rparr>"

definition output_rule :: copy_rule where
  "output_rule = \<lparr>r_fd = cp_output, r_direction = Out, r_callback = output_callback, r_interest = output_interest, r_cancel = end_inbound\<rparr>"

definition copy_rules :: "copy_rule list" where
  "copy_rules =
     (let rules = add_rule [] cp_input In input_callback input_interest end_outbound;
          rules = add_rule rules cp_socket Out socket_write_callback socket_write_interest end_outbound;
          rules = add_rule rules cp_socket In socket_read_callback socket_read_interest end_inbound
      in add_rule rules cp_output Out output_callback output_interest end_inbound)"

lemma copy_rules_eq: "copy_rules = [input_rule, socket_write_rule, socket_read_rule, output_rule]"
  by (simp add: copy_rules_def add_rule_def input_rule_def socket_write_rule_def socket_read_rule_def output_rule_def)

lemmas copy_rule_defs = input_rule_def socket_write_rule_def socket_read_rule_def output_rule_def
lemmas copy_callback_defs = input_callback_def socket_write_callback_def socket_read_callback_def output_callback_def

text \<open>
  The loop, given the environment of its rounds; \<open>None\<close> means that it is still running after them.
\<close>

type_synonym copy_env = "(copy_kernel \<times> (pollfd list \<Rightarrow> poll_answer)) list"

fun copy_loop :: "copy_env \<Rightarrow> copy_rule list \<Rightarrow> copy_state \<Rightarrow> (exn + unit) option \<times> copy_rule list \<times> copy_state" where
  "copy_loop [] rules s = (None, rules, s)"
| "copy_loop ((k, poll) # env) rules s =
     (case wait_next_event k poll rules s of
        (Inl ex, rules, s) \<Rightarrow> (Some (Inl ex), rules, s)
      | (Inr result, rules, s) \<Rightarrow>
          if result = Exit then (Some (Inr ()), rules, s) else copy_loop env rules s)"

text \<open>
  The socket, the input and the output are made non-blocking first, in this order; the answers to
  the calls of \<open>fcntl(2)\<close> come for each of them.
\<close>

type_synonym fcntl_replies = "nat reply \<times> (u32 \<Rightarrow> nat reply)"

fun make_nonblocking :: "fcntl_replies list \<Rightarrow> exn + unit" where
  "make_nonblocking [] = Inr ()"
| "make_nonblocking ((getfl, setfl) # rest) =
     (case set_blocking False getfl setfl of
        Inl ex \<Rightarrow> Inl ex
      | Inr _ \<Rightarrow> make_nonblocking rest)"

definition bidirectional_stream_copy :: "fcntl_replies \<times> fcntl_replies \<times> fcntl_replies \<Rightarrow> copy_env \<Rightarrow> file_descriptor \<Rightarrow> file_descriptor \<Rightarrow> file_descriptor
    \<Rightarrow> (exn + unit) option \<times> copy_state" where
  "bidirectional_stream_copy fl env input output socket =
     (let s = new_copy_state input output socket; (socket_fl, input_fl, output_fl) = fl
      in case make_nonblocking [socket_fl, input_fl, output_fl] of
           Inl ex \<Rightarrow> (Some (Inl ex), s)
         | Inr _ \<Rightarrow> (case copy_loop env copy_rules s of (res, _, s) \<Rightarrow> (res, s)))"

section \<open>First in, first out\<close>

definition copy_inv :: "copy_state \<Rightarrow> bool" where
  "copy_inv s \<longleftrightarrow> bs_wf (cp_outbound s) \<and> bs_wf (cp_inbound s) \<and>
     total_capacity (cp_outbound s) = copy_buffer_size \<and> total_capacity (cp_inbound s) = copy_buffer_size \<and>
     from_input s = to_socket s @ bs_buffer (cp_outbound s) \<and> from_socket s = to_output s @ bs_buffer (cp_inbound s)"

lemma distinct_copy_rules: "distinct copy_rules"
proof -
  define s where "s = new_copy_state example_fd example_fd (register_read example_fd)"
  have "cp_input s \<noteq> cp_socket s" "cp_socket s \<noteq> cp_output s"
    by (simp_all add: s_def new_copy_state_def register_read_def)
  then have "cp_input \<noteq> (cp_socket :: copy_state \<Rightarrow> _)" "cp_socket \<noteq> (cp_output :: copy_state \<Rightarrow> _)" by auto
  then show ?thesis by (auto simp: copy_rules_eq copy_rule_defs)
qed

lemma sock_shutdown_frame:
  "sock_shutdown fd how r = (res, fd') \<Longrightarrow> fd_eof fd' = fd_eof fd \<and> fd_closed fd' = fd_closed fd"
  by (auto simp: sock_shutdown_def register_read_def register_write_def split: sum.splits if_splits)

lemma copy_inv_new: "copy_inv (new_copy_state i out sk)"
  by (simp add: copy_inv_def new_copy_state_def)

lemma input_callback_cases:
  obtains res fd st where "copy_in (cp_input s) (cp_outbound s) (k_input_read k) = (res, fd, st)"
    "snd (input_callback k s) =
      s\<lparr>cp_input := fd, cp_outbound := st, from_input := from_input s @ (case res of Inl _ \<Rightarrow> [] | Inr bs \<Rightarrow> bs)\<rparr>"
proof -
  obtain res fd st where c: "copy_in (cp_input s) (cp_outbound s) (k_input_read k) = (res, fd, st)" by (metis prod_cases3)
  show ?thesis by (rule that [OF c]) (cases res; simp add: input_callback_def c)
qed

lemma socket_read_callback_cases:
  obtains res fd st where "copy_in (cp_socket s) (cp_inbound s) (k_socket_read k) = (res, fd, st)"
    "snd (socket_read_callback k s) =
      s\<lparr>cp_socket := fd, cp_inbound := st, from_socket := from_socket s @ (case res of Inl _ \<Rightarrow> [] | Inr bs \<Rightarrow> bs)\<rparr>"
proof -
  obtain res fd st where c: "copy_in (cp_socket s) (cp_inbound s) (k_socket_read k) = (res, fd, st)" by (metis prod_cases3)
  show ?thesis by (rule that [OF c]) (cases res; simp add: socket_read_callback_def c)
qed

lemma socket_write_callback_cases:
  obtains res fd st fd' b where "copy_out (cp_socket s) (cp_outbound s) (k_socket_write k) = (res, fd, st)"
    "snd (socket_write_callback k s) =
      s\<lparr>cp_socket := fd', cp_outbound := st, to_socket := to_socket s @ (case res of Inl _ \<Rightarrow> [] | Inr bs \<Rightarrow> bs),
        outbound_shutdown := outbound_shutdown s \<or> b\<rparr>"
    "b \<Longrightarrow> bs_eof st" "fd_eof fd' = fd_eof fd" "fd_closed fd' = fd_closed fd"
proof -
  obtain res fd st where c: "copy_out (cp_socket s) (cp_outbound s) (k_socket_write k) = (res, fd, st)" by (metis prod_cases3)
  obtain r fd' where d: "sock_shutdown fd 1 (k_socket_shutdown k) = (r, fd')" by (cases "sock_shutdown fd 1 (k_socket_shutdown k)")
  show ?thesis
  proof (cases "(\<exists>bs. res = Inr bs) \<and> bs_eof st")
    case True
    show ?thesis by (rule that [OF c, where fd' = fd' and b = "\<exists>u. r = Inr u"])
      (use True sock_shutdown_frame [OF d] in \<open>auto simp: socket_write_callback_def c d Let_def split: sum.splits\<close>)
  next
    case False
    show ?thesis by (rule that [OF c, where fd' = fd and b = False]) (use False in \<open>auto simp: socket_write_callback_def c Let_def split: sum.splits\<close>)
  qed
qed

lemma output_callback_cases:
  obtains res fd st fd' b where "copy_out (cp_output s) (cp_inbound s) (k_output_write k) = (res, fd, st)"
    "snd (output_callback k s) =
      s\<lparr>cp_output := fd', cp_inbound := st, to_output := to_output s @ (case res of Inl _ \<Rightarrow> [] | Inr bs \<Rightarrow> bs),
        inbound_shutdown := inbound_shutdown s \<or> b\<rparr>"
    "b \<Longrightarrow> bs_eof st" "fd_closed fd' \<longleftrightarrow> fd_closed fd \<or> b"
proof -
  obtain res fd st where c: "copy_out (cp_output s) (cp_inbound s) (k_output_write k) = (res, fd, st)" by (metis prod_cases3)
  obtain r fd' where d: "fd_close fd (k_output_close k) = (r, fd')" by (cases "fd_close fd (k_output_close k)")
  show ?thesis
  proof (cases "(\<exists>bs. res = Inr bs) \<and> bs_eof st")
    case True
    show ?thesis by (rule that [OF c, where fd' = fd' and b = "\<exists>u. r = Inr u"])
      (use True d in \<open>auto simp: output_callback_def c fd_close_def Let_def split: sum.splits\<close>)
  next
    case False
    show ?thesis by (rule that [OF c, where fd' = fd and b = False]) (use False in \<open>auto simp: output_callback_def c Let_def split: sum.splits\<close>)
  qed
qed

lemma copy_callback_inv: 
  assumes "copy_inv s"
  shows "copy_inv (snd (input_callback k s))" "copy_inv (snd (socket_read_callback k s))"
    "copy_inv (snd (socket_write_callback k s))" "copy_inv (snd (output_callback k s))"
proof -
  have wf: "bs_wf (cp_outbound s)" "bs_wf (cp_inbound s)" using assms by (simp_all add: copy_inv_def)
  show "copy_inv (snd (input_callback k s))"
  proof (rule input_callback_cases [of s k])
    fix res fd st assume c: "copy_in (cp_input s) (cp_outbound s) (k_input_read k) = (res, fd, st)"
      and e: "snd (input_callback k s) = s\<lparr>cp_input := fd, cp_outbound := st, from_input := from_input s @ (case res of Inl _ \<Rightarrow> [] | Inr bs \<Rightarrow> bs)\<rparr>"
    show ?thesis using copy_in_spec(1,2,7) [OF c wf(1)] assms by (simp add: e copy_inv_def)
  qed
  show "copy_inv (snd (socket_read_callback k s))"
  proof (rule socket_read_callback_cases [of s k])
    fix res fd st assume c: "copy_in (cp_socket s) (cp_inbound s) (k_socket_read k) = (res, fd, st)"
      and e: "snd (socket_read_callback k s) = s\<lparr>cp_socket := fd, cp_inbound := st, from_socket := from_socket s @ (case res of Inl _ \<Rightarrow> [] | Inr bs \<Rightarrow> bs)\<rparr>"
    show ?thesis using copy_in_spec(1,2,7) [OF c wf(2)] assms by (simp add: e copy_inv_def)
  qed
  show "copy_inv (snd (socket_write_callback k s))"
    by (rule socket_write_callback_cases [of s k]) (use copy_out_spec(1,2,7) [OF _ wf(1)] assms in \<open>auto simp: copy_inv_def\<close>)
  show "copy_inv (snd (output_callback k s))"
    by (rule output_callback_cases [of s k]) (use copy_out_spec(1,2,7) [OF _ wf(2)] assms in \<open>auto simp: copy_inv_def\<close>)
qed

lemma bs_end_input_simps [simp]:
  "bs_buffer (bs_end_input st) = bs_buffer st" "total_capacity (bs_end_input st) = total_capacity st"
  "is_input_ended (bs_end_input st)" "bs_error_flag (bs_end_input st) = bs_error_flag st"
  "bs_wf st \<Longrightarrow> bs_wf (bs_end_input st)" "bs_eof_exact st \<Longrightarrow> bs_eof_exact (bs_end_input st)"
  using bs_wf_control [of st EndInput] bsm.step_inv [of st "Ctl EndInput"] by (simp_all add: bs_end_input_def)

lemma copy_cancel_inv:
  "copy_inv s \<Longrightarrow> copy_inv (snd (end_outbound s))" "copy_inv s \<Longrightarrow> copy_inv (snd (end_inbound s))"
  by (simp_all add: copy_inv_def end_outbound_def end_inbound_def)

text \<open>No callback and no cancellation ends or closes the descriptor of another rule.\<close>

lemma copy_callback_frame:
  assumes "copy_inv s"
  shows "cp_output (snd (input_callback k s)) = cp_output s" "cp_socket (snd (input_callback k s)) = cp_socket s"
    "cp_input (snd (socket_write_callback k s)) = cp_input s" "cp_output (snd (socket_write_callback k s)) = cp_output s"
    "fd_eof (cp_socket (snd (socket_write_callback k s))) = fd_eof (cp_socket s)"
    "fd_closed (cp_socket (snd (socket_write_callback k s))) = fd_closed (cp_socket s)"
    "cp_input (snd (socket_read_callback k s)) = cp_input s" "cp_output (snd (socket_read_callback k s)) = cp_output s"
    "fd_closed (cp_socket (snd (socket_read_callback k s))) = fd_closed (cp_socket s)"
    "cp_input (snd (output_callback k s)) = cp_input s" "cp_socket (snd (output_callback k s)) = cp_socket s"
    "fd_closed (cp_input (snd (input_callback k s))) = fd_closed (cp_input s)"
proof -
  have wf: "bs_wf (cp_outbound s)" "bs_wf (cp_inbound s)" using assms by (simp_all add: copy_inv_def)
  show "cp_output (snd (input_callback k s)) = cp_output s" "cp_socket (snd (input_callback k s)) = cp_socket s"
    "fd_closed (cp_input (snd (input_callback k s))) = fd_closed (cp_input s)"
    by (rule input_callback_cases [of s k], use copy_in_spec(4) [OF _ wf(1)] in simp)+
  show "cp_input (snd (socket_read_callback k s)) = cp_input s" "cp_output (snd (socket_read_callback k s)) = cp_output s"
    "fd_closed (cp_socket (snd (socket_read_callback k s))) = fd_closed (cp_socket s)"
    by (rule socket_read_callback_cases [of s k], use copy_in_spec(4) [OF _ wf(2)] in simp)+
  show "cp_input (snd (socket_write_callback k s)) = cp_input s" "cp_output (snd (socket_write_callback k s)) = cp_output s"
    "fd_eof (cp_socket (snd (socket_write_callback k s))) = fd_eof (cp_socket s)"
    "fd_closed (cp_socket (snd (socket_write_callback k s))) = fd_closed (cp_socket s)"
    by (rule socket_write_callback_cases [of s k], use copy_out_spec(4,5) [OF _ wf(1)] in simp)+
  show "cp_input (snd (output_callback k s)) = cp_input s" "cp_socket (snd (output_callback k s)) = cp_socket s"
    by (rule output_callback_cases [of s k], simp)+
qed

lemma copy_live:
  "\<lbrakk>r \<in> set copy_rules; r' \<in> set copy_rules; r \<noteq> r'; copy_inv s; \<not> defunct r' s\<rbrakk> \<Longrightarrow> \<not> defunct r' (snd (r_callback r k s))"
  "\<lbrakk>r \<in> set copy_rules; r' \<in> set copy_rules; \<not> defunct r' s\<rbrakk> \<Longrightarrow> \<not> defunct r' (snd (r_cancel r s))"
  by (auto simp: copy_rules_eq defunct_def copy_rule_defs copy_callback_frame end_outbound_def end_inbound_def)

interpretation copy_fifo: event_inv copy_rules "\<lambda>_. True" copy_inv
  by unfold_locales (auto simp: copy_callback_inv copy_cancel_inv copy_rules_eq copy_rule_defs)

lemma copy_loop_inv:
  assumes "copy_loop env rules s = (res, rules', s')" "set rules \<subseteq> set copy_rules" "copy_inv s"
  shows "copy_inv s'"
  using assms
proof (induction env rules s rule: copy_loop.induct)
  case (2 k poll env rules s)
  obtain r rs1 s1 where w: "wait_next_event k poll rules s = (r, rs1, s1)" by (metis prod_cases3)
  have "copy_inv s1 \<and> set rs1 \<subseteq> set copy_rules" by (rule copy_fifo.wait_next_event_kept [OF w 2(3)]) (simp_all add: 2)
  then show ?case using 2(1) [OF w [symmetric]] 2(2) w by (auto split: sum.splits if_splits)
qed simp

section \<open>Completion\<close>

text \<open>
  Without hang-ups, a stream ends only when its source is exhausted, a descriptor is shut down or
  closed only when its stream is drained, and nothing is written after the end.
\<close>

definition copy_ends :: "copy_state \<Rightarrow> bool" where
  "copy_ends s \<longleftrightarrow> bs_eof_exact (cp_outbound s) \<and> bs_eof_exact (cp_inbound s) \<and>
     \<not> bs_error_flag (cp_outbound s) \<and> \<not> bs_error_flag (cp_inbound s) \<and>
     (is_input_ended (cp_outbound s) \<longrightarrow> fd_eof (cp_input s)) \<and> (is_input_ended (cp_inbound s) \<longrightarrow> fd_eof (cp_socket s)) \<and>
     \<not> fd_closed (cp_input s) \<and> \<not> fd_closed (cp_socket s) \<and>
     (outbound_shutdown s \<longrightarrow> is_eof (cp_outbound s)) \<and> (fd_closed (cp_output s) \<longrightarrow> is_eof (cp_inbound s)) \<and>
     (inbound_shutdown s \<longleftrightarrow> fd_closed (cp_output s))"

definition copy_strong :: "copy_state \<Rightarrow> bool" where
  "copy_strong s \<longleftrightarrow> copy_inv s \<and> copy_ends s"

definition copy_post :: "copy_rule \<Rightarrow> copy_state \<Rightarrow> bool" where
  "copy_post r s \<longleftrightarrow> (r = input_rule \<longrightarrow> is_input_ended (cp_outbound s)) \<and> r \<noteq> socket_write_rule \<and>
     (r = socket_read_rule \<longrightarrow> is_input_ended (cp_inbound s)) \<and> (r = output_rule \<longrightarrow> fd_closed (cp_output s))"

lemma eof_exact_eof: "bs_eof_exact st \<Longrightarrow> is_eof st \<longleftrightarrow> is_input_ended st \<and> bs_buffer st = []"
  by (simp add: bs_eof_exact_def)

lemma input_callback_ends:
  assumes "copy_inv s" "copy_ends s" "\<not> fd_eof (cp_input s)"
  shows "copy_ends (snd (input_callback k s))"
proof (rule input_callback_cases [of s k])
  fix res fd st
  assume c: "copy_in (cp_input s) (cp_outbound s) (k_input_read k) = (res, fd, st)"
    and e: "snd (input_callback k s) =
      s\<lparr>cp_input := fd, cp_outbound := st, from_input := from_input s @ (case res of Inl _ \<Rightarrow> [] | Inr bs \<Rightarrow> bs)\<rparr>"
  have wf: "bs_wf (cp_outbound s)" and ne: "\<not> is_input_ended (cp_outbound s)" "\<not> is_eof (cp_outbound s)" "\<not> outbound_shutdown s"
    using assms by (auto simp: copy_inv_def copy_ends_def bs_eof_exact_def)
  show ?thesis using copy_in_spec(3,4,8,10) [OF c wf] ne assms(2) by (auto simp: e copy_ends_def)
qed

lemma socket_read_callback_ends:
  assumes "copy_inv s" "copy_ends s" "\<not> fd_eof (cp_socket s)"
  shows "copy_ends (snd (socket_read_callback k s))"
proof (rule socket_read_callback_cases [of s k])
  fix res fd st
  assume c: "copy_in (cp_socket s) (cp_inbound s) (k_socket_read k) = (res, fd, st)"
    and e: "snd (socket_read_callback k s) =
      s\<lparr>cp_socket := fd, cp_inbound := st, from_socket := from_socket s @ (case res of Inl _ \<Rightarrow> [] | Inr bs \<Rightarrow> bs)\<rparr>"
  have wf: "bs_wf (cp_inbound s)" and ne: "\<not> is_input_ended (cp_inbound s)" "\<not> is_eof (cp_inbound s)" "\<not> fd_closed (cp_output s)"
    using assms by (auto simp: copy_inv_def copy_ends_def bs_eof_exact_def)
  show ?thesis using copy_in_spec(3,4,8,10) [OF c wf] ne assms(2) by (auto simp: e copy_ends_def)
qed

lemma copy_out_eof:
  assumes "copy_out fd st k = (res, fd', st')" "bs_wf st" "bs_eof_exact st" "is_eof st"
  shows "is_eof st'"
  using copy_out_spec(7-9) [OF assms(1,2)] assms(3,4) by (auto simp: eof_exact_eof)

lemma socket_write_callback_ends:
  assumes "copy_inv s" "copy_ends s"
  shows "copy_ends (snd (socket_write_callback k s))"
proof (rule socket_write_callback_cases [of s k])
  fix res fd st fd' b
  assume c: "copy_out (cp_socket s) (cp_outbound s) (k_socket_write k) = (res, fd, st)"
    and e: "snd (socket_write_callback k s) =
      s\<lparr>cp_socket := fd', cp_outbound := st, to_socket := to_socket s @ (case res of Inl _ \<Rightarrow> [] | Inr bs \<Rightarrow> bs),
        outbound_shutdown := outbound_shutdown s \<or> b\<rparr>"
    and b: "b \<Longrightarrow> bs_eof st" and fd: "fd_eof fd' = fd_eof fd" "fd_closed fd' = fd_closed fd"
  have wf: "bs_wf (cp_outbound s)" using assms by (simp add: copy_inv_def)
  show ?thesis
    using copy_out_spec(3-5,8,9) [OF c wf] copy_out_eof [OF c wf] b fd assms(2)
    by (auto simp: e copy_ends_def bs_eof_def)
qed

lemma output_callback_ends:
  assumes "copy_inv s" "copy_ends s"
  shows "copy_ends (snd (output_callback k s))"
proof (rule output_callback_cases [of s k])
  fix res fd st fd' b
  assume c: "copy_out (cp_output s) (cp_inbound s) (k_output_write k) = (res, fd, st)"
    and e: "snd (output_callback k s) =
      s\<lparr>cp_output := fd', cp_inbound := st, to_output := to_output s @ (case res of Inl _ \<Rightarrow> [] | Inr bs \<Rightarrow> bs),
        inbound_shutdown := inbound_shutdown s \<or> b\<rparr>"
    and b: "b \<Longrightarrow> bs_eof st" and fd: "fd_closed fd' \<longleftrightarrow> fd_closed fd \<or> b"
  have wf: "bs_wf (cp_inbound s)" using assms by (simp add: copy_inv_def)
  show ?thesis
    using copy_out_spec(3-5,8,9) [OF c wf] copy_out_eof [OF c wf] b fd assms(2)
    by (auto simp: e copy_ends_def bs_eof_def)
qed

lemma copy_defunct:
  assumes "copy_ends s"
  shows "defunct input_rule s \<longleftrightarrow> fd_eof (cp_input s)" "\<not> defunct socket_write_rule s"
    "defunct socket_read_rule s \<longleftrightarrow> fd_eof (cp_socket s)" "defunct output_rule s \<longleftrightarrow> fd_closed (cp_output s)"
  using assms by (auto simp: defunct_def copy_rule_defs copy_ends_def)

lemma copy_strong_callback:
  assumes "r \<in> set copy_rules" "copy_strong s" "\<not> defunct r s"
  shows "copy_strong (snd (r_callback r k s))"
  using assms copy_defunct [of s] copy_callback_inv [of s k]
    input_callback_ends [of s k] socket_write_callback_ends [of s k] socket_read_callback_ends [of s k] output_callback_ends [of s k]
  by (auto simp: copy_strong_def copy_rules_eq) (auto simp: copy_rule_defs)

lemma copy_strong_cancel:
  assumes "r \<in> set copy_rules" "copy_strong s" "defunct r s"
  shows "copy_strong (snd (r_cancel r s))" "copy_post r (snd (r_cancel r s))"
proof -
  have "copy_ends s" using assms(2) by (simp add: copy_strong_def)
  note d = copy_defunct [OF this]
  have r: "r = input_rule \<and> fd_eof (cp_input s) \<or> r = socket_read_rule \<and> fd_eof (cp_socket s) \<or> r = output_rule \<and> fd_closed (cp_output s)"
    using assms(1,3) d by (auto simp: copy_rules_eq)
  moreover have "fd_closed (cp_output s) \<Longrightarrow> fd_eof (cp_socket s)" "outbound_shutdown s \<Longrightarrow> is_eof (cp_outbound s)"
    "fd_closed (cp_output s) \<Longrightarrow> is_eof (cp_inbound s)"
    using \<open>copy_ends s\<close> by (auto simp: copy_ends_def bs_eof_exact_def)
  moreover have "is_eof (bs_end_input st)" if "is_eof st" "bs_eof_exact st" for st
    using bs_end_input_simps(6) [OF that(2)] that by (simp add: eof_exact_eof)
  ultimately show "copy_strong (snd (r_cancel r s))"
    using copy_cancel_inv [of s] assms(2)
    by (auto simp: copy_strong_def) (auto simp: copy_rule_defs end_outbound_def end_inbound_def copy_ends_def)
  show "copy_post r (snd (r_cancel r s))"
    using r distinct_copy_rules
    by (auto simp: copy_post_def copy_rules_eq) (auto simp: copy_rule_defs end_outbound_def end_inbound_def)
qed

definition copy_grows :: "copy_state \<Rightarrow> copy_state \<Rightarrow> bool" where
  "copy_grows s s' \<longleftrightarrow> (is_input_ended (cp_outbound s) \<longrightarrow> is_input_ended (cp_outbound s')) \<and>
     (is_input_ended (cp_inbound s) \<longrightarrow> is_input_ended (cp_inbound s')) \<and> (fd_closed (cp_output s) \<longrightarrow> fd_closed (cp_output s'))"

lemma copy_post_grows: "copy_post r s \<Longrightarrow> copy_grows s s' \<Longrightarrow> copy_post r s'"
  by (auto simp: copy_post_def copy_grows_def)

lemma copy_callback_grows:
  assumes "copy_inv s" "r \<in> set copy_rules"
  shows "copy_grows s (snd (r_callback r k s))"
proof -
  have wf: "bs_wf (cp_outbound s)" "bs_wf (cp_inbound s)" using assms by (simp_all add: copy_inv_def)
  have "copy_grows s (snd (input_callback k s))"
    by (rule input_callback_cases [of s k]) (use copy_in_spec(9) [OF _ wf(1)] in \<open>simp add: copy_grows_def\<close>)
  moreover have "copy_grows s (snd (socket_read_callback k s))"
    by (rule socket_read_callback_cases [of s k]) (use copy_in_spec(9) [OF _ wf(2)] in \<open>simp add: copy_grows_def\<close>)
  moreover have "copy_grows s (snd (socket_write_callback k s))"
    by (rule socket_write_callback_cases [of s k]) (use copy_out_spec(8) [OF _ wf(1)] in \<open>simp add: copy_grows_def\<close>)
  moreover have "copy_grows s (snd (output_callback k s))"
    by (rule output_callback_cases [of s k]) (use copy_out_spec(4,8) [OF _ wf(2)] in \<open>simp add: copy_grows_def\<close>)
  ultimately show ?thesis using assms(2) by (auto simp: copy_rules_eq copy_rule_defs)
qed

lemma copy_cancel_grows: "r \<in> set copy_rules \<Longrightarrow> copy_grows s (snd (r_cancel r s))"
  by (auto simp: copy_rules_eq copy_rule_defs copy_grows_def end_outbound_def end_inbound_def)

interpretation copy_done: event_rules copy_rules "\<lambda>_. True" False copy_strong copy_post
proof unfold_locales
  fix r r' :: copy_rule and k s
  show "\<lbrakk>r \<in> set copy_rules; r' \<in> set copy_rules; r \<noteq> r'; True; copy_strong s; \<not> defunct r' s\<rbrakk>
    \<Longrightarrow> \<not> defunct r' (snd (r_callback r k s))" by (simp add: copy_live(1) copy_strong_def)
  show "\<lbrakk>r \<in> set copy_rules; r' \<in> set copy_rules; True; copy_strong s; \<not> defunct r s; copy_post r' s\<rbrakk>
    \<Longrightarrow> copy_post r' (snd (r_callback r k s))"
    using copy_callback_grows copy_post_grows by (auto simp: copy_strong_def)
  show "\<lbrakk>r \<in> set copy_rules; r' \<in> set copy_rules; copy_strong s; copy_post r' s; defunct r s \<or> False\<rbrakk>
    \<Longrightarrow> copy_post r' (snd (r_cancel r s))" using copy_cancel_grows copy_post_grows by blast
qed (auto simp: copy_strong_callback copy_strong_cancel copy_live(2))

lemma copy_calm: "sorted_wrt copy_done.calm copy_rules"
  by (auto simp: copy_rules_eq copy_done.calm_def copy_rule_defs end_outbound_def end_inbound_def input_interest_def
      socket_write_interest_def socket_read_interest_def defunct_def copy_strong_def copy_ends_def bs_error_def
      bs_remaining_capacity_def bs_buffer_empty_def bs_eof_def)

text \<open>When no rule is interested any more, everything has been copied.\<close>

lemma copy_quiet_complete:
  assumes "copy_done.J rules s" "\<forall>r \<in> set rules. \<not> r_interest r s"
  shows "to_socket s = from_input s \<and> to_output s = from_socket s \<and> fd_eof (cp_input s) \<and> fd_eof (cp_socket s) \<and>
    outbound_shutdown s \<and> fd_closed (cp_output s)"
proof -
  have inv: "copy_inv s" "copy_ends s" and sub: "set rules \<subseteq> set copy_rules"
    and post: "\<And>r. r \<in> set copy_rules \<Longrightarrow> r \<notin> set rules \<Longrightarrow> copy_post r s"
    using assms(1) by (auto simp: copy_done.J_def copy_strong_def)
  have room: "0 < bs_remaining_capacity st \<longleftrightarrow> bs_room st \<noteq> 0" if "bs_wf st" for st
    using unat_bs_remaining_capacity [OF that] by (metis neq0_conv unat_eq_0 u64_pos_iff)
  have empty: "bs_room st \<noteq> 0" if "total_capacity st = copy_buffer_size" "bs_buffer st = []" for st
    using that by (simp add: bs_room_def copy_buffer_size_def)
  have "socket_write_rule \<in> set rules" using post [of socket_write_rule] by (auto simp: copy_rules_eq copy_post_def)
  then have out: "bs_buffer (cp_outbound s) = []" "is_eof (cp_outbound s) \<longrightarrow> outbound_shutdown s"
    using assms(2) by (auto simp: copy_rule_defs socket_write_interest_def bs_buffer_empty_def bs_eof_def)
  have "input_rule \<notin> set rules"
    using assms(2) inv out(1) room [of "cp_outbound s"] empty [of "cp_outbound s"]
    by (auto simp: copy_rule_defs input_interest_def copy_inv_def copy_ends_def bs_error_def)
  then have ended: "is_input_ended (cp_outbound s)" using post [of input_rule] by (auto simp: copy_rules_eq copy_post_def)
  have inb: "bs_buffer (cp_inbound s) = []" "is_eof (cp_inbound s) \<longrightarrow> fd_closed (cp_output s)"
  proof -
    have "bs_buffer (cp_inbound s) = [] \<and> (is_eof (cp_inbound s) \<longrightarrow> inbound_shutdown s)" if "output_rule \<in> set rules"
      using assms(2) that by (auto simp: copy_rule_defs output_interest_def bs_buffer_empty_def bs_eof_def)
    moreover have "fd_closed (cp_output s)" if "output_rule \<notin> set rules"
      using post [of output_rule] that by (auto simp: copy_rules_eq copy_post_def)
    ultimately show "bs_buffer (cp_inbound s) = []" "is_eof (cp_inbound s) \<longrightarrow> fd_closed (cp_output s)"
      using inv(2) by (auto simp: copy_ends_def eof_exact_eof)
  qed
  have "socket_read_rule \<notin> set rules"
    using assms(2) inv inb(1) room [of "cp_inbound s"] empty [of "cp_inbound s"]
    by (auto simp: copy_rule_defs socket_read_interest_def copy_inv_def copy_ends_def bs_error_def)
  then have "is_input_ended (cp_inbound s)" using post [of socket_read_rule] by (auto simp: copy_rules_eq copy_post_def)
  with ended out inb inv show ?thesis by (auto simp: copy_inv_def copy_ends_def eof_exact_eof)
qed

definition quiet_kernel :: "(pollfd list \<Rightarrow> poll_answer) \<Rightarrow> bool" where
  "quiet_kernel poll \<longleftrightarrow> (\<forall>pfds. fst (poll pfds) \<noteq> Sys_Err EINTR \<and> (\<forall>i. snd (poll pfds) i AND POLLHUP = 0))"

lemma wait_exit_uninterested:
  assumes "wait_next_event k poll rules s = (Inr Exit, rules', s')" "quiet_kernel poll" "copy_done.J rules s" "subseq rules copy_rules"
  shows "\<forall>r \<in> set rules'. \<not> r_interest r s'"
proof -
  obtain pfds where p: "poll_setup rules s = (Inr (pfds, False), rules', s')"
    using wait_next_event_Exit [OF assms(1)] assms(2) by (metis (full_types) quiet_kernel_def)
  have "sorted_wrt copy_done.calm rules" using assms(4) copy_calm by (rule sorted_wrt_subseq)
  with copy_done.poll_setup_uninterested [OF p, of "{}"] assms(3) show ?thesis by (auto simp: copy_done.J_def)
qed

lemma copy_loop_complete:
  assumes "copy_loop env rules s = (Some (Inr ()), rules', s')" "copy_done.J rules s" "subseq rules copy_rules"
    "\<forall>(k, poll) \<in> set env. quiet_kernel poll"
  shows "copy_done.J rules' s' \<and> (\<forall>r \<in> set rules'. \<not> r_interest r s')"
  using assms
proof (induction env rules s rule: copy_loop.induct)
  case (2 k poll env rules s)
  obtain r rs1 s1 where w: "wait_next_event k poll rules s = (r, rs1, s1)" by (metis prod_cases3)
  have q: "quiet_kernel poll" using 2(5) by simp
  have J: "copy_done.J rs1 s1" by (rule copy_done.wait_next_event_inv [OF w 2(3)]) (use q in \<open>simp_all add: quiet_kernel_def\<close>)
  have sub: "subseq rs1 copy_rules" using wait_next_event_subseq [OF w] 2(4) by (rule subseq_order.trans)
  obtain result where r: "r = Inr result" using 2(2) w by (cases r) auto
  show ?case
  proof (cases "result = Exit")
    case True
    with J wait_exit_uninterested [OF w [unfolded r True] q 2(3,4)] 2(2) w r show ?thesis by simp
  next
    case False
    then show ?thesis using 2(1) [OF w [symmetric] r refl False] 2(2,5) w r J sub by simp
  qed
qed simp

section \<open>Properties\<close>

text \<open>
  C7. Nothing is lost, invented or reordered: whatever the kernel answers, in every round and even
  after an exception, the bytes read from the input are those the socket has taken followed by
  those waiting in the outbound stream, and the same holds from the socket to the output; at most
  1 MiB waits in each direction.
\<close>

theorem stream_copy_fifo:
  "let s = snd (bidirectional_stream_copy fl env input output socket) in
     from_input s = to_socket s @ bs_buffer (cp_outbound s) \<and> length (bs_buffer (cp_outbound s)) \<le> 1048576 \<and>
     from_socket s = to_output s @ bs_buffer (cp_inbound s) \<and> length (bs_buffer (cp_inbound s)) \<le> 1048576"
proof -
  obtain res rules s where l: "copy_loop env copy_rules (new_copy_state input output socket) = (res, rules, s)"
    by (metis prod_cases3)
  have "copy_inv s" by (rule copy_loop_inv [OF l _ copy_inv_new]) simp
  then have "copy_inv (snd (bidirectional_stream_copy fl env input output socket))"
    using copy_inv_new by (auto simp: bidirectional_stream_copy_def l Let_def split: prod.splits sum.splits)
  then show ?thesis by (auto simp: copy_inv_def bs_wf_def copy_buffer_size_def Let_def)
qed

text \<open>
  C6. When \<open>bidirectional_stream_copy\<close> returns, it is done: if no signal interrupted it and no
  descriptor hung up, both sources are exhausted, every byte read from the input has been written
  to the socket and every byte read from the socket to the output, the sending side of the socket
  is shut down and the output is closed.
\<close>

theorem stream_copy_complete:
  assumes "bidirectional_stream_copy fl env input output socket = (Some (Inr ()), s)"
    and "\<forall>(k, poll) \<in> set env. quiet_kernel poll"
    and "\<not> fd_closed input" "\<not> fd_closed output" "\<not> fd_closed socket"
  shows "to_socket s = from_input s \<and> to_output s = from_socket s \<and> fd_eof (cp_input s) \<and> fd_eof (cp_socket s) \<and>
    outbound_shutdown s \<and> fd_closed (cp_output s)"
proof -
  let ?s = "new_copy_state input output socket"
  obtain rules where l: "copy_loop env copy_rules ?s = (Some (Inr ()), rules, s)"
    using assms(1) by (auto simp: bidirectional_stream_copy_def Let_def split: prod.splits sum.splits)
  have "copy_ends ?s" using assms(3-5) by (simp add: copy_ends_def new_copy_state_def bs_eof_exact_new)
  then have "copy_done.J copy_rules ?s"
    by (simp add: copy_done.J_def copy_strong_def copy_inv_new distinct_copy_rules)
  from copy_loop_complete [OF l this _ assms(2)] show ?thesis using copy_quiet_complete [of rules s] by simp
qed

definition example_kernel :: "bytes \<Rightarrow> bytes \<Rightarrow> copy_kernel" where
  "example_kernel i j =
     \<lparr>k_input_read = (\<lambda>_. Sys_Ok i), k_socket_write = (\<lambda>b. Sys_Ok (length b)), k_socket_shutdown = Sys_Ok 0,
      k_socket_read = (\<lambda>_. Sys_Ok j), k_output_write = (\<lambda>b. Sys_Ok (length b)), k_output_close = Sys_Ok 0\<rparr>"

definition example_poll :: "pollfd list \<Rightarrow> poll_answer" where
  "example_poll pfds = (Sys_Ok 1, \<lambda>_. POLLIN OR POLLOUT)"

abbreviation example_env :: copy_env where
  "example_env \<equiv> [(example_kernel [7, 8] [9], example_poll), (example_kernel [] [], example_poll),
     (example_kernel [] [], example_poll), (example_kernel [] [], example_poll)]"

abbreviation example_flags :: "fcntl_replies \<times> fcntl_replies \<times> fcntl_replies" where
  "example_flags \<equiv> ((Sys_Ok 2, \<lambda>_. Sys_Ok 0), (Sys_Ok 2, \<lambda>_. Sys_Ok 0), (Sys_Ok 2, \<lambda>_. Sys_Ok 0))"

theorem stream_copy_complete_witness:
  "\<exists>s. bidirectional_stream_copy example_flags example_env example_fd example_fd example_fd = (Some (Inr ()), s) \<and>
    from_input s = [7, 8] \<and> from_socket s = [9] \<and>
    to_socket s = from_input s \<and> to_output s = from_socket s \<and> fd_eof (cp_input s) \<and> fd_eof (cp_socket s) \<and>
    outbound_shutdown s \<and> fd_closed (cp_output s)"
proof -
  let ?r = "bidirectional_stream_copy example_flags example_env example_fd example_fd example_fd"
  have r: "fst ?r = Some (Inr ())" "from_input (snd ?r) = [7, 8]" "from_socket (snd ?r) = [9]" by code_simp+
  have q: "\<forall>(k, poll) \<in> set example_env. quiet_kernel poll" by (simp add: quiet_kernel_def example_poll_def)
  from r(1) have "?r = (Some (Inr ()), snd ?r)" by (metis prod.collapse)
  from stream_copy_complete [OF this q] r this show ?thesis by auto
qed

end
