(* ===== verification/Sponge_Socket.thy ===== *)
theory Sponge_Socket
  imports Connection_Streams End_To_End Stream_Copy
begin

text \<open>
  \<open>TCPSpongeSocket\<close> (src/libsponge/tcp_helpers/tcp_sponge_socket.hh and .cc): a TCP connection, a
  datagram adapter and the local socket of the owner, driven by four rules of an \<open>EventLoop\<close>.  The
  template parameter \<open>AdaptT\<close> is a record of the operations the class uses of it.  The state also
  records what crossed the borders: bytes from and to the owner, segments from and to the adapter.
  Messages on \<open>cerr\<close> are left out.
\<close>

section \<open>State\<close>

text \<open>
  \<open>'k\<close> holds the answers of the kernel to the system calls of the adapter in one round, \<open>'a\<close> its
  state; the number tells the writes of one round apart.
\<close>

record ('k, 'a) adapter_ops =
  ao_fd :: "'a \<Rightarrow> file_descriptor"
  ao_read :: "'k \<Rightarrow> 'a \<Rightarrow> (exn + tcp_segment option) \<times> 'a"
  ao_write :: "'k \<Rightarrow> nat \<Rightarrow> 'a \<Rightarrow> tcp_segment \<Rightarrow> (exn + unit) \<times> 'a"
  ao_tick :: "'k \<Rightarrow> 'a \<Rightarrow> u64 \<Rightarrow> (exn + unit) \<times> 'a"
  ao_configure :: "'a \<Rightarrow> fd_adapter_config \<Rightarrow> 'a"
  ao_set_listening :: "'a \<Rightarrow> bool \<Rightarrow> 'a"

record 'a sponge_socket =
  sp_owner :: file_descriptor
  sp_thread_data :: file_descriptor
  sp_adapter :: 'a
  sp_tcp :: "tcp_connection option"
  sp_inbound_shutdown :: bool
  sp_outbound_shutdown :: bool
  sp_fully_acked :: bool
  sp_from_owner :: bytes
  sp_to_owner :: bytes
  sp_received :: "tcp_segment list"
  sp_sent :: "tcp_segment list"

definition new_sponge_socket :: "file_descriptor \<Rightarrow> file_descriptor \<Rightarrow> 'a \<Rightarrow> 'a sponge_socket" where
  "new_sponge_socket owner thread_data adapter =
     \<lparr>sp_owner = owner, sp_thread_data = thread_data, sp_adapter = adapter, sp_tcp = None,
      sp_inbound_shutdown = False, sp_outbound_shutdown = False, sp_fully_acked = False,
      sp_from_owner = [], sp_to_owner = [], sp_received = [], sp_sent = []\<rparr>"

text \<open>The constructor also makes the end of the thread non-blocking.\<close>

definition open_sponge_socket :: "fcntl_replies \<Rightarrow> file_descriptor \<Rightarrow> file_descriptor \<Rightarrow> 'a \<Rightarrow> exn + 'a sponge_socket" where
  "open_sponge_socket fl owner thread_data adapter =
     map_sum id (\<lambda>_. new_sponge_socket owner thread_data adapter) (set_blocking False (fst fl) (snd fl))"

abbreviation tcp_of :: "'a sponge_socket \<Rightarrow> tcp_connection" where
  "tcp_of s \<equiv> the (sp_tcp s)"

record 'k sponge_kernel =
  sk_adapter :: 'k
  sk_read :: "u64 \<Rightarrow> bytes reply"
  sk_write :: "bytes \<Rightarrow> nat reply"
  sk_shutdown :: "nat reply"

section \<open>The four rules\<close>

text \<open>Rule 1: read from the adapter into the connection.\<close>

definition datagram_callback :: "('k, 'a) adapter_ops \<Rightarrow> 'k sponge_kernel \<Rightarrow> 'a sponge_socket \<Rightarrow> (exn + unit) \<times> 'a sponge_socket" where
  "datagram_callback ops k s =
     (case ao_read ops (sk_adapter k) (sp_adapter s) of
        (Inl ex, a) \<Rightarrow> (Inl ex, s\<lparr>sp_adapter := a\<rparr>)
      | (Inr seg, a) \<Rightarrow>
          let s = s\<lparr>sp_adapter := a\<rparr>;
              s = (case seg of
                     None \<Rightarrow> s
                   | Some seg \<Rightarrow> s\<lparr>sp_tcp := Some (segment_received (tcp_of s) seg), sp_received := sp_received s @ [seg]\<rparr>);
              s = (if fd_eof (sp_thread_data s) \<and> tc_bytes_in_flight (tcp_of s) = 0 \<and> \<not> sp_fully_acked s
                   then s\<lparr>sp_fully_acked := True\<rparr> else s)
          in (Inr (), s))"

definition datagram_interest :: "'a sponge_socket \<Rightarrow> bool" where
  "datagram_interest s \<longleftrightarrow> active (tcp_of s)"

text \<open>Rule 2: read from the owner into the connection.\<close>

definition end_outgoing :: "'a sponge_socket \<Rightarrow> 'a sponge_socket" where
  "end_outgoing s = s\<lparr>sp_tcp := Some (end_input_stream (tcp_of s)), sp_outbound_shutdown := True\<rparr>"

definition owner_read_callback :: "'k sponge_kernel \<Rightarrow> 'a sponge_socket \<Rightarrow> (exn + unit) \<times> 'a sponge_socket" where
  "owner_read_callback k s =
     (let limit = remaining_outbound_capacity (tcp_of s)
      in case fd_read (sp_thread_data s) limit (sk_read k limit) of
           (Inl ex, fd) \<Rightarrow> (Inl ex, s\<lparr>sp_thread_data := fd\<rparr>)
         | (Inr data, fd) \<Rightarrow>
             let len = str_size data;
                 (tcp, amount_written) = tc_write (tcp_of s) data;
                 s = s\<lparr>sp_thread_data := fd, sp_tcp := Some tcp, sp_from_owner := sp_from_owner s @ data\<rparr>
             in if amount_written \<noteq> len
                then (Inl (Runtime_Error ''TCPConnection::write() accepted less than advertised length''), s)
                else (Inr (), if fd_eof fd then end_outgoing s else s))"

definition owner_read_interest :: "'a sponge_socket \<Rightarrow> bool" where
  "owner_read_interest s \<longleftrightarrow>
     active (tcp_of s) \<and> \<not> sp_outbound_shutdown s \<and> 0 < remaining_outbound_capacity (tcp_of s)"

text \<open>Rule 3: write from the inbound stream to the owner.\<close>

definition inbound_stream :: "tcp_connection \<Rightarrow> byte_stream" where
  "inbound_stream c = rc_stream_out (receiver c)"

definition set_inbound_stream :: "tcp_connection \<Rightarrow> byte_stream \<Rightarrow> tcp_connection" where
  "set_inbound_stream c st =
     c\<lparr>receiver := (receiver c)\<lparr>rc_reassembler := (rc_reassembler (receiver c))\<lparr>ra_output := st\<rparr>\<rparr>\<rparr>"

definition owner_write_callback :: "'k sponge_kernel \<Rightarrow> 'a sponge_socket \<Rightarrow> (exn + unit) \<times> 'a sponge_socket" where
  "owner_write_callback k s =
     (let inbound = inbound_stream (tcp_of s);
          amount_to_write = min 65536 (bs_buffer_size inbound);
          buffer = bs_peek_output inbound amount_to_write
      in case fd_write_once (sp_thread_data s) [buffer] (sk_write k buffer) of
           (Inl ex, fd) \<Rightarrow> (Inl ex, s\<lparr>sp_thread_data := fd\<rparr>)
         | (Inr bytes_written, fd) \<Rightarrow>
             let inbound = bs_pop_output inbound bytes_written;
                 s = s\<lparr>sp_thread_data := fd, sp_tcp := Some (set_inbound_stream (tcp_of s) inbound),
                       sp_to_owner := sp_to_owner s @ take (unat bytes_written) buffer\<rparr>
             in if bs_eof inbound \<or> bs_error inbound
                then case sock_shutdown fd 1 (sk_shutdown k) of
                       (Inl ex, fd) \<Rightarrow> (Inl ex, s\<lparr>sp_thread_data := fd\<rparr>)
                     | (Inr _, fd) \<Rightarrow> (Inr (), s\<lparr>sp_thread_data := fd, sp_inbound_shutdown := True\<rparr>)
                else (Inr (), s))"

definition owner_write_interest :: "'a sponge_socket \<Rightarrow> bool" where
  "owner_write_interest s \<longleftrightarrow>
     \<not> bs_buffer_empty (inbound_stream (tcp_of s)) \<or>
     (bs_eof (inbound_stream (tcp_of s)) \<or> bs_error (inbound_stream (tcp_of s))) \<and> \<not> sp_inbound_shutdown s"

text \<open>Rule 4: give the queued segments to the adapter, popping each one once it is written.\<close>

fun send_segments :: "('k, 'a) adapter_ops \<Rightarrow> 'k \<Rightarrow> nat \<Rightarrow> tcp_segment list \<Rightarrow> 'a sponge_socket \<Rightarrow> (exn + unit) \<times> 'a sponge_socket" where
  "send_segments ops k i [] s = (Inr (), s)"
| "send_segments ops k i (seg # segs) s =
     (case ao_write ops k i (sp_adapter s) seg of
        (Inl ex, a) \<Rightarrow> (Inl ex, s\<lparr>sp_adapter := a\<rparr>)
      | (Inr _, a) \<Rightarrow>
          send_segments ops k (Suc i) segs
            (s\<lparr>sp_adapter := a, sp_tcp := Some ((tcp_of s)\<lparr>segments_out := segs\<rparr>), sp_sent := sp_sent s @ [seg]\<rparr>))"

definition segment_callback :: "('k, 'a) adapter_ops \<Rightarrow> 'k sponge_kernel \<Rightarrow> 'a sponge_socket \<Rightarrow> (exn + unit) \<times> 'a sponge_socket" where
  "segment_callback ops k s = send_segments ops (sk_adapter k) 0 (segments_out (tcp_of s)) s"

definition segment_interest :: "'a sponge_socket \<Rightarrow> bool" where
  "segment_interest s \<longleftrightarrow> segments_out (tcp_of s) \<noteq> []"

definition sponge_rules :: "('k, 'a) adapter_ops \<Rightarrow> ('k sponge_kernel, 'a sponge_socket) rule list" where
  "sponge_rules ops =
     (let nothing = (\<lambda>s. (Inr (), s));
          rules = add_rule [] (\<lambda>s. ao_fd ops (sp_adapter s)) In (datagram_callback ops) datagram_interest nothing;
          rules = add_rule rules sp_thread_data In owner_read_callback owner_read_interest (\<lambda>s. (Inr (), end_outgoing s));
          rules = add_rule rules sp_thread_data Out owner_write_callback owner_write_interest nothing
      in add_rule rules (\<lambda>s. ao_fd ops (sp_adapter s)) Out (segment_callback ops) segment_interest nothing)"

section \<open>The loop and the public operations\<close>

text \<open>
  The environment of one round of the loop: the answers of the kernel, the answer to \<open>poll(2)\<close>,
  whether the owner has set \<open>_abort\<close>, and the clock afterwards.  A result of \<open>None\<close> means that the
  loop is still running.
\<close>

record 'k tcp_round =
  tr_kernel :: "'k sponge_kernel"
  tr_poll :: "pollfd list \<Rightarrow> poll_answer"
  tr_abort :: bool
  tr_time :: u64

definition loop_tick :: "('k, 'a) adapter_ops \<Rightarrow> 'k \<Rightarrow> u64 \<Rightarrow> 'a sponge_socket \<Rightarrow> (exn + unit) \<times> 'a sponge_socket" where
  "loop_tick ops k ms s =
     (let s = s\<lparr>sp_tcp := Some (tc_tick (tcp_of s) ms)\<rparr>
      in case ao_tick ops k (sp_adapter s) ms of (r, a) \<Rightarrow> (r, s\<lparr>sp_adapter := a\<rparr>))"

type_synonym ('k, 'a) sponge_rules = "('k sponge_kernel, 'a sponge_socket) rule list"

fun tcp_loop :: "('k, 'a) adapter_ops \<Rightarrow> ('a sponge_socket \<Rightarrow> bool) \<Rightarrow> 'k tcp_round list \<Rightarrow> u64 \<Rightarrow> ('k, 'a) sponge_rules
    \<Rightarrow> 'a sponge_socket \<Rightarrow> (exn + unit) option \<times> ('k, 'a) sponge_rules \<times> 'a sponge_socket" where
  "tcp_loop ops condition [] base_time rules s = (if condition s then None else Some (Inr ()), rules, s)"
| "tcp_loop ops condition (rd # rds) base_time rules s =
     (if \<not> condition s then (Some (Inr ()), rules, s)
      else case wait_next_event (tr_kernel rd) (tr_poll rd) rules s of
        (Inl ex, rules, s) \<Rightarrow> (Some (Inl ex), rules, s)
      | (Inr ret, rules, s) \<Rightarrow>
          if ret = Exit \<or> tr_abort rd then (Some (Inr ()), rules, s)
          else if active (tcp_of s)
          then case loop_tick ops (sk_adapter (tr_kernel rd)) (tr_time rd - base_time) s of
                 (Inl ex, s) \<Rightarrow> (Some (Inl ex), rules, s)
               | (Inr _, s) \<Rightarrow> tcp_loop ops condition rds (tr_time rd) rules s
          else tcp_loop ops condition rds base_time rules s)"

definition initialize_TCP :: "tcp_config \<Rightarrow> u32 \<Rightarrow> 'a sponge_socket \<Rightarrow> 'a sponge_socket" where
  "initialize_TCP config rnd s = s\<lparr>sp_tcp := Some (new_tcp_connection config rnd)\<rparr>"

definition in_state :: "official_state \<Rightarrow> 'a sponge_socket \<Rightarrow> bool" where
  "in_state st s \<longleftrightarrow> tcp_state_eq (tc_state (tcp_of s)) (official_tcp_state st)"

definition sponge_connect :: "('k, 'a) adapter_ops \<Rightarrow> 'k tcp_round list \<Rightarrow> u64 \<Rightarrow> tcp_config \<Rightarrow> u32 \<Rightarrow> fd_adapter_config
    \<Rightarrow> 'a sponge_socket \<Rightarrow> (exn + unit) option \<times> ('k, 'a) sponge_rules \<times> 'a sponge_socket" where
  "sponge_connect ops rds base_time c_tcp rnd c_ad s =
     (if sp_tcp s \<noteq> None
      then (Some (Inl (Runtime_Error ''connect() with TCPConnection already initialized'')), sponge_rules ops, s)
      else
        let s = initialize_TCP c_tcp rnd s;
            s = s\<lparr>sp_adapter := ao_configure ops (sp_adapter s) c_ad\<rparr>;
            s = s\<lparr>sp_tcp := Some (connect (tcp_of s))\<rparr>
        in if \<not> in_state SYN_SENT s
           then (Some (Inl (Runtime_Error (''After TCPConnection::connect(), state was '' @ tcp_state_name (tc_state (tcp_of s)) @
                   '' but expected '' @ tcp_state_name (official_tcp_state SYN_SENT)))), sponge_rules ops, s)
           else tcp_loop ops (in_state SYN_SENT) rds base_time (sponge_rules ops) s)"

definition listen_and_accept :: "('k, 'a) adapter_ops \<Rightarrow> 'k tcp_round list \<Rightarrow> u64 \<Rightarrow> tcp_config \<Rightarrow> u32 \<Rightarrow> fd_adapter_config
    \<Rightarrow> 'a sponge_socket \<Rightarrow> (exn + unit) option \<times> ('k, 'a) sponge_rules \<times> 'a sponge_socket" where
  "listen_and_accept ops rds base_time c_tcp rnd c_ad s =
     (if sp_tcp s \<noteq> None
      then (Some (Inl (Runtime_Error ''listen_and_accept() with TCPConnection already initialized'')), sponge_rules ops, s)
      else
        let s = initialize_TCP c_tcp rnd s;
            s = s\<lparr>sp_adapter := ao_set_listening ops (ao_configure ops (sp_adapter s) c_ad) True\<rparr>
        in tcp_loop ops (\<lambda>s. in_state LISTEN s \<or> in_state SYN_RCVD s \<or> in_state SYN_SENT s) rds base_time (sponge_rules ops) s)"

definition tcp_main :: "('k, 'a) adapter_ops \<Rightarrow> 'k tcp_round list \<Rightarrow> u64 \<Rightarrow> nat reply \<Rightarrow> ('k, 'a) sponge_rules
    \<Rightarrow> 'a sponge_socket \<Rightarrow> (exn + unit) option \<times> 'a sponge_socket" where
  "tcp_main ops rds base_time r rules s =
     (if sp_tcp s = None then (Some (Inl (Runtime_Error ''no TCP'')), s)
      else case tcp_loop ops (\<lambda>_. True) rds base_time rules s of
        (None, _, s) \<Rightarrow> (None, s)
      | (Some (Inl ex), _, s) \<Rightarrow> (Some (Inl ex), s)
      | (Some (Inr _), _, s) \<Rightarrow>
          (case sock_shutdown (sp_owner s) 2 r of
             (Inl ex, fd) \<Rightarrow> (Some (Inl ex), s\<lparr>sp_owner := fd\<rparr>)
           | (Inr _, fd) \<Rightarrow> (Some (Inr ()), s\<lparr>sp_owner := fd, sp_tcp := None\<rparr>)))"

section \<open>The socket only drives its connection\<close>

text \<open>
  The operations of an endpoint, as in \<^const>\<open>ep_step\<close>, but without any condition on the
  peer or on what is written.
\<close>

inductive ep_op :: "tcp_segment set \<Rightarrow> endpoint \<Rightarrow> endpoint \<Rightarrow> bool" where
  call: "tc_local x \<Longrightarrow> tc_exec (ep_conn e, ep_written e) x = (c, S) \<Longrightarrow> ep_op N e (e\<lparr>ep_conn := c, ep_written := S\<rparr>)"
| receive: "seg \<in> N \<Longrightarrow> ep_op N e (e\<lparr>ep_conn := segment_received (ep_conn e) seg\<rparr>)"
| read: "tc_read (ep_conn e) n = (c, got) \<Longrightarrow> ep_op N e (e\<lparr>ep_conn := c, ep_read := ep_read e @ got\<rparr>)"
| send: "segments_out (ep_conn e) = seg # segs \<Longrightarrow>
    ep_op N e (e\<lparr>ep_conn := (ep_conn e)\<lparr>segments_out := segs\<rparr>, ep_sent := insert seg (ep_sent e)\<rparr>)"

lemma ep_step_op: "ep_step N e e' \<Longrightarrow> ep_op N e e'"
  by (erule ep_stepE) (auto intro: ep_op.intros)

abbreviation ep_run :: "tcp_segment set \<Rightarrow> endpoint \<Rightarrow> endpoint \<Rightarrow> bool" where
  "ep_run N \<equiv> (ep_op N)\<^sup>*\<^sup>*"

lemma ep_run_mono: "ep_run N e e' \<Longrightarrow> N \<subseteq> N' \<Longrightarrow> ep_run N' e e'"
  by (erule rtranclp_mono [THEN predicate2D, rotated]) (auto elim!: ep_op.cases intro: ep_op.intros)

definition sock_ep :: "'a sponge_socket \<Rightarrow> endpoint" where
  "sock_ep s = \<lparr>ep_conn = tcp_of s, ep_written = sp_from_owner s, ep_read = sp_to_owner s, ep_sent = set (sp_sent s)\<rparr>"

definition sp_ok :: "'a sponge_socket \<Rightarrow> bool" where
  "sp_ok s \<longleftrightarrow> sp_tcp s \<noteq> None \<and> tc_safe (tcp_of s)"

text \<open>One piece of work of the socket, in terms of its connection.\<close>

definition sp_step :: "'a sponge_socket \<Rightarrow> 'a sponge_socket \<Rightarrow> bool" where
  "sp_step s s' \<longleftrightarrow> sp_ok s' \<and> set (sp_received s) \<subseteq> set (sp_received s') \<and> ep_run (set (sp_received s')) (sock_ep s) (sock_ep s')"

definition sp_inv :: "endpoint \<Rightarrow> 'a sponge_socket \<Rightarrow> bool" where
  "sp_inv e s \<longleftrightarrow> sp_ok s \<and> ep_run (set (sp_received s)) e (sock_ep s)"

lemma sp_inv_step: "\<lbrakk>sp_inv e s; sp_step s s'\<rbrakk> \<Longrightarrow> sp_inv e s'"
  unfolding sp_inv_def sp_step_def using ep_run_mono rtranclp_trans by metis

lemma sp_step_refl: "\<lbrakk>sp_ok s'; sock_ep s' = sock_ep s; sp_received s' = sp_received s\<rbrakk> \<Longrightarrow> sp_step s s'"
  by (simp add: sp_step_def)

lemma sp_step_trans: "\<lbrakk>sp_step s s'; sp_step s' s''\<rbrakk> \<Longrightarrow> sp_step s s''"
  unfolding sp_step_def using ep_run_mono rtranclp_trans by (metis order_trans)

lemma sp_step_op:
  "\<lbrakk>sp_ok s'; set (sp_received s) \<subseteq> set (sp_received s'); ep_op (set (sp_received s')) (sock_ep s) (sock_ep s')\<rbrakk> \<Longrightarrow> sp_step s s'"
  by (simp add: sp_step_def r_into_rtranclp)

text \<open>A call of the connection.\<close>

lemma sp_step_call:
  assumes "sp_ok s" "tc_local x" "tc_sized x" "tc_exec (tcp_of s, sp_from_owner s) x = (c, S)"
    and "sp_tcp s' = Some c" "sp_from_owner s' = S" "sp_to_owner s' = sp_to_owner s" "sp_sent s' = sp_sent s" "sp_received s' = sp_received s"
  shows "sp_step s s'"
proof (rule sp_step_op)
  show "sp_ok s'" using tc_safe_exec [of "tcp_of s" x "sp_from_owner s"] assms by (simp add: sp_ok_def)
  show "ep_op (set (sp_received s')) (sock_ep s) (sock_ep s')"
    using ep_op.call [OF assms(2), of "sock_ep s" c S] assms by (simp add: sock_ep_def)
qed (simp add: assms)

lemma datagram_callback_step:
  assumes "sp_ok s"
  shows "sp_step s (snd (datagram_callback ops k s))"
proof -
  obtain res a where r: "ao_read ops (sk_adapter k) (sp_adapter s) = (res, a)" by (cases "ao_read ops (sk_adapter k) (sp_adapter s)")
  show ?thesis
  proof (cases "\<exists>seg. res = Inr (Some seg)")
    case True
    then obtain seg where "res = Inr (Some seg)" by blast
    then have e: "sock_ep (snd (datagram_callback ops k s)) = (sock_ep s)\<lparr>ep_conn := segment_received (ep_conn (sock_ep s)) seg\<rparr>"
      "sp_received (snd (datagram_callback ops k s)) = sp_received s @ [seg]" "sp_ok (snd (datagram_callback ops k s))"
      using assms r by (auto simp: datagram_callback_def Let_def sock_ep_def sp_ok_def tc_safe_segment_received)
    show ?thesis by (rule sp_step_op) (auto simp: e intro: ep_op.receive)
  next
    case False
    then show ?thesis using assms r
      by (intro sp_step_refl) (auto simp: datagram_callback_def Let_def sock_ep_def sp_ok_def split: sum.splits option.splits)
  qed
qed

lemma end_outgoing_step: "sp_ok s \<Longrightarrow> sp_step s (end_outgoing s)"
  by (rule sp_step_call [where x = TEnd]) (simp_all add: end_outgoing_def)

lemma tc_write_all:
  assumes "tc_safe c" "length data \<le> unat (remaining_outbound_capacity c)"
  shows "snd (tc_write c data) = str_size data"
proof -
  have wf: "bs_wf (sd_stream (sender c))" using assms(1) by (simp add: tc_safe_def)
  have len: "length data \<le> bs_room (sd_stream (sender c))" "length data < two64"
    using assms(2) unat_bs_remaining_capacity [OF wf] unat_u64_less [of "remaining_outbound_capacity c"]
    by (simp_all add: remaining_outbound_capacity_def)
  then show ?thesis by (simp add: tc_write_def sd_write_stream_def split_beta bs_write_eq [OF wf] Let_def)
qed

lemma owner_read_callback_step:
  assumes "sp_ok s"
  shows "sp_step s (snd (owner_read_callback k s))"
    and "fst (owner_read_callback k s) \<noteq> Inl (Runtime_Error ''TCPConnection::write() accepted less than advertised length'')"
proof -
  let ?limit = "remaining_outbound_capacity (tcp_of s)"
  obtain res fd where r: "fd_read (sp_thread_data s) ?limit (sk_read k ?limit) = (res, fd)"
    by (cases "fd_read (sp_thread_data s) ?limit (sk_read k ?limit)")
  have "sp_step s (snd (owner_read_callback k s)) \<and>
    fst (owner_read_callback k s) \<noteq> Inl (Runtime_Error ''TCPConnection::write() accepted less than advertised length'')"
  proof (cases res)
    case (Inl ex)
    then show ?thesis using assms r fd_read_exn [OF r [unfolded Inl]]
      by (auto simp: owner_read_callback_def Let_def intro!: sp_step_refl) (simp_all add: sock_ep_def sp_ok_def)
  next
    case (Inr data)
    obtain tcp n where w: "tc_write (tcp_of s) data = (tcp, n)" by (cases "tc_write (tcp_of s) data")
    have len: "length data \<le> unat ?limit" using fd_read_ok(1) [OF r [unfolded Inr]] .
    then have n: "n = str_size data" "length data < two64" "take (unat n) data = data"
      using tc_write_all [of "tcp_of s" data] assms w unat_u64_less [of ?limit] by (auto simp: sp_ok_def unat_str_size)
    let ?s = "s\<lparr>sp_thread_data := fd, sp_tcp := Some tcp, sp_from_owner := sp_from_owner s @ data\<rparr>"
    have 1: "sp_step s ?s"
      by (rule sp_step_call [OF assms, where x = "TWrite data"]) (use n in \<open>simp_all add: w unat_str_size\<close>)
    then have "sp_step s (end_outgoing ?s)" using end_outgoing_step sp_step_trans by (metis sp_step_def)
    with 1 show ?thesis using Inr r w n(1) by (simp add: owner_read_callback_def Let_def)
  qed
  then show "sp_step s (snd (owner_read_callback k s))"
    "fst (owner_read_callback k s) \<noteq> Inl (Runtime_Error ''TCPConnection::write() accepted less than advertised length'')" by blast+
qed

text \<open>Writing to the owner is a read of the inbound stream.\<close>

lemma tc_read_inbound:
  assumes "bs_wf (inbound_stream c)"
  shows "tc_read c n = (set_inbound_stream c (bs_pop_output (inbound_stream c) n), take (unat n) (bs_buffer (inbound_stream c)))"
  using assms
  by (simp add: tc_read_def rc_read_out_def ra_read_out_def set_inbound_stream_def inbound_stream_def rc_stream_out_def
      bs_read_eq split_beta)

lemma owner_write_callback_step:
  assumes "sp_ok s"
  shows "sp_step s (snd (owner_write_callback k s))"
proof -
  let ?in = "inbound_stream (tcp_of s)"
  have wf: "bs_wf ?in" using assms by (simp add: sp_ok_def tc_safe_def ra_safe_def inbound_stream_def rc_stream_out_def)
  obtain res fd st where c: "copy_out (sp_thread_data s) ?in (sk_write k) = (res, fd, st)" by (metis prod_cases3)
  show ?thesis
  proof (cases res)
    case (Inl ex)
    then show ?thesis using assms c
      by (intro sp_step_refl) (auto simp: owner_write_callback_def copy_out_def max_copy_length_def Let_def sock_ep_def sp_ok_def
          split: prod.splits sum.splits)
  next
    case (Inr bs)
    then obtain n where n: "bs = take (unat n) (bs_buffer ?in)" "st = bs_pop_output ?in n" using copy_out_taken [OF _ wf] c by blast
    have e: "sock_ep (snd (owner_write_callback k s)) =
      (sock_ep s)\<lparr>ep_conn := set_inbound_stream (tcp_of s) st, ep_read := ep_read (sock_ep s) @ bs\<rparr>"
      "sp_received (snd (owner_write_callback k s)) = sp_received s" "sp_tcp (snd (owner_write_callback k s)) = Some (set_inbound_stream (tcp_of s) st)"
      using c Inr by (auto simp: owner_write_callback_def copy_out_def max_copy_length_def Let_def sock_ep_def split: prod.splits sum.splits)
    have rd: "tc_read (tcp_of s) n = (set_inbound_stream (tcp_of s) st, bs)" using tc_read_inbound [OF wf] n by simp
    then have "tc_safe (set_inbound_stream (tcp_of s) st)"
      using tc_safe_exec [of "tcp_of s" "TRead n" "[]"] assms by (simp add: sp_ok_def)
    then show ?thesis
      using ep_op.read [of "sock_ep s" n _ _ "set (sp_received s)"] rd
      by (intro sp_step_op) (simp_all add: e sp_ok_def sock_ep_def [of s])
  qed
qed

lemma send_segments_step:
  "\<lbrakk>sp_ok s; segments_out (tcp_of s) = segs\<rbrakk> \<Longrightarrow> sp_step s (snd (send_segments ops k i segs s))"
proof (induction segs arbitrary: i s)
  case Nil
  then show ?case by (simp add: sp_step_refl)
next
  case (Cons seg segs)
  obtain res a where w: "ao_write ops k i (sp_adapter s) seg = (res, a)" by (cases "ao_write ops k i (sp_adapter s) seg")
  let ?s = "s\<lparr>sp_adapter := a, sp_tcp := Some ((tcp_of s)\<lparr>segments_out := segs\<rparr>), sp_sent := sp_sent s @ [seg]\<rparr>"
  show ?case
  proof (cases res)
    case (Inl ex)
    then show ?thesis using Cons.prems(1) w by (simp add: sp_step_refl sp_ok_def sock_ep_def)
  next
    case (Inr u)
    have "sp_step s ?s"
      using Cons.prems ep_op.send [of "sock_ep s" seg segs "set (sp_received s)"]
      by (intro sp_step_op) (simp_all add: sp_ok_def tc_safe_def sock_ep_def)
    moreover have "sp_step ?s (snd (send_segments ops k (Suc i) segs ?s))"
      using Cons.IH [of ?s] \<open>sp_step s ?s\<close> by (simp add: sp_step_def)
    ultimately show ?thesis using sp_step_trans Inr w by simp
  qed
qed

lemma sponge_rule_step:
  assumes "sp_ok s" "r \<in> set (sponge_rules ops)"
  shows "sp_step s (snd (r_callback r k s))" "sp_step s (snd (r_cancel r s))"
  using assms datagram_callback_step owner_read_callback_step(1) owner_write_callback_step end_outgoing_step
    send_segments_step [OF assms(1) refl] sp_step_refl [OF assms(1) refl refl]
  by (auto simp: sponge_rules_def add_rule_def segment_callback_def Let_def)

interpretation sponge: event_inv "sponge_rules ops" "\<lambda>_. True" "sp_inv e" for ops :: "('k, 'a) adapter_ops" and e
proof unfold_locales
  fix r k and s :: "'a sponge_socket"
  assume r: "r \<in> set (sponge_rules ops)" and s: "sp_inv e s"
  then have "sp_ok s" by (simp add: sp_inv_def)
  then show "sp_inv e (snd (r_callback r k s))" "sp_inv e (snd (r_cancel r s))"
    using sp_inv_step [OF s] sponge_rule_step r by blast+
qed

lemma loop_tick_step:
  assumes "sp_ok s"
  shows "sp_step s (snd (loop_tick ops k ms s))"
  by (rule sp_step_call [OF assms, where x = "TTick ms"]) (simp_all add: loop_tick_def Let_def split: prod.splits)

lemma tcp_loop_inv:
  assumes "tcp_loop ops cond rds t rules s = (res, rules', s')" "set rules \<subseteq> set (sponge_rules ops)" "sp_inv e s"
  shows "sp_inv e s' \<and> set rules' \<subseteq> set (sponge_rules ops)"
  using assms
proof (induction rds arbitrary: t rules s)
  case (Cons rd rds)
  obtain r rs1 s1 where w: "wait_next_event (tr_kernel rd) (tr_poll rd) rules s = (r, rs1, s1)" by (metis prod_cases3)
  have 1: "sp_inv e s1" "set rs1 \<subseteq> set (sponge_rules ops)"
    using sponge.wait_next_event_kept [OF w Cons.prems(2) _ Cons.prems(3)] by simp_all
  obtain tr s2 where tk: "loop_tick ops (sk_adapter (tr_kernel rd)) (tr_time rd - t) s1 = (tr, s2)"
    by (cases "loop_tick ops (sk_adapter (tr_kernel rd)) (tr_time rd - t) s1")
  have 2: "sp_inv e s2" using sp_inv_step [OF 1(1)] loop_tick_step [of s1 ops] 1(1) tk by (metis snd_conv sp_inv_def)
  show ?case using Cons.prems w tk 1 2 Cons.IH [of t rs1 s1] Cons.IH [of "tr_time rd" rs1 s2]
    by (auto split: if_splits sum.splits)
qed auto

section \<open>The TUN adapter as template argument\<close>

record tun_device =
  td_fd :: file_descriptor
  td_base :: fd_adapter
  td_written :: "bytes list list"

record tun_kernel =
  tk_read :: "bytes reply"
  tk_write :: "nat \<Rightarrow> nat \<Rightarrow> nat reply"

definition tun_device_read :: "tun_kernel \<Rightarrow> tun_device \<Rightarrow> (exn + tcp_segment option) \<times> tun_device" where
  "tun_device_read k d =
     (case fd_read (td_fd d) (- 1) (tk_read k) of
        (Inl ex, fd) \<Rightarrow> (Inl ex, d\<lparr>td_fd := fd\<rparr>)
      | (Inr data, fd) \<Rightarrow> (case tun_read (td_base d) data of (r, a) \<Rightarrow> (r, d\<lparr>td_fd := fd, td_base := a\<rparr>)))"

text \<open>
  The whole datagram is written; as many answers as bytes plus one are always enough.  \<open>td_written\<close>
  holds for each datagram the pieces that the kernel has taken.
\<close>

definition tun_device_write :: "tun_kernel \<Rightarrow> nat \<Rightarrow> tun_device \<Rightarrow> tcp_segment \<Rightarrow> (exn + unit) \<times> tun_device" where
  "tun_device_write k i d seg =
     (case tun_write (td_base d) seg of
        Inl ex \<Rightarrow> (Inl ex, d)
      | Inr bl \<Rightarrow>
          (case fd_write_traced (map (tk_write k i) [0..<Suc (length (concat bl))]) True (td_fd d) (bvl_of_buffers bl) 0 of
             (res, taken) \<Rightarrow>
               (case the res of (r, fd) \<Rightarrow>
                  (map_sum id (\<lambda>_. ()) r, d\<lparr>td_fd := fd, td_written := td_written d @ [taken]\<rparr>))))"

definition tun_ops :: "(tun_kernel, tun_device) adapter_ops" where
  "tun_ops =
     \<lparr>ao_fd = td_fd, ao_read = tun_device_read, ao_write = tun_device_write, ao_tick = (\<lambda>k d ms. (Inr (), d)),
      ao_configure = (\<lambda>d cfg. d\<lparr>td_base := (td_base d)\<lparr>ad_cfg := cfg\<rparr>\<rparr>),
      ao_set_listening = (\<lambda>d l. d\<lparr>td_base := set_listening (td_base d) l\<rparr>)\<rparr>"

section \<open>Properties\<close>

lemma connect_syn_sent: "tcp_state_eq (tc_state (connect (new_tcp_connection cf rnd))) (official_tcp_state SYN_SENT)"
  by (simp add: tcp_state_eq_def tc_state_def tcp_state_of_def connect_def new_tcp_connection_def new_tcp_sender_def
      new_tcp_receiver_def fill_window_def sd_emit_def syn_segment_def flush_sender_def stamp_def Let_def
      state_summary_sender_def state_summary_receiver_def rc_ackno_def rc_stream_out_def new_stream_reassembler_def
      bs_error_def length_in_sequence_space_def new_tcp_header_def new_tcp_segment_def)

lemma sponge_open_inv:
  assumes "opened = sponge_connect ops rds t cf rnd ac (new_sponge_socket own thr a) \<or>
           opened = listen_and_accept ops rds t cf rnd ac (new_sponge_socket own thr a)"
    and "opened = (res, rules, s)"
  shows "sp_inv (new_endpoint cf rnd) s \<and> set rules \<subseteq> set (sponge_rules ops)"
proof -
  let ?e = "new_endpoint cf rnd"
  define s0 where "s0 = initialize_TCP cf rnd (new_sponge_socket own thr a)"
  have 0: "sp_inv ?e (s0\<lparr>sp_adapter := x\<rparr>)" for x
    by (simp add: s0_def sp_inv_def sp_ok_def initialize_TCP_def new_sponge_socket_def tc_safe_new sock_ep_def new_endpoint_def)
  have 1: "sp_inv ?e (s0\<lparr>sp_adapter := x, sp_tcp := Some (connect (tcp_of s0))\<rparr>)" for x
    by (rule sp_inv_step [OF 0 [of x]], rule sp_step_call [where x = TConnect]) (use 0 [of x] in \<open>simp_all add: sp_inv_def\<close>)
  have none: "sp_tcp (new_sponge_socket own thr a) = None" by (simp add: new_sponge_socket_def)
  from assms(1) show ?thesis
  proof
    assume "opened = sponge_connect ops rds t cf rnd ac (new_sponge_socket own thr a)"
    then have "tcp_loop ops (in_state SYN_SENT) rds t (sponge_rules ops)
        (s0\<lparr>sp_adapter := ao_configure ops (sp_adapter s0) ac, sp_tcp := Some (connect (tcp_of s0))\<rparr>) = (res, rules, s) \<or>
      rules = sponge_rules ops \<and> s = s0\<lparr>sp_adapter := ao_configure ops (sp_adapter s0) ac, sp_tcp := Some (connect (tcp_of s0))\<rparr>"
      using assms(2) by (auto simp: sponge_connect_def none Let_def s0_def [symmetric] split: if_splits)
    then show ?thesis using tcp_loop_inv [OF _ subset_refl 1] 1 by blast
  next
    assume "opened = listen_and_accept ops rds t cf rnd ac (new_sponge_socket own thr a)"
    then have "tcp_loop ops (\<lambda>s. in_state LISTEN s \<or> in_state SYN_RCVD s \<or> in_state SYN_SENT s) rds t (sponge_rules ops)
        (s0\<lparr>sp_adapter := ao_set_listening ops (ao_configure ops (sp_adapter s0) ac) True\<rparr>) = (res, rules, s)"
      using assms(2) by (simp add: listen_and_accept_def none Let_def s0_def [symmetric])
    then show ?thesis by (rule tcp_loop_inv [OF _ subset_refl 0])
  qed
qed

text \<open>
  C4. A socket is a TCP connection and nothing else: whatever the kernel and the adapter answer, a
  socket that connects or listens and then runs its main loop for any number of rounds has taken
  its connection from the initial state through a sequence of operations of \<open>TCPConnection\<close> only.
  The bytes written to the connection are those read from the owner, the bytes the owner got are
  those read from it, in order, the segments delivered to it are those the adapter returned, and
  the segments given to the adapter are those taken from its queue.
\<close>

theorem socket_refines_connection:
  assumes "opened = sponge_connect ops rds t cf rnd ac (new_sponge_socket own thr a) \<or>
           opened = listen_and_accept ops rds t cf rnd ac (new_sponge_socket own thr a)"
    and "opened = (res, rules, s)"
    and "tcp_loop ops cond rds' t' rules s = (res', rules', s')"
  shows "(ep_op (set (sp_received s')))\<^sup>*\<^sup>* (new_endpoint cf rnd)
    \<lparr>ep_conn = the (sp_tcp s'), ep_written = sp_from_owner s', ep_read = sp_to_owner s', ep_sent = set (sp_sent s')\<rparr>"
proof -
  have "sp_inv (new_endpoint cf rnd) s'"
    using sponge_open_inv [OF assms(1,2)] tcp_loop_inv [OF assms(3)] by blast
  then show ?thesis by (simp add: sp_inv_def sock_ep_def)
qed

text \<open>
  C20. The two consistency checks of the class never fire: after \<open>TCPConnection::connect()\<close> the
  connection is in state \<open>SYN_SENT\<close>, and in every state that a socket reaches,
  \<open>TCPConnection::write()\<close> accepts all the bytes read from the owner, because no more are read than
  the connection has room for.
\<close>

theorem socket_checks_never_fire:
  assumes "opened = sponge_connect ops rds t cf rnd ac (new_sponge_socket own thr a) \<or>
           opened = listen_and_accept ops rds t cf rnd ac (new_sponge_socket own thr a)"
    and "opened = (res, rules, s)"
    and "tcp_loop ops cond rds' t' rules s = (res', rules', s')"
  shows "tcp_state_eq (tc_state (connect (new_tcp_connection cf rnd))) (official_tcp_state SYN_SENT) \<and>
    fst (owner_read_callback k s') \<noteq> Inl (Runtime_Error ''TCPConnection::write() accepted less than advertised length'')"
proof -
  have "sp_inv (new_endpoint cf rnd) s'"
    using sponge_open_inv [OF assms(1,2)] tcp_loop_inv [OF assms(3)] by blast
  then show ?thesis using owner_read_callback_step(2) connect_syn_sent by (auto simp: sp_inv_def)
qed

definition example_device :: tun_device where
  "example_device = \<lparr>td_fd = example_fd, td_base = new_fd_adapter, td_written = []\<rparr>"

definition example_round :: "tun_kernel tcp_round" where
  "example_round =
     \<lparr>tr_kernel = \<lparr>sk_adapter = \<lparr>tk_read = Sys_Err 11, tk_write = (\<lambda>_ _. Sys_Ok 40)\<rparr>, sk_read = (\<lambda>_. Sys_Ok [7]),
        sk_write = (\<lambda>b. Sys_Ok (length b)), sk_shutdown = Sys_Ok 0\<rparr>,
      tr_poll = (\<lambda>_. (Sys_Ok 1, \<lambda>_. POLLOUT)), tr_abort = False, tr_time = 10\<rparr>"

abbreviation example_opened where
  "example_opened \<equiv> sponge_connect tun_ops [example_round] 0 example_config 0 (ad_cfg example_adapter) (new_sponge_socket example_fd example_fd example_device)"

lemma example_opened_sent: "map (syn \<circ> seg_header) (sp_sent (snd (snd example_opened))) = [True]"
  by code_simp

theorem socket_refines_connection_witness:
  "let s = snd (snd example_opened) in
     map (syn \<circ> seg_header) (sp_sent s) = [True] \<and>
     (ep_op (set (sp_received s)))\<^sup>*\<^sup>* (new_endpoint example_config 0)
       \<lparr>ep_conn = the (sp_tcp s), ep_written = sp_from_owner s, ep_read = sp_to_owner s, ep_sent = set (sp_sent s)\<rparr>"
proof -
  obtain res rules s where o: "example_opened = (res, rules, s)" by (metis prod_cases3)
  have l: "tcp_loop tun_ops (\<lambda>_. True) [] 10 rules s = (None, rules, s)" by simp
  from socket_refines_connection [OF disjI1 [OF refl] o l] example_opened_sent show ?thesis by (simp only: o Let_def snd_conv)
qed

theorem socket_checks_never_fire_witness:
  "let s = snd (snd example_opened) in
     fst (owner_read_callback (tr_kernel example_round) s) = Inr () \<and>
     tcp_state_eq (tc_state (connect (new_tcp_connection example_config 0))) (official_tcp_state SYN_SENT) \<and>
     fst (owner_read_callback (tr_kernel example_round) s) \<noteq>
       Inl (Runtime_Error ''TCPConnection::write() accepted less than advertised length'')"
proof -
  obtain res rules s where o: "example_opened = (res, rules, s)" by (metis prod_cases3)
  have l: "tcp_loop tun_ops (\<lambda>_. True) [] 10 rules s = (None, rules, s)" by simp
  have "fst (owner_read_callback (tr_kernel example_round) (snd (snd example_opened))) = Inr ()" by code_simp
  then have "fst (owner_read_callback (tr_kernel example_round) s) = Inr ()" by (simp only: o snd_conv)
  from conjI [OF this socket_checks_never_fire [OF disjI1 [OF refl] o l]] show ?thesis
    unfolding o Let_def snd_conv .
qed

end
