(* ===== verification/Router.thy ===== *)
theory Router
  imports Network_Interface
begin

text \<open>
  \<open>AsyncNetworkInterface\<close> and \<open>Router\<close> (src/libsponge/router.hh and .cc): a routing table sorted by
  prefix length, and the loop that forwards every datagram received by any interface.
\<close>

section \<open>The classes\<close>

record route =
  route_prefix :: u32
  prefix_length :: u8
  next_hop :: "u32 option"
  interface_num :: u64

record async_interface =
  ai_interface :: network_interface
  datagrams_out :: "ipv4_datagram list"

definition new_async_interface :: "network_interface \<Rightarrow> async_interface" where
  "new_async_interface ni = \<lparr>ai_interface = ni, datagrams_out = []\<rparr>"

definition ai_recv_frame :: "async_interface \<Rightarrow> ethernet_frame \<Rightarrow> (exn + unit) \<times> async_interface" where
  "ai_recv_frame ai frame =
     (case recv_frame (ai_interface ai) frame of
        (Inl ex, ni) \<Rightarrow> (Inl ex, ai\<lparr>ai_interface := ni\<rparr>)
      | (Inr None, ni) \<Rightarrow> (Inr (), ai\<lparr>ai_interface := ni\<rparr>)
      | (Inr (Some dgram), ni) \<Rightarrow> (Inr (), ai\<lparr>ai_interface := ni, datagrams_out := datagrams_out ai @ [dgram]\<rparr>))"

record router =
  interfaces :: "async_interface list"
  routing_table :: "route list"

definition new_router :: router where
  "new_router = \<lparr>interfaces = [], routing_table = []\<rparr>"

definition add_interface :: "router \<Rightarrow> async_interface \<Rightarrow> u64 \<times> router" where
  "add_interface rt ai =
     (let rt = rt\<lparr>interfaces := interfaces rt @ [ai]\<rparr> in (of_nat (length (interfaces rt)) - 1, rt))"

text \<open>The loop of \<open>add_route\<close>: insert before the first route with a smaller prefix length.\<close>

fun insert_route :: "route \<Rightarrow> route list \<Rightarrow> route list" where
  "insert_route r [] = [r]"
| "insert_route r (x # xs) = (if prefix_length x < prefix_length r then r # x # xs else x # insert_route r xs)"

definition add_route :: "router \<Rightarrow> u32 \<Rightarrow> u8 \<Rightarrow> u32 option \<Rightarrow> u64 \<Rightarrow> router" where
  "add_route rt prefix plen hop ifnum =
     rt\<lparr>routing_table := insert_route
          \<lparr>route_prefix = prefix, prefix_length = plen, next_hop = hop, interface_num = ifnum\<rparr> (routing_table rt)\<rparr>"

text \<open>
  What can go wrong while routing: an exception, or the shift by a negative amount that a prefix
  length above 32 gives, which is undefined.
\<close>

datatype route_error = Throws exn | Undefined_Shift

definition route_bitmask :: "u8 \<Rightarrow> u32 option" where
  "route_bitmask plen =
     (if plen = 0 then Some 0
      else if plen \<le> 32 then Some (push_bit (32 - unat plen) (- 1))
      else None)"

text \<open>\<open>interface(N)\<close> is \<open>_interfaces.at(N)\<close>, which throws out of range.\<close>

definition send_on :: "router \<Rightarrow> u64 \<Rightarrow> ipv4_datagram \<Rightarrow> u32 \<Rightarrow> (route_error + unit) \<times> router" where
  "send_on rt N dgram hop =
     (let i = unat N in
      if i < length (interfaces rt)
      then (case send_datagram (ai_interface (interfaces rt ! i)) dgram hop of
              (r, ni) \<Rightarrow> (map_sum Throws (\<lambda>u. u) r,
                 rt\<lparr>interfaces := (interfaces rt)[i := (interfaces rt ! i)\<lparr>ai_interface := ni\<rparr>]\<rparr>))
      else (Inl (Throws (Out_Of_Range ''vector'')), rt))"

fun route_loop :: "router \<Rightarrow> ipv4_datagram \<Rightarrow> route list \<Rightarrow> (route_error + unit) \<times> router" where
  "route_loop rt dgram [] = (Inr (), rt)"
| "route_loop rt dgram (r # rs) =
     (case route_bitmask (prefix_length r) of
        None \<Rightarrow> (Inl Undefined_Shift, rt)
      | Some bitmask \<Rightarrow>
          let dst_addr_prefix = ip_dst (ip_header dgram) AND bitmask;
              r_prefix = route_prefix r AND bitmask
          in if r_prefix = dst_addr_prefix
             then (case next_hop r of
                     None \<Rightarrow> send_on rt (interface_num r) dgram (ip_dst (ip_header dgram))
                   | Some hop \<Rightarrow> send_on rt (interface_num r) dgram hop)
             else route_loop rt dgram rs)"

text \<open>The datagram is changed in place: it is returned with its decremented TTL.\<close>

definition route_one_datagram :: "router \<Rightarrow> ipv4_datagram \<Rightarrow> (route_error + unit) \<times> ipv4_datagram \<times> router" where
  "route_one_datagram rt dgram =
     (if 1 < ttl (ip_header dgram)
      then let dgram = dgram\<lparr>ip_header := (ip_header dgram)\<lparr>ttl := ttl (ip_header dgram) - 1\<rparr>\<rparr>
           in (case route_loop rt dgram (routing_table rt) of (r, rt) \<Rightarrow> (r, dgram, rt))
      else (Inr (), dgram, rt))"

definition set_queue :: "router \<Rightarrow> nat \<Rightarrow> ipv4_datagram list \<Rightarrow> router" where
  "set_queue rt i q = rt\<lparr>interfaces := (interfaces rt)[i := (interfaces rt ! i)\<lparr>datagrams_out := q\<rparr>]\<rparr>"

section \<open>Routing leaves the queues alone\<close>

lemma send_on_queues:
  "map datagrams_out (interfaces (snd (send_on rt N d hop))) = map datagrams_out (interfaces rt)"
  by (auto simp: send_on_def Let_def map_update split: prod.splits intro!: nth_equalityI simp: nth_list_update)

lemma route_loop_queues:
  "map datagrams_out (interfaces (snd (route_loop rt d rs))) = map datagrams_out (interfaces rt)"
  by (induction rs) (auto simp: send_on_queues Let_def split: option.splits)

lemma route_one_queues:
  "map datagrams_out (interfaces (snd (snd (route_one_datagram rt d)))) = map datagrams_out (interfaces rt)"
  using route_loop_queues [of rt _ "routing_table rt"]
  by (auto simp: route_one_datagram_def Let_def split: prod.splits) (metis snd_conv)

lemma route_one_length: "length (interfaces (snd (snd (route_one_datagram rt d)))) = length (interfaces rt)"
  using route_one_queues [of rt d] by (metis length_map)

lemma route_one_queue_nth:
  "i < length (interfaces rt) \<Longrightarrow>
   datagrams_out (interfaces (snd (snd (route_one_datagram rt d))) ! i) = datagrams_out (interfaces rt ! i)"
  using route_one_queues [of rt d] route_one_length [of rt d] by (metis nth_map)

section \<open>The routing loop\<close>

text \<open>
  The inner loop of \<open>route\<close>, for the interface with index \<open>i\<close>: route the front of its queue, then
  pop it.  An exception leaves the changed datagram at the front.
\<close>

function route_queue :: "router \<Rightarrow> nat \<Rightarrow> (route_error + unit) \<times> router" where
  "route_queue rt i =
     (if i < length (interfaces rt)
      then (case datagrams_out (interfaces rt ! i) of
              [] \<Rightarrow> (Inr (), rt)
            | dgram # rest \<Rightarrow>
                (let (r, dgram', rt') = route_one_datagram rt dgram
                 in case r of
                      Inl e \<Rightarrow> (Inl e, set_queue rt' i (dgram' # rest))
                    | Inr _ \<Rightarrow> route_queue (set_queue rt' i rest) i))
      else (Inr (), rt))"
  by pat_completeness auto

termination route_queue
proof (relation "measure (\<lambda>(rt, i). length (datagrams_out (interfaces rt ! i)))")
  fix rt i dgram rest x r y dgram' rt' and u :: unit
  assume a: "i < length (interfaces rt)" "datagrams_out (interfaces rt ! i) = dgram # rest"
    "x = route_one_datagram rt dgram" "(r, y) = x" "(dgram', rt') = y" "r = Inr u"
  have "rt' = snd (snd (route_one_datagram rt dgram))" using a by (metis snd_conv)
  then have "i < length (interfaces rt')" using a(1) route_one_length by metis
  then show "((set_queue rt' i rest, i), rt, i) \<in> measure (\<lambda>(rt, i). length (datagrams_out (interfaces rt ! i)))"
    using a(2) by (simp add: set_queue_def)
qed simp

declare route_queue.simps [simp del]

fun route_from :: "router \<Rightarrow> nat list \<Rightarrow> (route_error + unit) \<times> router" where
  "route_from rt [] = (Inr (), rt)"
| "route_from rt (i # is) =
     (case route_queue rt i of
        (Inl e, rt) \<Rightarrow> (Inl e, rt)
      | (Inr _, rt) \<Rightarrow> route_from rt is)"

definition route_all :: "router \<Rightarrow> (route_error + unit) \<times> router" where
  "route_all rt = route_from rt [0..<length (interfaces rt)]"

section \<open>Longest-prefix match\<close>

definition route_matches :: "u32 \<Rightarrow> route \<Rightarrow> bool" where
  "route_matches dst r \<longleftrightarrow>
     (case route_bitmask (prefix_length r) of None \<Rightarrow> False | Some m \<Rightarrow> route_prefix r AND m = dst AND m)"

lemma route_matches_bits:
  assumes "prefix_length r \<le> 32"
  shows "route_matches dst r \<longleftrightarrow> (\<forall>n < 32. 32 - unat (prefix_length r) \<le> n \<longrightarrow> bit dst n = bit (route_prefix r) n)"
proof (cases "prefix_length r = 0")
  case False
  let ?k = "32 - unat (prefix_length r)"
  have "route_matches dst r \<longleftrightarrow> route_prefix r AND push_bit ?k (- 1) = dst AND push_bit ?k (- 1)"
    using False assms by (simp add: route_matches_def route_bitmask_def)
  also have "\<dots> \<longleftrightarrow> (\<forall>n < 32. ?k \<le> n \<longrightarrow> bit dst n = bit (route_prefix r) n)"
    by (auto simp: bit_eq_iff bit_simps)
  finally show ?thesis .
qed (simp add: route_matches_def route_bitmask_def)

text \<open>
  The reference: scan the routes in the order in which they were added and take a matching one
  whenever it is strictly more specific than the best so far.
\<close>

definition better_route :: "u32 \<Rightarrow> route option \<Rightarrow> route \<Rightarrow> route option" where
  "better_route dst best r =
     (if route_matches dst r \<and> (case best of None \<Rightarrow> True | Some b \<Rightarrow> prefix_length b < prefix_length r)
      then Some r else best)"

definition best_route :: "u32 \<Rightarrow> route list \<Rightarrow> route option" where
  "best_route dst rs = foldl (better_route dst) None rs"

abbreviation by_length :: "route list \<Rightarrow> bool" where
  "by_length \<equiv> sorted_wrt (\<lambda>a b. prefix_length b \<le> prefix_length a)"

lemma set_insert_route [simp]: "set (insert_route r t) = insert r (set t)"
  by (induction t) auto

lemma insert_route_sorted: "by_length t \<Longrightarrow> by_length (insert_route r t)"
  by (induction t) auto

lemma find_insert_route:
  "by_length t \<Longrightarrow> find (route_matches dst) (insert_route r t) = better_route dst (find (route_matches dst) t) r"
proof (induction t)
  case (Cons x t)
  show ?case
  proof (cases "prefix_length x < prefix_length r")
    case True
    have "prefix_length b < prefix_length r" if "find (route_matches dst) (x # t) = Some b" for b
      using that True Cons.prems
      by (auto split: if_splits dest!: find_Some_iff [THEN iffD1]) (meson le_less_trans nth_mem)
    then show ?thesis using True by (auto simp: better_route_def split: option.splits)
  next
    case False
    then show ?thesis using Cons by (auto simp: better_route_def)
  qed
qed (simp add: better_route_def)

definition add_routes :: "router \<Rightarrow> route list \<Rightarrow> router" where
  "add_routes rt rs =
     foldl (\<lambda>rt r. add_route rt (route_prefix r) (prefix_length r) (next_hop r) (interface_num r)) rt rs"

lemma add_routes_snoc [simp]:
  "add_routes rt [] = rt"
  "routing_table (add_routes rt (rs @ [r])) = insert_route r (routing_table (add_routes rt rs))"
  by (simp add: add_routes_def) (cases r, simp add: add_routes_def add_route_def)

lemma add_routes_table:
  "by_length (routing_table (add_routes new_router rs)) \<and> set (routing_table (add_routes new_router rs)) = set rs \<and>
   find (route_matches dst) (routing_table (add_routes new_router rs)) = best_route dst rs"
proof (induction rs rule: rev_induct)
  case Nil
  show ?case by (simp add: new_router_def best_route_def)
next
  case (snoc r rs)
  then show ?case by (simp add: insert_route_sorted find_insert_route best_route_def)
qed

text \<open>
  C21. The routing table implements longest-prefix match: for any sequence of \<open>add_route\<close> calls, the
  first matching entry of the table is the route that a scan of the calls in order finds by taking
  every strictly more specific match (so among routes of equal length the one added first wins);
  it matches, no matching route has a longer prefix, and there is none only if no route matches.
\<close>

theorem longest_prefix_match:
  "find (route_matches dst) (routing_table (add_routes new_router rs)) = best_route dst rs \<and>
   (case find (route_matches dst) (routing_table (add_routes new_router rs)) of
      None \<Rightarrow> \<forall>r \<in> set rs. \<not> route_matches dst r
    | Some r \<Rightarrow> r \<in> set rs \<and> route_matches dst r \<and>
        (\<forall>s \<in> set rs. route_matches dst s \<longrightarrow> prefix_length s \<le> prefix_length r))"
proof -
  let ?t = "routing_table (add_routes new_router rs)"
  have t: "by_length ?t" "set ?t = set rs" using add_routes_table by blast+
  have "prefix_length s \<le> prefix_length r"
    if r: "find (route_matches dst) ?t = Some r" and s: "s \<in> set ?t" "route_matches dst s" for r s
  proof -
    obtain i where i: "i < length ?t" "?t ! i = r" "\<forall>j<i. \<not> route_matches dst (?t ! j)"
      using r by (auto simp: find_Some_iff)
    obtain j where j: "j < length ?t" "?t ! j = s" using s(1) by (auto simp: in_set_conv_nth)
    have "i \<le> j" using i(3) j s(2) by (meson not_le)
    then show ?thesis using t(1) i j by (cases "i = j") (auto simp: sorted_wrt_iff_nth_less)
  qed
  then show ?thesis
    using add_routes_table [of rs dst] t(2)
    by (auto split: option.splits simp: find_None_iff dest: find_Some_iff [THEN iffD1])
      (metis find_Some_iff nth_mem)+
qed

theorem longest_prefix_match_witness:
  "best_route 0x0a010203
     [\<lparr>route_prefix = 0, prefix_length = 0, next_hop = Some 1, interface_num = 0\<rparr>,
      \<lparr>route_prefix = 0x0a010000, prefix_length = 16, next_hop = Some 2, interface_num = 1\<rparr>,
      \<lparr>route_prefix = 0x0a000000, prefix_length = 8, next_hop = Some 3, interface_num = 2\<rparr>] =
   Some \<lparr>route_prefix = 0x0a010000, prefix_length = 16, next_hop = Some 2, interface_num = 1\<rparr>"
proof -
  let ?rs = "[\<lparr>route_prefix = 0, prefix_length = 0, next_hop = Some 1, interface_num = 0\<rparr>,
      \<lparr>route_prefix = 0x0a010000, prefix_length = 16, next_hop = Some 2, interface_num = 1\<rparr>,
      \<lparr>route_prefix = 0x0a000000, prefix_length = 8, next_hop = Some 3, interface_num = 2\<rparr>]"
  have "find (route_matches 0x0a010203) (routing_table (add_routes new_router ?rs)) =
      Some \<lparr>route_prefix = 0x0a010000, prefix_length = 16, next_hop = Some 2, interface_num = 1\<rparr>" by code_simp
  then show ?thesis using longest_prefix_match [of "0x0a010203" ?rs] by simp
qed

section \<open>Forwarding\<close>

definition hop_of :: "route \<Rightarrow> u32 \<Rightarrow> u32" where
  "hop_of r dst = (case next_hop r of None \<Rightarrow> dst | Some hop \<Rightarrow> hop)"

definition ttl_decremented :: "ipv4_datagram \<Rightarrow> ipv4_datagram" where
  "ttl_decremented d = d\<lparr>ip_header := (ip_header d)\<lparr>ttl := ttl (ip_header d) - 1\<rparr>\<rparr>"

lemma route_loop_eq:
  assumes "\<forall>r \<in> set rs. prefix_length r \<le> 32"
  shows "route_loop rt d rs =
    (case find (route_matches (ip_dst (ip_header d))) rs of
       None \<Rightarrow> (Inr (), rt)
     | Some r \<Rightarrow> send_on rt (interface_num r) d (hop_of r (ip_dst (ip_header d))))"
  using assms
  by (induction rs) (auto simp: route_matches_def route_bitmask_def hop_of_def Let_def split: option.splits)

lemma route_one_eq:
  assumes "\<forall>r \<in> set (routing_table rt). prefix_length r \<le> 32"
  shows "route_one_datagram rt d =
    (if ttl (ip_header d) \<le> 1 then (Inr (), d, rt)
     else case find (route_matches (ip_dst (ip_header d))) (routing_table rt) of
            None \<Rightarrow> (Inr (), ttl_decremented d, rt)
          | Some r \<Rightarrow> (case send_on rt (interface_num r) (ttl_decremented d) (hop_of r (ip_dst (ip_header d))) of
              (x, rt') \<Rightarrow> (x, ttl_decremented d, rt')))"
  using route_loop_eq [OF assms, of rt "ttl_decremented d"]
  by (auto simp: route_one_datagram_def ttl_decremented_def Let_def not_le split: option.splits)

lemma sendable_ttl: "sendable (ttl_decremented d) = sendable d"
proof -
  have "(\<exists>e. ipv4_datagram_serialize (ttl_decremented d) = Inl e) \<longleftrightarrow> (\<exists>e. ipv4_datagram_serialize d = Inl e)"
    unfolding ipv4_serialize_fails_iff by (simp add: ttl_decremented_def payload_length_def)
  then show ?thesis unfolding sendable_def by (auto split: sum.splits)
qed

text \<open>
  C23. A routed datagram leaves on the right interface with its TTL reduced by one: if the TTL is
  above 1, the best match is a route to interface \<open>i\<close>, and the next hop (the route's, or the
  destination itself for a directly attached network) is cached there as \<open>e\<close>, then
  \<open>route_one_datagram\<close> adds exactly one frame, addressed to \<open>e\<close>, to the output queue of that
  interface and changes nothing else.
\<close>

theorem routed_datagram_forwarded:
  assumes "\<forall>r \<in> set (routing_table rt). prefix_length r \<le> 32" "1 < ttl (ip_header d)"
    and "find (route_matches (ip_dst (ip_header d))) (routing_table rt) = Some r"
    and "unat (interface_num r) = i" "i < length (interfaces rt)"
    and "ethernet_addr_cache (ai_interface (interfaces rt ! i)) (hop_of r (ip_dst (ip_header d))) = Some (e, t)"
    and "sendable d"
  shows "route_one_datagram rt d = (Inr (), ttl_decremented d,
    rt\<lparr>interfaces := (interfaces rt)[i := (interfaces rt ! i)\<lparr>ai_interface :=
      push_frame (ai_interface (interfaces rt ! i))
        (datagram_frame (ai_interface (interfaces rt ! i)) e (ttl_decremented d))\<rparr>]\<rparr>)"
  using assms send_cached [OF assms(6), of "ttl_decremented d"]
  by (simp add: route_one_eq send_on_def Let_def sendable_ttl not_le)

section \<open>The loop drains the queues\<close>

definition rt_inv :: "router \<Rightarrow> bool" where
  "rt_inv rt \<longleftrightarrow>
     (\<forall>ai \<in> set (interfaces rt). ni_inv (ai_interface ai) \<and> (\<forall>d \<in> set (datagrams_out ai). sendable d)) \<and>
     (\<forall>r \<in> set (routing_table rt). prefix_length r \<le> 32 \<and> unat (interface_num r) < length (interfaces rt))"

lemma send_no_exn: "sendable d \<Longrightarrow> fst (send_datagram ni d ip) = Inr ()"
proof (cases "ethernet_addr_cache ni ip")
  case (Some et)
  assume "sendable d"
  with Some show ?thesis using send_cached by (cases et) force
qed (simp add: send_uncached)

lemma rt_inv_update:
  assumes "rt_inv rt" "ni_inv (ai_interface ai)" "\<forall>d \<in> set (datagrams_out ai). sendable d"
  shows "rt_inv (rt\<lparr>interfaces := (interfaces rt)[i := ai]\<rparr>)"
proof -
  have "set ((interfaces rt)[i := ai]) \<subseteq> insert ai (set (interfaces rt))" by (rule set_update_subset_insert)
  then show ?thesis using assms unfolding rt_inv_def by auto
qed

lemma send_on_ok:
  assumes "rt_inv rt" "unat N < length (interfaces rt)" "sendable d"
  shows "\<exists>rt'. send_on rt N d hop = (Inr (), rt') \<and> rt_inv rt' \<and> routing_table rt' = routing_table rt"
proof -
  let ?ai = "interfaces rt ! unat N"
  have ai: "ni_inv (ai_interface ?ai)" "\<forall>d \<in> set (datagrams_out ?ai). sendable d"
    using assms(1,2) by (auto simp: rt_inv_def)
  obtain ni where ni: "send_datagram (ai_interface ?ai) d hop = (Inr (), ni)"
    using send_no_exn [OF assms(3)] by (metis prod.collapse)
  then have "ni_inv ni" using ni_inv_send [OF ai(1) assms(3), of hop] by simp
  then have "rt_inv (rt\<lparr>interfaces := (interfaces rt)[unat N := ?ai\<lparr>ai_interface := ni\<rparr>]\<rparr>)"
    using ai(2) by (intro rt_inv_update [OF assms(1)]) simp_all
  then show ?thesis using ni assms(2) by (simp add: send_on_def Let_def)
qed

lemma route_one_ok:
  assumes "rt_inv rt" "sendable d"
  shows "\<exists>d' rt'. route_one_datagram rt d = (Inr (), d', rt') \<and> rt_inv rt' \<and> routing_table rt' = routing_table rt"
proof -
  have t: "\<forall>r \<in> set (routing_table rt). prefix_length r \<le> 32" using assms(1) by (simp add: rt_inv_def)
  show ?thesis
  proof (cases "find (route_matches (ip_dst (ip_header d))) (routing_table rt)")
    case None
    then show ?thesis using assms(1) by (simp add: route_one_eq [OF t])
  next
    case (Some r)
    then have "unat (interface_num r) < length (interfaces rt)"
      using assms(1) by (auto simp: rt_inv_def find_Some_iff)
    then obtain rt' where "send_on rt (interface_num r) (ttl_decremented d) (hop_of r (ip_dst (ip_header d))) = (Inr (), rt')"
      "rt_inv rt'" "routing_table rt' = routing_table rt"
      using send_on_ok [OF assms(1)] assms(2) sendable_ttl [of d] by blast
    then show ?thesis using Some assms(1) by (simp add: route_one_eq [OF t])
  qed
qed

lemma route_queue_ok:
  "rt_inv rt \<Longrightarrow> i < length (interfaces rt) \<Longrightarrow>
   \<exists>rt'. route_queue rt i = (Inr (), rt') \<and> rt_inv rt' \<and> routing_table rt' = routing_table rt \<and>
     map datagrams_out (interfaces rt') = (map datagrams_out (interfaces rt))[i := []]"
proof (induction rt i rule: route_queue.induct)
  case (1 rt i)
  show ?case
  proof (cases "datagrams_out (interfaces rt ! i)")
    case Nil
    moreover have "(map datagrams_out (interfaces rt))[i := []] = map datagrams_out (interfaces rt)"
      using Nil 1(3) by (metis list_update_id nth_map)
    ultimately show ?thesis using 1(2,3) by (simp add: route_queue.simps [of rt i])
  next
    case (Cons d rest)
    have "sendable d" "\<forall>c \<in> set rest. sendable c"
      using 1(2,3) Cons by (auto simp: rt_inv_def dest!: nth_mem)
    obtain d' rt' where r: "route_one_datagram rt d = (Inr (), d', rt')" "rt_inv rt'" "routing_table rt' = routing_table rt"
      using route_one_ok [OF 1(2) \<open>sendable d\<close>] by blast
    have q: "map datagrams_out (interfaces rt') = map datagrams_out (interfaces rt)"
      using route_one_queues [of rt d] r(1) by simp
    then have len: "i < length (interfaces rt')" using 1(3) by (metis length_map)
    have "ni_inv (ai_interface (interfaces rt' ! i))" using r(2) len by (simp add: rt_inv_def)
    then have "rt_inv (set_queue rt' i rest)"
      unfolding set_queue_def using \<open>\<forall>c \<in> set rest. sendable c\<close> by (intro rt_inv_update [OF r(2)]) simp_all
    moreover have "i < length (interfaces (set_queue rt' i rest))" using len by (simp add: set_queue_def)
    ultimately obtain rt'' where "route_queue (set_queue rt' i rest) i = (Inr (), rt'')" "rt_inv rt''"
      "routing_table rt'' = routing_table (set_queue rt' i rest)"
      "map datagrams_out (interfaces rt'') = (map datagrams_out (interfaces (set_queue rt' i rest)))[i := []]"
      using 1(1) [OF 1(3) Cons] r(1) by (metis (no_types))
    then show ?thesis
      using Cons r 1(3) q by (simp add: route_queue.simps [of rt i] set_queue_def map_update)
  qed
qed

lemma route_from_ok:
  "rt_inv rt \<Longrightarrow> \<forall>i \<in> set is. i < length (interfaces rt) \<Longrightarrow>
   \<exists>rt'. route_from rt is = (Inr (), rt') \<and> rt_inv rt' \<and> routing_table rt' = routing_table rt \<and>
     map datagrams_out (interfaces rt') = foldl (\<lambda>qs i. qs[i := []]) (map datagrams_out (interfaces rt)) is"
proof (induction "is" arbitrary: rt)
  case (Cons i "is")
  obtain rt' where r: "route_queue rt i = (Inr (), rt')" "rt_inv rt'" "routing_table rt' = routing_table rt"
    "map datagrams_out (interfaces rt') = (map datagrams_out (interfaces rt))[i := []]"
    using route_queue_ok [OF Cons.prems(1), of i] Cons.prems(2) by auto
  moreover have "length (interfaces rt') = length (interfaces rt)" using r(4) by (metis length_list_update length_map)
  ultimately show ?case using Cons.IH [of rt'] Cons.prems(2) by auto
qed simp

lemma clear_all: "k \<le> length qs \<Longrightarrow> foldl (\<lambda>qs i. qs[i := []]) qs [0..<k] = replicate k [] @ drop k qs"
proof (induction k)
  case (Suc k)
  then have "drop k qs = qs ! k # drop (Suc k) qs" by (simp add: Cons_nth_drop_Suc)
  with Suc show ?case by (simp add: list_update_append replicate_append_same [symmetric] del: replicate_append_same)
qed simp

text \<open>
  C22. \<open>Router::route()\<close> terminates, throws nothing and drains every input queue: in a router whose
  routes have prefix lengths up to 32 and name existing interfaces and whose received datagrams
  can be serialised, the loop returns, the queues of received datagrams of all interfaces are
  empty afterwards, the routing table is unchanged and the router is ready for the next round.
\<close>

theorem route_drains_queues:
  assumes "rt_inv rt"
  shows "\<exists>rt'. route_all rt = (Inr (), rt') \<and> rt_inv rt' \<and> routing_table rt' = routing_table rt \<and>
    map datagrams_out (interfaces rt') = replicate (length (interfaces rt)) []"
  using route_from_ok [OF assms, of "[0..<length (interfaces rt)]"]
    clear_all [of "length (interfaces rt)" "map datagrams_out (interfaces rt)"]
  by (simp add: route_all_def)

section \<open>Examples\<close>

abbreviation known_peer :: network_interface where
  "known_peer \<equiv> example_interface\<lparr>ethernet_addr_cache := [0x0a000002 \<mapsto> ([2, 0, 0, 0, 0, 2], 0)]\<rparr>"

abbreviation example_router :: "ipv4_datagram list \<Rightarrow> router" where
  "example_router q \<equiv>
     \<lparr>interfaces = [\<lparr>ai_interface = known_peer, datagrams_out = q\<rparr>],
      routing_table = [\<lparr>route_prefix = 0x0a000000, prefix_length = 8, next_hop = None, interface_num = 0\<rparr>]\<rparr>"

lemma example_matches:
  "find (route_matches 0x0a000002) (routing_table (example_router q)) =
     Some \<lparr>route_prefix = 0x0a000000, prefix_length = 8, next_hop = None, interface_num = 0\<rparr>"
proof -
  have "route_matches 0x0a000002 \<lparr>route_prefix = 0x0a000000, prefix_length = 8, next_hop = None, interface_num = 0\<rparr>"
    by code_simp
  then show ?thesis by simp
qed

theorem routed_datagram_forwarded_witness:
  "fst (route_one_datagram (example_router []) example_datagram) = Inr ()"
proof -
  have "route_one_datagram (example_router []) example_datagram = (Inr (), ttl_decremented example_datagram,
      (example_router [])\<lparr>interfaces := (interfaces (example_router []))[0 := (interfaces (example_router []) ! 0)\<lparr>ai_interface :=
        push_frame (ai_interface (interfaces (example_router []) ! 0))
          (datagram_frame (ai_interface (interfaces (example_router []) ! 0)) [2, 0, 0, 0, 0, 2] (ttl_decremented example_datagram))\<rparr>]\<rparr>)"
  proof (rule routed_datagram_forwarded)
    show "find (route_matches (ip_dst (ip_header example_datagram))) (routing_table (example_router [])) =
        Some \<lparr>route_prefix = 0x0a000000, prefix_length = 8, next_hop = None, interface_num = 0\<rparr>"
      using example_matches by simp
    show "1 < ttl (ip_header example_datagram)" by (simp add: new_ipv4_header_def DEFAULT_TTL_def)
  qed (simp_all add: hop_of_def example_sendable)
  then show ?thesis by simp
qed

theorem route_drains_queues_witness:
  "\<exists>rt'. route_all (example_router [example_datagram]) = (Inr (), rt') \<and>
     map datagrams_out (interfaces rt') = replicate (length (interfaces (example_router [example_datagram]))) []"
proof -
  have "rt_inv (example_router [example_datagram])"
    by (simp add: rt_inv_def example_sendable ni_inv_def new_network_interface_def CACHE_VALID_TIME_def)
  from route_drains_queues [OF this] show ?thesis by blast
qed

text \<open>
  The conditions are needed. The datagram of version 6 that \<open>IPv4Datagram::parse\<close> accepts makes
  \<open>route()\<close> throw, and stays at the head of its queue: the datagrams behind it are not routed until
  repeated calls have counted its TTL down.
\<close>

abbreviation poison_datagram :: ipv4_datagram where
  "poison_datagram \<equiv> snd (ipv4_datagram_parse new_ipv4_datagram wrong_version_bytes)"

lemma poison_datagram_blocks_router:
  "(case route_all (example_router [poison_datagram, example_datagram]) of
      (r, rt) \<Rightarrow> r = Inl (Throws (Runtime_Error ''wrong IP version'')) \<and>
        map (length \<circ> datagrams_out) (interfaces rt) = [2] \<and> frames_out (ai_interface (interfaces rt ! 0)) = [])"
  by code_simp

lemma long_prefix_undefined:
  "fst (route_loop rt d (\<lparr>route_prefix = 0, prefix_length = 33, next_hop = None, interface_num = 0\<rparr> # rs)) = Inl Undefined_Shift"
  by (simp add: route_bitmask_def)

end
