(* ===== verification/Network_Simulator.thy ===== *)
theory Network_Simulator
  imports Router "HOL-Library.Multiset" "HOL-Library.AList" "HOL-Library.Sublist"
begin

text \<open>
  The simulator of src/apps/network_simulator.cc: hosts around a router, frames carried between
  their interfaces, and the check that every host received exactly what it expected.  The numbers
  drawn from the random generator are arguments; messages on \<open>cerr\<close> and \<open>cout\<close> are left out.
\<close>

section \<open>Addresses and text\<close>

definition random_host_ethernet_address :: "ethernet_address \<Rightarrow> ethernet_address" where
  "random_host_ethernet_address rnd = rnd[0 := (rnd ! 0 OR 0x02) AND 0xfe]"

definition random_router_ethernet_address :: "ethernet_address \<Rightarrow> ethernet_address" where
  "random_router_ethernet_address rnd = rnd[0 := 0x02, 1 := 0, 2 := 0]"

definition string_of_bytes :: "bytes \<Rightarrow> string" where
  "string_of_bytes bs = map (\<lambda>b. char_of (unat b)) bs"

definition bytes_of_string :: "string \<Rightarrow> bytes" where
  "bytes_of_string s = map of_char s"

definition frame_summary :: "ethernet_frame \<Rightarrow> exn + string" where
  "frame_summary frame =
     (let ret = ethernet_header_to_string (fr_header frame) in
      if eth_type (fr_header frame) = TYPE_IPv4
      then (case bl_to_buffer (fr_payload frame) of
              Inl ex \<Rightarrow> Inl ex
            | Inr buffer \<Rightarrow>
                (case ipv4_datagram_parse new_ipv4_datagram buffer of
                   (res, dgram) \<Rightarrow>
                     if res = NoError
                     then Inr (ret @ '' '' @ ipv4_summary (ip_header dgram) @ '' payload=\"'' @
                            string_of_bytes (bl_concatenate (ip_payload dgram)) @ ''\"'')
                     else Inr (ret @ '' (bad IPv4)'')))
      else if eth_type (fr_header frame) = TYPE_ARP
      then (case bl_to_buffer (fr_payload frame) of
              Inl ex \<Rightarrow> Inl ex
            | Inr buffer \<Rightarrow>
                (case arp_parse new_arp_message buffer of
                   (res, arp) \<Rightarrow> if res = NoError then Inr (ret @ '' '' @ arp_to_string arp) else Inr (ret @ '' (bad ARP)'')))
      else Inr ret)"

section \<open>Hosts\<close>

record host =
  host_name :: string
  my_address :: u32
  host_interface :: async_interface
  host_next_hop :: u32
  expecting_to_receive :: "ipv4_datagram list"

definition new_host :: "string \<Rightarrow> u32 \<Rightarrow> u32 \<Rightarrow> ethernet_address \<Rightarrow> host" where
  "new_host name address hop rnd =
     \<lparr>host_name = name, my_address = address,
      host_interface = new_async_interface (new_network_interface (random_host_ethernet_address rnd) address),
      host_next_hop = hop, expecting_to_receive = []\<rparr>"

definition serialized :: "ipv4_datagram \<Rightarrow> exn + bytes" where
  "serialized d = map_sum (\<lambda>ex. ex) bl_concatenate (ipv4_datagram_serialize d)"

fun expecting :: "ipv4_datagram list \<Rightarrow> ipv4_datagram \<Rightarrow> exn + bool" where
  "expecting [] expected = Inr False"
| "expecting (x # xs) expected =
     (case (serialized x, serialized expected) of
        (Inl ex, _) \<Rightarrow> Inl ex
      | (Inr _, Inl ex) \<Rightarrow> Inl ex
      | (Inr a, Inr b) \<Rightarrow> if a = b then Inr True else expecting xs expected)"

fun remove_expectation :: "ipv4_datagram list \<Rightarrow> ipv4_datagram \<Rightarrow> exn + ipv4_datagram list" where
  "remove_expectation [] expected = Inr []"
| "remove_expectation (x # xs) expected =
     (case (serialized x, serialized expected) of
        (Inl ex, _) \<Rightarrow> Inl ex
      | (Inr _, Inl ex) \<Rightarrow> Inl ex
      | (Inr a, Inr b) \<Rightarrow> if a = b then Inr xs else map_sum (\<lambda>ex. ex) (\<lambda>ys. x # ys) (remove_expectation xs expected))"

definition payload_text :: "u32 \<Rightarrow> bytes" where
  "payload_text rnd = bytes_of_string (''random payload: {'' @ show_dec (unat rnd) @ ''}'')"

definition host_datagram :: "host \<Rightarrow> u32 \<Rightarrow> u8 \<Rightarrow> u32 \<Rightarrow> ipv4_datagram" where
  "host_datagram h dest time_to_live rnd =
     (let hd = new_ipv4_header\<lparr>ip_src := my_address h, ip_dst := dest\<rparr>;
          payload = payload_text rnd;
          hd = hd\<lparr>ip_len := ucast (ucast (hlen hd) * 4 + str_size payload)\<rparr>
      in \<lparr>ip_header = hd\<lparr>ttl := time_to_live\<rparr>, ip_payload = [payload]\<rparr>)"

definition send_to :: "host \<Rightarrow> u32 \<Rightarrow> u8 \<Rightarrow> u32 \<Rightarrow> (exn + ipv4_datagram) \<times> host" where
  "send_to h dest time_to_live rnd =
     (let dgram = host_datagram h dest time_to_live rnd
      in case send_datagram (ai_interface (host_interface h)) dgram (host_next_hop h) of
           (r, ni) \<Rightarrow> (map_sum (\<lambda>ex. ex) (\<lambda>_. dgram) r, h\<lparr>host_interface := (host_interface h)\<lparr>ai_interface := ni\<rparr>\<rparr>))"

definition expect :: "host \<Rightarrow> ipv4_datagram \<Rightarrow> host" where
  "expect h expected = h\<lparr>expecting_to_receive := expecting_to_receive h @ [expected]\<rparr>"

definition describe :: "ipv4_datagram \<Rightarrow> string" where
  "describe d = ipv4_summary (ip_header d) @ '' payload=\"'' @ string_of_bytes (bl_concatenate (ip_payload d)) @ ''\"''"

text \<open>The loop of \<open>check\<close>: what is left of the queue and of the expectations.\<close>

fun check_loop :: "string \<Rightarrow> ipv4_datagram list \<Rightarrow> ipv4_datagram list \<Rightarrow> (exn + unit) \<times> ipv4_datagram list \<times> ipv4_datagram list" where
  "check_loop name [] exs = (Inr (), [], exs)"
| "check_loop name (d # ds) exs =
     (case expecting exs d of
        Inl ex \<Rightarrow> (Inl ex, d # ds, exs)
      | Inr False \<Rightarrow>
          (Inl (Runtime_Error (''Host '' @ name @ '' received unexpected Internet datagram: '' @ describe d)), d # ds, exs)
      | Inr True \<Rightarrow>
          (case remove_expectation exs d of
             Inl ex \<Rightarrow> (Inl ex, d # ds, exs)
           | Inr exs \<Rightarrow> check_loop name ds exs))"

definition host_check :: "host \<Rightarrow> (exn + unit) \<times> host" where
  "host_check h =
     (case check_loop (host_name h) (datagrams_out (host_interface h)) (expecting_to_receive h) of
        (r, ds, exs) \<Rightarrow>
          let h = h\<lparr>host_interface := (host_interface h)\<lparr>datagrams_out := ds\<rparr>, expecting_to_receive := exs\<rparr>
          in case r of
               Inl ex \<Rightarrow> (Inl ex, h)
             | Inr _ \<Rightarrow>
                 if exs \<noteq> []
                 then (Inl (Runtime_Error (''Host '' @ host_name h @ '' did NOT receive an expected Internet datagram: '' @ describe (hd exs))), h)
                 else (Inr (), h))"

section \<open>Carrying frames\<close>

text \<open>\<open>deliver\<close>: each frame arrives with its payload in one buffer.\<close>

fun deliver :: "ethernet_frame list \<Rightarrow> async_interface \<Rightarrow> (exn + unit) \<times> async_interface" where
  "deliver [] dst = (Inr (), dst)"
| "deliver (f # fs) dst =
     (case ai_recv_frame dst (f\<lparr>fr_payload := bl_of_string (bl_concatenate (fr_payload f))\<rparr>) of
        (Inl ex, dst) \<Rightarrow> (Inl ex, dst)
      | (Inr _, dst) \<Rightarrow> deliver fs dst)"

abbreviation ai_frames :: "async_interface \<Rightarrow> ethernet_frame list" where
  "ai_frames x \<equiv> frames_out (ai_interface x)"

text \<open>\<open>clear\<close>: one frame is popped for each frame that was copied.\<close>

definition clear_frames :: "ethernet_frame list \<Rightarrow> async_interface \<Rightarrow> async_interface" where
  "clear_frames q x = x\<lparr>ai_interface := (ai_interface x)\<lparr>frames_out := drop (length q) (ai_frames x)\<rparr>\<rparr>"

definition exchange_frames :: "async_interface \<Rightarrow> async_interface \<Rightarrow> (exn + unit) \<times> async_interface \<times> async_interface" where
  "exchange_frames x y =
     (let x_frames = ai_frames x; y_frames = ai_frames y
      in case deliver x_frames y of
           (Inl ex, y) \<Rightarrow> (Inl ex, x, y)
         | (Inr _, y) \<Rightarrow>
             (case deliver y_frames x of
                (Inl ex, x) \<Rightarrow> (Inl ex, x, y)
              | (Inr _, x) \<Rightarrow> (Inr (), clear_frames x_frames x, clear_frames y_frames y)))"

definition exchange_frames3 :: "async_interface \<Rightarrow> async_interface \<Rightarrow> async_interface
    \<Rightarrow> (exn + unit) \<times> async_interface \<times> async_interface \<times> async_interface" where
  "exchange_frames3 x y z =
     (let x_frames = ai_frames x; y_frames = ai_frames y; z_frames = ai_frames z;
          (r1, y) = deliver x_frames y;
          (r2, z) = (if r1 = Inr () then deliver x_frames z else (r1, z));
          (r3, x) = (if r2 = Inr () then deliver y_frames x else (r2, x));
          (r4, z) = (if r3 = Inr () then deliver y_frames z else (r3, z));
          (r5, x) = (if r4 = Inr () then deliver z_frames x else (r4, x));
          (r6, y) = (if r5 = Inr () then deliver z_frames y else (r5, y))
      in if r6 = Inr () then (r6, clear_frames x_frames x, clear_frames y_frames y, clear_frames z_frames z)
         else (r6, x, y, z))"

section \<open>The network\<close>

text \<open>
  The hosts by name.  The iteration order of the unordered map is not specified: \<open>simulate\<close> has it
  as an argument.
\<close>

record network =
  net_router :: router
  default_id :: u64
  eth0_id :: u64
  eth1_id :: u64
  eth2_id :: u64
  uun3_id :: u64
  hs4_id :: u64
  mit5_id :: u64
  net_hosts :: "(string \<times> host) list"

definition find_host :: "network \<Rightarrow> string \<Rightarrow> exn + host" where
  "find_host net name =
     (case map_of (net_hosts net) name of
        None \<Rightarrow> Inl (Runtime_Error (''unknown host: '' @ name))
      | Some h \<Rightarrow> if host_name h \<noteq> name then Inl (Runtime_Error (''invalid host: '' @ name)) else Inr h)"

definition set_host :: "network \<Rightarrow> string \<Rightarrow> host \<Rightarrow> network" where
  "set_host net name h = net\<lparr>net_hosts := AList.update name h (net_hosts net)\<rparr>"

definition set_interface :: "network \<Rightarrow> u64 \<Rightarrow> async_interface \<Rightarrow> network" where
  "set_interface net N x =
     net\<lparr>net_router := (net_router net)\<lparr>interfaces := (interfaces (net_router net))[unat N := x]\<rparr>\<rparr>"

text \<open>
  The constructor.  The two lists are the random bytes of the router's seven interfaces and of the
  six hosts, in the order in which they are drawn.
\<close>

definition router_interface :: "ethernet_address \<Rightarrow> u32 \<Rightarrow> async_interface" where
  "router_interface rnd ip = new_async_interface (new_network_interface (random_router_ethernet_address rnd) ip)"

definition router_addresses :: "u32 list" where
  "router_addresses = [0xab434c2e, 0x0a000001, 0xac100001, 0xc0a80001, 0xc6b2e501, 0x8fc30002, 0x801e4cff]"

definition host_table :: "(string \<times> u32 \<times> u32) list" where
  "host_table =
     [(''applesauce'', 0x0a000002, 0x0a000001), (''default_router'', 0xab434c01, 0), (''cherrypie'', 0xc0a80002, 0xc0a80001),
      (''hs_router'', 0x8fc30001, 0), (''dm42'', 0xc6b2e52a, 0xc6b2e501), (''dm43'', 0xc6b2e52b, 0xc6b2e501)]"

fun add_interfaces :: "router \<Rightarrow> (ethernet_address \<times> u32) list \<Rightarrow> u64 list \<times> router" where
  "add_interfaces rt [] = ([], rt)"
| "add_interfaces rt ((rnd, ip) # xs) =
     (let (N, rt) = add_interface rt (router_interface rnd ip); (Ns, rt) = add_interfaces rt xs in (N # Ns, rt))"

definition add_network_routes :: "network \<Rightarrow> router \<Rightarrow> router" where
  "add_network_routes net rt =
     (let default_hop = Some 0xab434c01; hs_hop = Some 0x8fc30001;
          rt = add_route rt 0 0 default_hop (default_id net);
          rt = add_route rt 0x0a000000 8 None (eth0_id net);
          rt = add_route rt 0xac100000 16 None (eth1_id net);
          rt = add_route rt 0xc0a80000 24 None (eth2_id net);
          rt = add_route rt 0xc6b2e500 24 None (uun3_id net);
          rt = add_route rt 0x8fc30000 17 hs_hop (hs4_id net);
          rt = add_route rt 0x8fc38000 18 hs_hop (hs4_id net);
          rt = add_route rt 0x8fc3c000 19 hs_hop (hs4_id net)
      in add_route rt 0x801e4cff 16 (Some 0x801e0001) (mit5_id net))"

definition new_network :: "ethernet_address list \<Rightarrow> ethernet_address list \<Rightarrow> network" where
  "new_network router_rnd host_rnd =
     (let (ids, rt) = add_interfaces new_router (zip router_rnd router_addresses);
          net = \<lparr>net_router = rt, default_id = ids ! 0, eth0_id = ids ! 1, eth1_id = ids ! 2, eth2_id = ids ! 3,
                 uun3_id = ids ! 4, hs4_id = ids ! 5, mit5_id = ids ! 6,
                 net_hosts = map (\<lambda>(rnd, name, ip, hop). (name, new_host name ip hop rnd)) (zip host_rnd host_table)\<rparr>
      in net\<lparr>net_router := add_network_routes net rt\<rparr>)"

text \<open>\<open>_router.interface(N)\<close> throws out of range.\<close>

definition link :: "u64 \<Rightarrow> string \<Rightarrow> network \<Rightarrow> (exn + unit) \<times> network" where
  "link N name net =
     (if unat N < length (interfaces (net_router net))
      then (case find_host net name of
              Inl ex \<Rightarrow> (Inl ex, net)
            | Inr h \<Rightarrow>
                (case exchange_frames (interfaces (net_router net) ! unat N) (host_interface h) of
                   (r, x, y) \<Rightarrow> (r, set_host (set_interface net N x) name (h\<lparr>host_interface := y\<rparr>))))
      else (Inl (Out_Of_Range ''vector''), net))"

definition link3 :: "u64 \<Rightarrow> string \<Rightarrow> string \<Rightarrow> network \<Rightarrow> (exn + unit) \<times> network" where
  "link3 N name1 name2 net =
     (if unat N < length (interfaces (net_router net))
      then (case (find_host net name1, find_host net name2) of
              (Inr h1, Inr h2) \<Rightarrow>
                (case exchange_frames3 (interfaces (net_router net) ! unat N) (host_interface h1) (host_interface h2) of
                   (r, x, y, z) \<Rightarrow>
                     (r, set_host (set_host (set_interface net N x) name1 (h1\<lparr>host_interface := y\<rparr>))
                           name2 (h2\<lparr>host_interface := z\<rparr>)))
            | (Inl ex, _) \<Rightarrow> (Inl ex, net)
            | (_, Inl ex) \<Rightarrow> (Inl ex, net))
      else (Inl (Out_Of_Range ''vector''), net))"

definition and_then :: "('e + unit) \<times> network \<Rightarrow> (network \<Rightarrow> ('e + unit) \<times> network) \<Rightarrow> ('e + unit) \<times> network" where
  "and_then r f = (case r of (Inl ex, net) \<Rightarrow> (Inl ex, net) | (Inr _, net) \<Rightarrow> f net)"

definition simulate_physical_connections :: "network \<Rightarrow> (exn + unit) \<times> network" where
  "simulate_physical_connections net =
     and_then (and_then (and_then (and_then
       (link (default_id net) ''default_router'' net)
       (link (eth0_id net) ''applesauce''))
       (link (eth2_id net) ''cherrypie''))
       (link (hs4_id net) ''hs_router''))
       (link3 (uun3_id net) ''dm42'' ''dm43'')"

definition throws :: "(exn + unit) \<times> network \<Rightarrow> (route_error + unit) \<times> network" where
  "throws r = map_prod (map_sum Throws (\<lambda>u. u)) (\<lambda>net. net) r"

definition sim_round :: "network \<Rightarrow> (route_error + unit) \<times> network" where
  "sim_round net =
     (case route_all (net_router net) of
        (r, rt) \<Rightarrow> and_then (r, net\<lparr>net_router := rt\<rparr>) (\<lambda>net. throws (simulate_physical_connections net)))"

fun sim_rounds :: "nat \<Rightarrow> network \<Rightarrow> (route_error + unit) \<times> network" where
  "sim_rounds 0 net = (Inr (), net)"
| "sim_rounds (Suc n) net = and_then (sim_round net) (sim_rounds n)"

fun check_hosts :: "string list \<Rightarrow> network \<Rightarrow> (exn + unit) \<times> network" where
  "check_hosts [] net = (Inr (), net)"
| "check_hosts (name # names) net =
     (case map_of (net_hosts net) name of
        None \<Rightarrow> check_hosts names net
      | Some h \<Rightarrow> (case host_check h of (r, h) \<Rightarrow> and_then (r, set_host net name h) (check_hosts names)))"

definition simulate :: "string list \<Rightarrow> network \<Rightarrow> (route_error + unit) \<times> network" where
  "simulate order net = and_then (sim_rounds 256 net) (\<lambda>net. throws (check_hosts order net))"

section \<open>The tests\<close>

text \<open>
  One block of \<open>network_simulator\<close>: a host sends, the receiver (if any) expects the datagram with
  its TTL decremented, and the network is simulated.
\<close>

record sim_test =
  st_sender :: string
  st_dest :: u32
  st_ttl :: u8
  st_receiver :: "string option"

definition run_test :: "string list \<Rightarrow> u32 \<Rightarrow> sim_test \<Rightarrow> network \<Rightarrow> (route_error + unit) \<times> network" where
  "run_test order rnd t net =
     (case find_host net (st_sender t) of
        Inl ex \<Rightarrow> (Inl (Throws ex), net)
      | Inr h \<Rightarrow>
          (case send_to h (st_dest t) (st_ttl t) rnd of
             (Inl ex, h) \<Rightarrow> (Inl (Throws ex), set_host net (st_sender t) h)
           | (Inr d, h) \<Rightarrow>
               let net = set_host net (st_sender t) h;
                   d = d\<lparr>ip_header := (ip_header d)\<lparr>ttl := ttl (ip_header d) - 1\<rparr>\<rparr>
               in case st_receiver t of
                    None \<Rightarrow> simulate order net
                  | Some name \<Rightarrow>
                      (case find_host net name of
                         Inl ex \<Rightarrow> (Inl (Throws ex), net)
                       | Inr h \<Rightarrow> simulate order (set_host net name (expect h d)))))"

definition sim_tests :: "sim_test list" where
  "sim_tests = map (\<lambda>(s, d, t, r). \<lparr>st_sender = s, st_dest = d, st_ttl = t, st_receiver = r\<rparr>)
     [(''applesauce'', 0xc0a80002, 64, Some ''cherrypie''), (''cherrypie'', 0x0a000002, 64, Some ''applesauce''),
      (''applesauce'', 0x01020304, 64, Some ''default_router''), (''applesauce'', 0x8fc38311, 64, Some ''hs_router''),
      (''cherrypie'', 0x8fc3c134, 64, Some ''hs_router''), (''cherrypie'', 0x8fc3dfff, 64, Some ''hs_router''),
      (''cherrypie'', 0x8fc3e000, 64, Some ''default_router''), (''dm42'', 0xc6b2e52b, 64, Some ''dm43''),
      (''applesauce'', 0x01020304, 1, None), (''applesauce'', 0x01020304, 0, None)]"

fun run_tests :: "string list \<Rightarrow> u32 list \<Rightarrow> sim_test list \<Rightarrow> network \<Rightarrow> (route_error + unit) \<times> network" where
  "run_tests order (rnd # rnds) (t # ts) net = and_then (run_test order rnd t net) (run_tests order rnds ts)"
| "run_tests order _ _ net = (Inr (), net)"

definition network_simulator ::
    "string list \<Rightarrow> ethernet_address list \<Rightarrow> ethernet_address list \<Rightarrow> u32 list \<Rightarrow> (route_error + unit) \<times> network" where
  "network_simulator order router_rnd host_rnd rnds = run_tests order rnds sim_tests (new_network router_rnd host_rnd)"

section \<open>Frames are neither lost nor repeated\<close>

text \<open>
  A received frame only appends to the frames waiting to be sent, so \<open>clear\<close> pops exactly the
  frames that were delivered and never pops an empty queue.
\<close>

lemma send_datagram_appends: "prefix (frames_out ni) (frames_out (snd (send_datagram ni d hop)))"
  by (auto simp: send_datagram_def push_frame_def Let_def split: option.splits sum.splits)

lemma send_queued_appends: "prefix (frames_out ni) (frames_out (snd (send_queued ni ip kept q)))"
proof (induction ni ip kept q rule: send_queued.induct)
  case (2 ni ip kept dgram k rest)
  have "prefix (frames_out ni) (frames_out (snd (send_datagram ni dgram k)))" by (rule send_datagram_appends)
  then show ?case
    using 2 by (auto split: prod.splits sum.splits intro: prefix_order.trans)
qed simp

lemma answer_request_appends: "prefix (frames_out ni) (frames_out (snd (answer_request ni msg)))"
  by (auto simp: answer_request_def push_frame_def Let_def split: sum.splits)

lemma recv_arp_appends: "prefix (frames_out ni) (frames_out (snd (recv_arp ni msg)))"
proof -
  define ni' where "ni' = ni\<lparr>ethernet_addr_cache := (ethernet_addr_cache ni)(sender_ip_address msg \<mapsto> (sender_ethernet_address msg, 0)),
      arp_timer := (arp_timer ni)(sender_ip_address msg := None)\<rparr>"
  obtain r ni2 where sq: "send_queued ni' (sender_ip_address msg) [] (queueing_IP_datagrams ni') = (r, ni2)" by fastforce
  have "prefix (frames_out ni) (frames_out ni2)"
    using send_queued_appends [of ni' "sender_ip_address msg" "[]" "queueing_IP_datagrams ni'"] by (simp add: sq) (simp add: ni'_def)
  moreover have "frames_out (snd (recv_arp ni msg)) \<in> {frames_out ni2, frames_out (snd (answer_request ni2 msg))}"
    using sq by (auto simp: recv_arp_def Let_def ni'_def split: prod.splits sum.splits)
  ultimately show ?thesis using answer_request_appends [of ni2 msg] prefix_order.trans by auto
qed

lemma recv_frame_appends: "prefix (frames_out ni) (frames_out (snd (recv_frame ni f)))"
  using recv_arp_appends
  by (auto simp: recv_frame_def Let_def split: sum.splits prod.splits parse_result.splits)

lemma ai_recv_frame_appends: "prefix (ai_frames x) (ai_frames (snd (ai_recv_frame x f)))"
  using recv_frame_appends [of "ai_interface x" f]
  by (auto simp: ai_recv_frame_def split: prod.splits sum.splits option.splits)

lemma deliver_appends: "prefix (ai_frames x) (ai_frames (snd (deliver fs x)))"
proof (induction fs arbitrary: x)
  case (Cons f fs)
  show ?case
    using ai_recv_frame_appends [of x "f\<lparr>fr_payload := bl_of_string (bl_concatenate (fr_payload f))\<rparr>"] Cons
    by (auto split: prod.splits sum.splits intro: prefix_order.trans)
qed simp

lemma exchange_frames_clears:
  assumes "exchange_frames x y = (Inr (), x', y')"
  shows "ai_frames (snd (deliver (ai_frames y) x)) = ai_frames x @ ai_frames x'"
    and "ai_frames (snd (deliver (ai_frames x) y)) = ai_frames y @ ai_frames y'"
  using assms deliver_appends [of x "ai_frames y"] deliver_appends [of y "ai_frames x"]
  by (auto simp: exchange_frames_def clear_frames_def Let_def prefix_def split: prod.splits sum.splits)

text \<open>The message of \<open>deliver\<close> on \<open>cerr\<close> cannot throw: the payload is a single buffer by then.\<close>

lemma frame_summary_total: "\<exists>t. frame_summary (f\<lparr>fr_payload := bl_of_string bs\<rparr>) = Inr t"
  by (simp add: frame_summary_def Let_def bl_of_string_def bl_to_buffer_def split: prod.splits)

section \<open>The check of a host\<close>

abbreviation serializable :: "ipv4_datagram \<Rightarrow> bool" where
  "serializable d \<equiv> (case serialized d of Inl _ \<Rightarrow> False | Inr _ \<Rightarrow> True)"

lemma expecting_iff:
  "list_all serializable (d # exs) \<Longrightarrow> expecting exs d = Inr (serialized d \<in> set (map serialized exs))"
  by (induction exs) (auto split: sum.splits)

lemma remove_expectation_removes:
  "list_all serializable (d # exs) \<Longrightarrow>
   \<exists>ys. remove_expectation exs d = Inr ys \<and> list_all serializable ys \<and>
        mset (map serialized ys) = mset (map serialized exs) - {#serialized d#}"
proof (induction exs)
  case (Cons x exs)
  then obtain ys where ys: "remove_expectation exs d = Inr ys" "list_all serializable ys"
      "mset (map serialized ys) = mset (map serialized exs) - {#serialized d#}"
    by auto
  show ?case
    using Cons.prems ys by (cases "serialized x = serialized d") (auto split: sum.splits)
qed simp

lemma check_loop_result:
  assumes "list_all serializable (ds @ exs)"
  shows "case check_loop name ds exs of (r, ds', exs') \<Rightarrow>
           (r = Inr () \<longleftrightarrow> mset (map serialized ds) \<subseteq># mset (map serialized exs)) \<and>
           (r = Inr () \<longrightarrow> ds' = [] \<and> mset (map serialized exs') = mset (map serialized exs) - mset (map serialized ds))"
  using assms
proof (induction ds arbitrary: exs)
  case (Cons d ds)
  then have ok: "list_all serializable (d # exs)" by simp
  show ?case
  proof (cases "serialized d \<in> set (map serialized exs)")
    case True
    obtain ys where ys: "remove_expectation exs d = Inr ys" "list_all serializable ys"
        "mset (map serialized ys) = mset (map serialized exs) - {#serialized d#}"
      using remove_expectation_removes [OF ok] by blast
    have "serialized d \<in># mset (map serialized exs)" using True by simp
    then have "mset (map serialized (d # ds)) \<subseteq># mset (map serialized exs) \<longleftrightarrow>
        mset (map serialized ds) \<subseteq># mset (map serialized ys)"
      using ys(3) by (simp add: insert_subset_eq_iff)
    then show ?thesis
      using Cons.IH [of ys] Cons.prems ys True by (simp add: expecting_iff [OF ok] split: prod.splits)
  next
    case False
    then have "\<not> mset (map serialized (d # ds)) \<subseteq># mset (map serialized exs)"
      by (metis list.set_intros(1) list.simps(9) mset_subset_eqD set_mset_mset)
    then show ?thesis using False by (simp add: expecting_iff [OF ok])
  qed
qed simp

text \<open>
  C33. \<open>Host::check\<close> accepts exactly when the datagrams received are, with their multiplicities and
  in any order, the datagrams expected, compared by their serialised bytes; and it then leaves no
  datagram in the queue and no expectation behind.
\<close>

theorem host_check_exact:
  assumes "list_all serializable (datagrams_out (host_interface h) @ expecting_to_receive h)"
  shows "(fst (host_check h) = Inr () \<longleftrightarrow>
            mset (map serialized (datagrams_out (host_interface h))) = mset (map serialized (expecting_to_receive h))) \<and>
         (fst (host_check h) = Inr () \<longrightarrow>
            datagrams_out (host_interface (snd (host_check h))) = [] \<and> expecting_to_receive (snd (host_check h)) = [])"
proof -
  obtain r ds exs where eq: "check_loop (host_name h) (datagrams_out (host_interface h)) (expecting_to_receive h) = (r, ds, exs)"
    by (metis prod_cases3)
  have res: "r = Inr () \<longleftrightarrow> mset (map serialized (datagrams_out (host_interface h))) \<subseteq># mset (map serialized (expecting_to_receive h))"
      "r = Inr () \<Longrightarrow> ds = [] \<and> mset (map serialized exs) =
         mset (map serialized (expecting_to_receive h)) - mset (map serialized (datagrams_out (host_interface h)))"
    using check_loop_result [OF assms, of "host_name h"] by (simp_all add: eq)
  have sub: "A = B \<longleftrightarrow> A \<subseteq># B \<and> B - A = {#}" for A B :: "(exn + bytes) multiset"
    by (auto simp: Diff_eq_empty_iff_mset subset_mset.antisym)
  have "fst (host_check h) = Inr () \<longleftrightarrow> r = Inr () \<and> exs = []"
    by (auto simp: host_check_def eq Let_def split: sum.splits)
  moreover have "r = Inr () \<Longrightarrow> exs = [] \<Longrightarrow>
      datagrams_out (host_interface (snd (host_check h))) = [] \<and> expecting_to_receive (snd (host_check h)) = []"
    using res(2) by (simp add: host_check_def eq Let_def)
  moreover have "r = Inr () \<Longrightarrow> exs = [] \<longleftrightarrow>
      mset (map serialized (expecting_to_receive h)) - mset (map serialized (datagrams_out (host_interface h))) = {#}"
    using res(2) by (metis (no_types) mset_zero_iff map_is_Nil_conv)
  ultimately show ?thesis using res(1) sub by blast
qed

definition example_host :: host where
  "example_host =
     (let h = new_host ''dm43'' 0xc6b2e52b 0xc6b2e501 [0, 0, 0, 0, 0, 0];
          d1 = host_datagram h 0x0a000002 64 7; d2 = host_datagram h 0x0a000002 64 8
      in expect (expect (h\<lparr>host_interface := (host_interface h)\<lparr>datagrams_out := [d2, d1]\<rparr>\<rparr>) d1) d2)"

lemma example_host_serializable:
  "list_all serializable (datagrams_out (host_interface example_host) @ expecting_to_receive example_host)"
  by code_simp

lemma example_host_accepted: "fst (host_check example_host) = Inr ()"
  by code_simp

theorem host_check_exact_witness:
  "mset (map serialized (datagrams_out (host_interface example_host))) = mset (map serialized (expecting_to_receive example_host)) \<and>
   datagrams_out (host_interface (snd (host_check example_host))) = []"
  using host_check_exact [OF example_host_serializable] example_host_accepted by simp

end
