(* ===== verification/Full_Stack.thy ===== *)
theory Full_Stack
  imports Sponge_Socket Network_Simulator
begin

text \<open>
  The adapters as template arguments of \<open>TCPSpongeSocket\<close>, over file descriptors whose writes may
  fail (src/libsponge/tcp_helpers/tuntap_adapter.cc, fd_adapter.cc and lossy_fd_adapter.hh), the
  socket classes \<open>CS144TCPSocket\<close> and \<open>FullStackSocket\<close>
  (src/libsponge/tcp_helpers/tcp_sponge_socket.cc).
\<close>

unbundle bit_operations_syntax

section \<open>The TAP adapter\<close>

record tap_device =
  tp_fd :: file_descriptor
  tp_base :: fd_adapter
  tp_interface :: network_interface
  tp_next_hop :: u32
  tp_written :: "bytes list list"

text \<open>
  The answers of the kernel in one round: to the read, and to the calls of \<open>writev(2)\<close>, by the
  number of the frame and the number of the call, for the frames sent while reading, while
  ticking, and while writing the segment with the given number.
\<close>

type_synonym frame_replies = "nat \<Rightarrow> nat \<Rightarrow> nat reply"

record tap_kernel =
  pk_read :: "bytes reply"
  pk_read_frames :: frame_replies
  pk_tick_frames :: frame_replies
  pk_write_frames :: "nat \<Rightarrow> frame_replies"

text \<open>\<open>tp_written\<close> holds for each frame the pieces that the kernel has taken.\<close>

definition tap_write_frame :: "(nat \<Rightarrow> nat reply) \<Rightarrow> tap_device \<Rightarrow> ethernet_frame \<Rightarrow> (exn + unit) \<times> tap_device" where
  "tap_write_frame rs d fr =
     (let bl = ethernet_frame_serialize fr
      in case fd_write_traced (map rs [0..<Suc (length (concat bl))]) True (tp_fd d) (bvl_of_buffers bl) 0 of
           (res, taken) \<Rightarrow>
             (case the res of (r, fd) \<Rightarrow>
                (map_sum id (\<lambda>_. ()) r, d\<lparr>tp_fd := fd, tp_written := tp_written d @ [taken]\<rparr>)))"

text \<open>A frame leaves the queue once it is written; an exception leaves it at the front.\<close>

fun tap_send_loop :: "frame_replies \<Rightarrow> nat \<Rightarrow> ethernet_frame list \<Rightarrow> tap_device \<Rightarrow> (exn + unit) \<times> tap_device" where
  "tap_send_loop rs j [] d = (Inr (), d)"
| "tap_send_loop rs j (fr # frs) d =
     (case tap_write_frame (rs j) d fr of
        (Inl ex, d) \<Rightarrow> (Inl ex, d)
      | (Inr _, d) \<Rightarrow> tap_send_loop rs (Suc j) frs (d\<lparr>tp_interface := (tp_interface d)\<lparr>frames_out := frs\<rparr>\<rparr>))"

definition tap_send_pending :: "frame_replies \<Rightarrow> tap_device \<Rightarrow> (exn + unit) \<times> tap_device" where
  "tap_send_pending rs d = tap_send_loop rs 0 (frames_out (tp_interface d)) d"

definition new_tap_device :: "file_descriptor \<Rightarrow> ethernet_address \<Rightarrow> u32 \<Rightarrow> u32 \<Rightarrow> (nat \<Rightarrow> nat reply) \<Rightarrow> (exn + unit) \<times> tap_device" where
  "new_tap_device fd eth_address ip_address hop rs =
     tap_write_frame rs
       \<lparr>tp_fd = fd, tp_base = new_fd_adapter, tp_interface = new_network_interface eth_address ip_address,
        tp_next_hop = hop, tp_written = []\<rparr> new_ethernet_frame"

definition tap_read :: "tap_kernel \<Rightarrow> tap_device \<Rightarrow> (exn + tcp_segment option) \<times> tap_device" where
  "tap_read k d =
     (case fd_read (tp_fd d) (- 1) (pk_read k) of
        (Inl ex, fd) \<Rightarrow> (Inl ex, d\<lparr>tp_fd := fd\<rparr>)
      | (Inr data, fd) \<Rightarrow>
          let d = d\<lparr>tp_fd := fd\<rparr> in
          (case ethernet_frame_parse new_ethernet_frame data of
             (res, frame) \<Rightarrow>
               if res \<noteq> NoError then (Inr None, d)
               else case recv_frame (tp_interface d) frame of
                 (Inl ex, ni) \<Rightarrow> (Inl ex, d\<lparr>tp_interface := ni\<rparr>)
               | (Inr ip_dgram, ni) \<Rightarrow>
                   (case tap_send_pending (pk_read_frames k) (d\<lparr>tp_interface := ni\<rparr>) of
                      (Inl ex, d) \<Rightarrow> (Inl ex, d)
                    | (Inr _, d) \<Rightarrow>
                        (case ip_dgram of
                           Some dgram \<Rightarrow>
                             (case unwrap_tcp_in_ip (tp_base d) dgram of (r, a) \<Rightarrow> (r, d\<lparr>tp_base := a\<rparr>))
                         | None \<Rightarrow> (Inr None, d)))))"

definition tap_tick :: "tap_kernel \<Rightarrow> tap_device \<Rightarrow> u64 \<Rightarrow> (exn + unit) \<times> tap_device" where
  "tap_tick k d ms = tap_send_pending (pk_tick_frames k) (d\<lparr>tp_interface := ni_tick (tp_interface d) ms\<rparr>)"

definition tap_write :: "tap_kernel \<Rightarrow> nat \<Rightarrow> tap_device \<Rightarrow> tcp_segment \<Rightarrow> (exn + unit) \<times> tap_device" where
  "tap_write k i d seg =
     (case wrap_tcp_in_ip (tp_base d) seg of
        (Inl ex, _) \<Rightarrow> (Inl ex, d)
      | (Inr dgram, _) \<Rightarrow>
          (case send_datagram (tp_interface d) dgram (tp_next_hop d) of
             (Inl ex, ni) \<Rightarrow> (Inl ex, d\<lparr>tp_interface := ni\<rparr>)
           | (Inr _, ni) \<Rightarrow> tap_send_pending (pk_write_frames k i) (d\<lparr>tp_interface := ni\<rparr>)))"

definition tap_ops :: "(tap_kernel, tap_device) adapter_ops" where
  "tap_ops =
     \<lparr>ao_fd = tp_fd, ao_read = tap_read, ao_write = tap_write, ao_tick = tap_tick,
      ao_configure = (\<lambda>d cfg. d\<lparr>tp_base := (tp_base d)\<lparr>ad_cfg := cfg\<rparr>\<rparr>),
      ao_set_listening = (\<lambda>d l. d\<lparr>tp_base := set_listening (tp_base d) l\<rparr>)\<rparr>"

section \<open>The UDP adapter\<close>

text \<open>An IPv4 socket address as number and port: bytes 2 and 3 are the port, 4 to 7 the address.\<close>

definition address_of_sock :: "sock_address \<Rightarrow> address" where
  "address_of_sock a =
     \<lparr>a_ip = be_int (take 4 (drop 4 (sa_storage a))), a_port = be_int (take 2 (drop 2 (sa_storage a)))\<rparr>"

record udp_device =
  ud_fd :: file_descriptor
  ud_base :: fd_adapter
  ud_written :: "(address \<times> bytes) list"

record udp_kernel =
  uk_recv :: "((bytes \<times> u32) \<times> bytes) reply"
  uk_send :: "nat \<Rightarrow> nat reply"

definition udp_device_read :: "udp_kernel \<Rightarrow> udp_device \<Rightarrow> (exn + tcp_segment option) \<times> udp_device" where
  "udp_device_read k d =
     (case udp_recvfrom (ud_fd d) 65536 (uk_recv k) of
        (Inl ex, fd) \<Rightarrow> (Inl ex, d\<lparr>ud_fd := fd\<rparr>)
      | (Inr (src, payload), fd) \<Rightarrow>
          (case udp_read (ud_base d) (address_of_sock src) payload of (r, a) \<Rightarrow> (Inr r, d\<lparr>ud_fd := fd, ud_base := a\<rparr>)))"

definition udp_device_write :: "udp_kernel \<Rightarrow> nat \<Rightarrow> udp_device \<Rightarrow> tcp_segment \<Rightarrow> (exn + unit) \<times> udp_device" where
  "udp_device_write k i d seg =
     (case udp_write (ud_base d) seg of
        Inl ex \<Rightarrow> (Inl ex, d)
      | Inr (dest, bl) \<Rightarrow>
          (case udp_sendto (ud_fd d) (bvl_of_buffers bl) (uk_send k i) of
             (Inl ex, fd) \<Rightarrow> (Inl ex, d\<lparr>ud_fd := fd\<rparr>)
           | (Inr _, fd) \<Rightarrow> (Inr (), d\<lparr>ud_fd := fd, ud_written := ud_written d @ [(dest, concat bl)]\<rparr>)))"

definition udp_ops :: "(udp_kernel, udp_device) adapter_ops" where
  "udp_ops =
     \<lparr>ao_fd = ud_fd, ao_read = udp_device_read, ao_write = udp_device_write, ao_tick = (\<lambda>k d ms. (Inr (), d)),
      ao_configure = (\<lambda>d cfg. d\<lparr>ud_base := (ud_base d)\<lparr>ad_cfg := cfg\<rparr>\<rparr>),
      ao_set_listening = (\<lambda>d l. d\<lparr>ud_base := set_listening (ud_base d) l\<rparr>)\<rparr>"

section \<open>The lossy adapter\<close>

text \<open>Around any adapter; \<open>config_of\<close> is its \<open>config()\<close>, and the random numbers come with the kernel's answers.\<close>

record 'k lossy_kernel =
  lk_kernel :: 'k
  lk_read_rnd :: u32
  lk_write_rnd :: "nat \<Rightarrow> u32"

definition lossy_ops :: "('a \<Rightarrow> fd_adapter_config) \<Rightarrow> ('k, 'a) adapter_ops \<Rightarrow> ('k lossy_kernel, 'a) adapter_ops" where
  "lossy_ops config_of ops =
     \<lparr>ao_fd = ao_fd ops,
      ao_read = (\<lambda>k a. case ao_read ops (lk_kernel k) a of
                   (Inl ex, a) \<Rightarrow> (Inl ex, a)
                 | (Inr ret, a) \<Rightarrow> (Inr (if should_drop (config_of a) (lk_read_rnd k) False then None else ret), a)),
      ao_write = (\<lambda>k i a seg. if should_drop (config_of a) (lk_write_rnd k i) True then (Inr (), a)
                              else ao_write ops (lk_kernel k) i a seg),
      ao_tick = (\<lambda>k a ms. ao_tick ops (lk_kernel k) a ms),
      ao_configure = ao_configure ops, ao_set_listening = ao_set_listening ops\<rparr>"

section \<open>Socket classes\<close>

text \<open>\<open>socket_pair_helper\<close>: the answer holds the two descriptor numbers.\<close>

definition socket_pair_helper :: "(int \<times> int) reply \<Rightarrow> exn + file_descriptor \<times> file_descriptor" where
  "socket_pair_helper r =
     (case r of
        Sys_Err e \<Rightarrow> (case system_call ''socketpair'' (- 1) e 0 of Inl ex \<Rightarrow> Inl ex | Inr _ \<Rightarrow> Inl (Runtime_Error ''invalid fd number''))
      | Sys_Ok (a, b) \<Rightarrow>
          (case (new_file_descriptor a, new_file_descriptor b) of
             (Inl ex, _) \<Rightarrow> Inl ex
           | (_, Inl ex) \<Rightarrow> Inl ex
           | (Inr x, Inr y) \<Rightarrow> Inr (x, y)))"

definition fast_config :: tcp_config where
  "fast_config = new_tcp_config\<lparr>rt_timeout := 100\<rparr>"

definition random_private_ethernet_address :: "ethernet_address \<Rightarrow> ethernet_address" where
  "random_private_ethernet_address rnd = rnd[0 := (rnd ! 0 OR 0x02) AND 0xfe]"

text \<open>\<open>169.254.144.9\<close>, \<open>169.254.10.9\<close> and \<open>169.254.10.1\<close>.\<close>

abbreviation LOCAL_TUN_IP_ADDRESS :: u32 where "LOCAL_TUN_IP_ADDRESS \<equiv> 0xa9fe9009"
abbreviation LOCAL_TAP_IP_ADDRESS :: u32 where "LOCAL_TAP_IP_ADDRESS \<equiv> 0xa9fe0a09"
abbreviation LOCAL_TAP_NEXT_HOP_ADDRESS :: u32 where "LOCAL_TAP_NEXT_HOP_ADDRESS \<equiv> 0xa9fe0a01"

definition multiplexer_config :: "u32 \<Rightarrow> u16 \<Rightarrow> address \<Rightarrow> fd_adapter_config" where
  "multiplexer_config local_ip port peer = new_fd_adapter_config\<lparr>source := \<lparr>a_ip = local_ip, a_port = port\<rparr>, destination := peer\<rparr>"

definition cs144_connect :: "tun_kernel tcp_round list \<Rightarrow> u64 \<Rightarrow> u32 \<Rightarrow> u16 \<Rightarrow> address \<Rightarrow> tun_device sponge_socket
    \<Rightarrow> (exn + unit) option \<times> (tun_kernel, tun_device) sponge_rules \<times> tun_device sponge_socket" where
  "cs144_connect rds t rnd port peer s =
     sponge_connect tun_ops rds t fast_config rnd (multiplexer_config LOCAL_TUN_IP_ADDRESS port peer) s"

definition full_stack_adapter :: "file_descriptor \<Rightarrow> ethernet_address \<Rightarrow> (nat \<Rightarrow> nat reply) \<Rightarrow> (exn + unit) \<times> tap_device" where
  "full_stack_adapter fd rnd rs =
     new_tap_device fd (random_private_ethernet_address rnd) LOCAL_TAP_IP_ADDRESS LOCAL_TAP_NEXT_HOP_ADDRESS rs"

definition full_stack_connect :: "tap_kernel tcp_round list \<Rightarrow> u64 \<Rightarrow> u32 \<Rightarrow> u16 \<Rightarrow> address \<Rightarrow> tap_device sponge_socket
    \<Rightarrow> (exn + unit) option \<times> (tap_kernel, tap_device) sponge_rules \<times> tap_device sponge_socket" where
  "full_stack_connect rds t rnd port peer s =
     sponge_connect tap_ops rds t fast_config rnd (multiplexer_config LOCAL_TAP_IP_ADDRESS port peer) s"

section \<open>Writing a frame to the device\<close>

lemma tap_write_frame_pieces:
  assumes "tap_write_frame rs d fr = (r, d')" "length (concat (ethernet_frame_serialize fr)) < 2 ^ 63"
  obtains fd taken rest where "d' = d\<lparr>tp_fd := fd, tp_written := tp_written d @ [taken]\<rparr>"
    "concat (ethernet_frame_serialize fr) = concat taken @ rest" "r = Inr () \<Longrightarrow> rest = []"
proof -
  let ?bl = "ethernet_frame_serialize fr"
  obtain res taken where t: "fd_write_traced (map rs [0..<Suc (length (concat ?bl))]) True (tp_fd d) ?bl 0 = (res, taken)"
    by (cases "fd_write_traced (map rs [0..<Suc (length (concat ?bl))]) True (tp_fd d) ?bl 0")
  have "\<exists>y. fd_write_loop (map rs [0..<Suc (length (concat ?bl))]) True (tp_fd d) ?bl 0 = Some y"
    using fd_write_loop_returns [of ?bl "map rs [0..<Suc (length (concat ?bl))]"] assms(2) by simp
  then obtain q fd where res: "res = Some (q, fd)"
    using fd_write_traced_loop [of "map rs [0..<Suc (length (concat ?bl))]" True "tp_fd d" ?bl 0] t by (cases res) auto
  obtain rest where rest: "concat ?bl = concat taken @ rest" "(\<exists>n. q = Inr n) \<Longrightarrow> rest = []"
    using fd_write_traced_prefix [OF t assms(2)] res by blast
  have "d' = d\<lparr>tp_fd := fd, tp_written := tp_written d @ [taken]\<rparr>" "r = map_sum id (\<lambda>_. ()) q"
    using assms(1) t res by (simp_all add: tap_write_frame_def bvl_of_buffers_eq Let_def del: upt_Suc)
  then show thesis using that [OF _ rest(1)] rest(2) by (cases q) auto
qed

lemma frame_bytes_length:
  "length (eth_dst (fr_header fr)) = 6 \<Longrightarrow> length (eth_src (fr_header fr)) = 6 \<Longrightarrow>
   length (concat (ethernet_frame_serialize fr)) = 14 + length (concat (fr_payload fr))"
  by (simp add: ethernet_frame_serialize_def ethernet_header_serialize_eq bl_append_eq bl_of_string_def)

text \<open>
  C35. A segment crosses the stack through real descriptors: a host that knows the Ethernet address
  of its peer writes the segment to its TAP device.  Whatever the kernel answers, what it has taken
  in the calls of \<open>writev(2)\<close> is, in order, a prefix of one Ethernet frame, and the whole frame if
  the write returns normally (short writes are continued); after an exception the frame is still
  the first in the queue.  The peer whose device delivers that frame reads back the same segment.
\<close>

theorem tap_delivers_segment:
  assumes "ni_inv (tp_interface A)" "ni_inv (tp_interface B)" "frames_out (tp_interface A) = []" "frames_out (tp_interface B) = []"
    and "ethernet_addr_cache (tp_interface A) (tp_next_hop A) = Some (ni_ethernet_address (tp_interface B), t)"
    and "mirrored (tp_base A) (tp_base B)" "fits_ip seg"
    and "tap_write k i A seg = (r, A')"
  shows "\<exists>fr taken rest seg'. tp_written A' = tp_written A @ [taken] \<and>
    concat (ethernet_frame_serialize fr) = concat taken @ rest \<and> (r = Inr () \<longrightarrow> rest = []) \<and>
    frames_out (tp_interface A') = (if r = Inr () then [] else [fr]) \<and>
    (\<forall>k'. pk_read k' = Sys_Ok (concat (ethernet_frame_serialize fr)) \<longrightarrow>
      tap_read k' B = (Inr (Some seg'), B\<lparr>tp_fd := register_read (tp_fd B)\<rparr>)) \<and> same_tcp seg' seg"
proof -
  obtain dg s fr fr' dg' seg' where f: "wrap_tcp_in_ip (tp_base A) seg = (Inr dg, s)"
    "send_datagram (tp_interface A) dg (tp_next_hop A) = (Inr (), push_frame (tp_interface A) fr)"
    "ethernet_frame_parse new_ethernet_frame (bl_concatenate (ethernet_frame_serialize fr)) = (NoError, fr')"
    "recv_frame (tp_interface B) fr' = (Inr (Some dg'), tp_interface B)"
    "unwrap_tcp_in_ip (tp_base B) dg' = (Inr (Some seg'), tp_base B)" "same_tcp seg' seg"
    "length (concat (fr_payload fr)) < 65536" "length (eth_dst (fr_header fr)) = 6" "length (eth_src (fr_header fr)) = 6"
    using segment_frame [OF assms(1,2,5-7)] by metis
  let ?bs = "concat (ethernet_frame_serialize fr)" and ?d = "A\<lparr>tp_interface := push_frame (tp_interface A) fr\<rparr>"
  have len: "length ?bs \<le> 65550" "14 \<le> length ?bs" using frame_bytes_length f(7-9) by simp_all
  obtain q d1 where q: "tap_write_frame (pk_write_frames k i 0) ?d fr = (q, d1)"
    by (cases "tap_write_frame (pk_write_frames k i 0) ?d fr")
  have "length ?bs < 2 ^ 63" using len(1) by simp
  from tap_write_frame_pieces [OF q this] obtain fd taken rest where
    p: "d1 = ?d\<lparr>tp_fd := fd, tp_written := tp_written ?d @ [taken]\<rparr>" "?bs = concat taken @ rest" "q = Inr () \<Longrightarrow> rest = []"
    by metis
  have "tap_send_pending (pk_write_frames k i) ?d = (r, A')" using assms(8) f(1,2) by (simp add: tap_write_def)
  then have w: "r = q \<and> A' = (if q = Inr () then d1\<lparr>tp_interface := (tp_interface d1)\<lparr>frames_out := []\<rparr>\<rparr> else d1)"
    using assms(3) q by (cases q) (auto simp: tap_send_pending_def push_frame_def)
  have "?bs \<noteq> []" using len(2) by force
  then have "fd_read (tp_fd B) (- 1) (Sys_Ok ?bs) = (Inr ?bs, register_read (tp_fd B))"
    using len(1) by (intro fd_read_some) simp_all
  then have "tap_read k' B = (Inr (Some seg'), B\<lparr>tp_fd := register_read (tp_fd B)\<rparr>)" if "pk_read k' = Sys_Ok ?bs" for k'
    using that f(3-5) assms(4) by (simp add: tap_read_def tap_send_pending_def bl_concatenate_eq)
  moreover have "tp_written A' = tp_written A @ [taken]" "frames_out (tp_interface A') = (if r = Inr () then [] else [fr])"
    using w p(1) assms(3) by (auto simp: push_frame_def)
  ultimately show ?thesis using p(2,3) w f(6) by (intro exI [of _ fr] exI [of _ taken] exI [of _ rest] exI [of _ seg']) simp
qed

definition example_sender_tap :: tap_device where
  "example_sender_tap = \<lparr>tp_fd = example_fd, tp_base = example_adapter,
     tp_interface = example_interface\<lparr>ethernet_addr_cache := [0x0a000002 \<mapsto> ([2, 0, 0, 0, 0, 2], 0)]\<rparr>,
     tp_next_hop = 0x0a000002, tp_written = []\<rparr>"

definition example_receiver_tap :: tap_device where
  "example_receiver_tap = \<lparr>tp_fd = example_fd, tp_base = example_server, tp_interface = example_peer,
     tp_next_hop = 0x0a000001, tp_written = []\<rparr>"

text \<open>The frame of 54 bytes goes out in two pieces.\<close>

definition example_tap_kernel :: tap_kernel where
  "example_tap_kernel =
     \<lparr>pk_read = Sys_Err 11, pk_read_frames = (\<lambda>_ _. Sys_Err 5), pk_tick_frames = (\<lambda>_ _. Sys_Err 5),
      pk_write_frames = (\<lambda>_ _ call. if call = 0 then Sys_Ok 40 else Sys_Ok 14)\<rparr>"

abbreviation example_sent where
  "example_sent \<equiv> tap_write example_tap_kernel 0 example_sender_tap opening_segment"

lemma example_sent_pieces: "fst example_sent = Inr () \<and> map (map length) (tp_written (snd example_sent)) = [[40, 14]]"
  by code_simp

theorem tap_delivers_segment_witness:
  "\<exists>taken seg'. fst example_sent = Inr () \<and> tp_written (snd example_sent) = [taken] \<and> map length taken = [40, 14] \<and>
     same_tcp seg' opening_segment \<and>
     tap_read (example_tap_kernel\<lparr>pk_read := Sys_Ok (concat taken)\<rparr>) example_receiver_tap =
       (Inr (Some seg'), example_receiver_tap\<lparr>tp_fd := register_read example_fd\<rparr>)"
proof -
  have i: "ni_inv (tp_interface example_sender_tap)" "ni_inv (tp_interface example_receiver_tap)"
    using example_invs(2)
    by (simp_all add: example_sender_tap_def example_receiver_tap_def ni_inv_def new_network_interface_def CACHE_VALID_TIME_def)
  have m: "mirrored (tp_base example_sender_tap) (tp_base example_receiver_tap)"
    by (simp add: example_sender_tap_def example_receiver_tap_def mirrored_def)
  have o: "example_sent = (Inr (), snd example_sent)" using example_sent_pieces by (metis prod.collapse)
  have "frames_out (tp_interface example_sender_tap) = []" "frames_out (tp_interface example_receiver_tap) = []"
    "ethernet_addr_cache (tp_interface example_sender_tap) (tp_next_hop example_sender_tap) =
      Some (ni_ethernet_address (tp_interface example_receiver_tap), 0)" "tp_written example_sender_tap = []"
    "tp_fd example_receiver_tap = example_fd"
    by (simp_all add: example_sender_tap_def example_receiver_tap_def new_network_interface_def)
  with tap_delivers_segment [OF i this(1-3) m opening_fits o] example_sent_pieces show ?thesis by auto
qed

end
