(* ===== verification/Lab7.thy ===== *)
theory Lab7
  imports Full_Stack Command_Line
begin

text \<open>
  src/apps/lab7.cc: a host with a TCP socket behind a router whose other side is a UDP tunnel to
  the peer's router.  Modelled are the adapter and the socket class of the host, the set-up of the
  router, and the network thread: its four rules and its loop.  The answers of the kernel are
  arguments; \<open>program_body\<close> starts the thread and the socket side by side, and how the two threads
  interleave is not modelled.
\<close>

unbundle bit_operations_syntax

section \<open>The host\<close>

text \<open>
  \<open>NetworkInterfaceAdapter\<close> has the methods of \<open>TCPOverIPv4OverEthernetAdapter\<close>, over one end of a
  socket pair, and does not send a first dummy frame.
\<close>

definition nia_ops :: "(tap_kernel, tap_device) adapter_ops" where
  "nia_ops = tap_ops"

definition new_nia :: "file_descriptor \<Rightarrow> ethernet_address \<Rightarrow> u32 \<Rightarrow> u32 \<Rightarrow> tap_device" where
  "new_nia fd rnd ip_address hop =
     \<lparr>tp_fd = fd, tp_base = new_fd_adapter, tp_interface = new_network_interface (random_host_ethernet_address rnd) ip_address,
      tp_next_hop = hop, tp_written = []\<rparr>"

record lab7_socket =
  ls_socket :: "tap_device sponge_socket"
  ls_local_address :: address

definition new_lab7_socket :: "file_descriptor \<Rightarrow> file_descriptor \<Rightarrow> file_descriptor \<Rightarrow> ethernet_address \<Rightarrow> u32 \<Rightarrow> u32 \<Rightarrow> lab7_socket" where
  "new_lab7_socket own thr fd rnd ip_address hop =
     \<lparr>ls_socket = new_sponge_socket own thr (new_nia fd rnd ip_address hop), ls_local_address = \<lparr>a_ip = ip_address, a_port = 0\<rparr>\<rparr>"

type_synonym nia_opened = "(exn + unit) option \<times> (tap_kernel, tap_device) sponge_rules \<times> tap_device sponge_socket"

definition lab7_connect :: "tap_kernel tcp_round list \<Rightarrow> u64 \<Rightarrow> u32 \<Rightarrow> u16 \<Rightarrow> address \<Rightarrow> lab7_socket \<Rightarrow> nia_opened \<times> lab7_socket" where
  "lab7_connect rds t rnd port peer s =
     (let s = s\<lparr>ls_local_address := \<lparr>a_ip = a_ip (ls_local_address s), a_port = port\<rparr>\<rparr>;
          config = new_fd_adapter_config\<lparr>source := ls_local_address s, destination := peer\<rparr>;
          opened = sponge_connect nia_ops rds t new_tcp_config rnd config (ls_socket s)
      in (opened, s\<lparr>ls_socket := snd (snd opened)\<rparr>))"

definition lab7_bind :: "address \<Rightarrow> lab7_socket \<Rightarrow> (exn + unit) \<times> lab7_socket" where
  "lab7_bind a s =
     (if a_ip a \<noteq> a_ip (ls_local_address s)
      then (Inl (Runtime_Error (''Cannot bind to '' @ inet_ntoa (a_ip a) @ '':'' @ show_dec (unat (a_port a)))), s)
      else (Inr (), s\<lparr>ls_local_address := \<lparr>a_ip = a_ip (ls_local_address s), a_port = a_port a\<rparr>\<rparr>))"

definition lab7_listen_and_accept :: "tap_kernel tcp_round list \<Rightarrow> u64 \<Rightarrow> u32 \<Rightarrow> lab7_socket \<Rightarrow> nia_opened \<times> lab7_socket" where
  "lab7_listen_and_accept rds t rnd s =
     (let config = new_fd_adapter_config\<lparr>source := ls_local_address s\<rparr>;
          opened = listen_and_accept nia_ops rds t new_tcp_config rnd config (ls_socket s)
      in (opened, s\<lparr>ls_socket := snd (snd opened)\<rparr>))"

text \<open>What the debug output shows of a frame; its ARP payload is not concatenated first.\<close>

definition lab7_summary :: "ethernet_frame \<Rightarrow> exn + string" where
  "lab7_summary frame =
     (let ret = ethernet_header_to_string (fr_header frame) in
      if eth_type (fr_header frame) = TYPE_IPv4
      then (case ipv4_datagram_parse new_ipv4_datagram (bl_concatenate (fr_payload frame)) of
              (res, dgram) \<Rightarrow>
                if res = NoError
                then let ret = ret @ '' '' @ ipv4_summary (ip_header dgram) in
                     if proto (ip_header dgram) = PROTO_TCP
                     then (case tcp_segment_parse new_tcp_segment (bl_concatenate (ip_payload dgram)) (pseudo_cksum (ip_header dgram)) of
                             (res, seg) \<Rightarrow> Inr (if res = NoError then ret @ '' '' @ tcp_header_summary (seg_header seg) else ret))
                     else Inr ret
                else Inr (ret @ '' (bad IPv4)''))
      else if eth_type (fr_header frame) = TYPE_ARP
      then (case bl_to_buffer (fr_payload frame) of
              Inl ex \<Rightarrow> Inl ex
            | Inr buffer \<Rightarrow>
                (case arp_parse new_arp_message buffer of
                   (res, arp) \<Rightarrow> Inr (ret @ (if res = NoError then '' '' @ arp_to_string arp else '' (bad ARP)''))))
      else Inr ret)"

section \<open>The router\<close>

text \<open>The results are the router and the numbers of its two interfaces.\<close>

definition lab7_router :: "bool \<Rightarrow> ethernet_address \<Rightarrow> ethernet_address \<Rightarrow> router \<times> u64 \<times> u64" where
  "lab7_router is_client r1 r2 =
     (if is_client
      then let (host_side, rt) = add_interface new_router (router_interface r1 0xc0a80001);
               (internet_side, rt) = add_interface rt (router_interface r2 0x0a0000c0);
               rt = add_route rt 0xc0a80000 16 None host_side;
               rt = add_route rt 0x0a000000 8 None internet_side;
               rt = add_route rt 0xac100000 12 (Some 0x0a0000ac) internet_side
           in (rt, host_side, internet_side)
      else let (host_side, rt) = add_interface new_router (router_interface r1 0xac100001);
               (internet_side, rt) = add_interface rt (router_interface r2 0x0a0000ac);
               rt = add_route rt 0xac100000 12 None host_side;
               rt = add_route rt 0x0a000000 8 None internet_side;
               rt = add_route rt 0xc0a80000 16 (Some 0x0a0000c0) internet_side
           in (rt, host_side, internet_side))"

section \<open>The network thread\<close>

record lab7_net =
  ln_router :: router
  ln_host_side :: u64
  ln_internet_side :: u64
  ln_frame_fd :: file_descriptor
  ln_internet_fd :: file_descriptor
  ln_to_host :: "bytes list"
  ln_to_internet :: "bytes list"

record lab7_kernel =
  lk_frame_read :: "bytes reply"
  lk_frame_write :: "nat \<Rightarrow> nat reply"
  lk_internet_read :: "bytes reply"
  lk_internet_send :: "nat reply"

text \<open>\<open>router.interface(N)\<close>, changed by \<open>f\<close>.\<close>

definition at_interface :: "u64 \<Rightarrow> (async_interface \<Rightarrow> (exn + unit) \<times> async_interface) \<Rightarrow> lab7_net \<Rightarrow> (exn + unit) \<times> lab7_net" where
  "at_interface N f s =
     (let is = interfaces (ln_router s); i = unat N in
      if i < length is
      then (case f (is ! i) of (r, ai) \<Rightarrow> (r, s\<lparr>ln_router := (ln_router s)\<lparr>interfaces := is[i := ai]\<rparr>\<rparr>))
      else (Inl (Out_Of_Range ''vector''), s))"

definition side_frames :: "u64 \<Rightarrow> lab7_net \<Rightarrow> ethernet_frame list" where
  "side_frames N s = ai_frames (interfaces (ln_router s) ! unat N)"

definition pop_frame :: "async_interface \<Rightarrow> (exn + unit) \<times> async_interface" where
  "pop_frame ai = (Inr (), ai\<lparr>ai_interface := (ai_interface ai)\<lparr>frames_out := tl (ai_frames ai)\<rparr>\<rparr>)"

text \<open>An undefined shift while routing is told apart from the exceptions by its text.\<close>

fun route_exn :: "route_error \<Rightarrow> exn" where
  "route_exn (Throws ex) = ex"
| "route_exn Undefined_Shift = Runtime_Error ''undefined shift''"

definition lab7_route :: "lab7_net \<Rightarrow> (exn + unit) \<times> lab7_net" where
  "lab7_route s = (case route_all (ln_router s) of (r, rt) \<Rightarrow> (map_sum route_exn (\<lambda>u. u) r, s\<lparr>ln_router := rt\<rparr>))"

definition frame_arrives :: "u64 \<Rightarrow> bytes \<Rightarrow> lab7_net \<Rightarrow> (exn + unit) \<times> lab7_net" where
  "frame_arrives N data s =
     (case ethernet_frame_parse new_ethernet_frame data of
        (res, frame) \<Rightarrow>
          if res \<noteq> NoError then (Inr (), s)
          else case at_interface N (\<lambda>ai. ai_recv_frame ai frame) s of
            (Inl ex, s) \<Rightarrow> (Inl ex, s)
          | (Inr _, s) \<Rightarrow> lab7_route s)"

definition host_in_callback :: "lab7_kernel \<Rightarrow> lab7_net \<Rightarrow> (exn + unit) \<times> lab7_net" where
  "host_in_callback k s =
     (case fd_read (ln_frame_fd s) (- 1) (lk_frame_read k) of
        (Inl ex, fd) \<Rightarrow> (Inl ex, s\<lparr>ln_frame_fd := fd\<rparr>)
      | (Inr data, fd) \<Rightarrow> frame_arrives (ln_host_side s) data (s\<lparr>ln_frame_fd := fd\<rparr>))"

text \<open>
  The interest of the rule makes sure that there is a frame; \<open>front()\<close> of an empty queue would be
  undefined.
\<close>

definition host_out_callback :: "lab7_kernel \<Rightarrow> lab7_net \<Rightarrow> (exn + unit) \<times> lab7_net" where
  "host_out_callback k s =
     (case side_frames (ln_host_side s) s of
        [] \<Rightarrow> (Inl (Out_Of_Range ''front of an empty queue''), s)
      | f # _ \<Rightarrow>
          let bl = ethernet_frame_serialize f in
          (case the (fd_write (ln_frame_fd s) (bvl_of_buffers bl) True (map (lk_frame_write k) [0..<Suc (length (concat bl))])) of
             (Inl ex, fd) \<Rightarrow> (Inl ex, s\<lparr>ln_frame_fd := fd\<rparr>)
           | (Inr _, fd) \<Rightarrow> at_interface (ln_host_side s) pop_frame (s\<lparr>ln_frame_fd := fd, ln_to_host := ln_to_host s @ [concat bl]\<rparr>)))"

definition internet_out_callback :: "lab7_kernel \<Rightarrow> lab7_net \<Rightarrow> (exn + unit) \<times> lab7_net" where
  "internet_out_callback k s =
     (case side_frames (ln_internet_side s) s of
        [] \<Rightarrow> (Inl (Out_Of_Range ''front of an empty queue''), s)
      | f # _ \<Rightarrow>
          let bl = ethernet_frame_serialize f in
          (case udp_sendto (ln_internet_fd s) (bvl_of_buffers bl) (lk_internet_send k) of
             (Inl ex, fd) \<Rightarrow> (Inl ex, s\<lparr>ln_internet_fd := fd\<rparr>)
           | (Inr _, fd) \<Rightarrow> at_interface (ln_internet_side s) pop_frame (s\<lparr>ln_internet_fd := fd, ln_to_internet := ln_to_internet s @ [concat bl]\<rparr>)))"

definition internet_in_callback :: "lab7_kernel \<Rightarrow> lab7_net \<Rightarrow> (exn + unit) \<times> lab7_net" where
  "internet_in_callback k s =
     (case fd_read (ln_internet_fd s) (- 1) (lk_internet_read k) of
        (Inl ex, fd) \<Rightarrow> (Inl ex, s\<lparr>ln_internet_fd := fd\<rparr>)
      | (Inr data, fd) \<Rightarrow> frame_arrives (ln_internet_side s) data (s\<lparr>ln_internet_fd := fd\<rparr>))"

definition lab7_rules :: "(lab7_kernel, lab7_net) rule list" where
  "lab7_rules =
     (let always = (\<lambda>_. True); nothing = (\<lambda>s. (Inr (), s));
          rules = add_rule [] ln_frame_fd In host_in_callback always nothing;
          rules = add_rule rules ln_frame_fd Out host_out_callback (\<lambda>s. side_frames (ln_host_side s) s \<noteq> []) nothing;
          rules = add_rule rules ln_internet_fd Out internet_out_callback (\<lambda>s. side_frames (ln_internet_side s) s \<noteq> []) nothing
      in add_rule rules ln_internet_fd In internet_in_callback always nothing)"

definition side_tick :: "async_interface \<Rightarrow> (exn + unit) \<times> async_interface" where
  "side_tick ai = (Inr (), ai\<lparr>ai_interface := ni_tick (ai_interface ai) 50\<rparr>)"

text \<open>
  The loop: for each round the answers of the kernel, the answer to \<open>poll(2)\<close>, and whether
  \<open>exit_flag\<close> is set after it.  \<open>None\<close> means that the loop is still running.
\<close>

fun lab7_loop :: "(lab7_kernel \<times> (pollfd list \<Rightarrow> poll_answer) \<times> bool) list \<Rightarrow> (lab7_kernel, lab7_net) rule list \<Rightarrow> lab7_net
    \<Rightarrow> (exn + unit) option \<times> lab7_net" where
  "lab7_loop [] rules s = (None, s)"
| "lab7_loop ((k, poll, exit_flag) # env) rules s =
     (case wait_next_event k poll rules s of
        (Inl ex, rules, s) \<Rightarrow> (Some (Inl ex), s)
      | (Inr result, rules, s) \<Rightarrow>
          if result = Exit then (Some (Inr ()), s)
          else (case at_interface (ln_host_side s) side_tick s of
                  (Inl ex, s) \<Rightarrow> (Some (Inl ex), s)
                | (Inr _, s) \<Rightarrow>
                    (case at_interface (ln_internet_side s) side_tick s of
                       (Inl ex, s) \<Rightarrow> (Some (Inl ex), s)
                     | (Inr _, s) \<Rightarrow> if exit_flag then (Some (Inr ()), s) else lab7_loop env rules s)))"

definition new_lab7_net :: "bool \<Rightarrow> ethernet_address \<Rightarrow> ethernet_address \<Rightarrow> file_descriptor \<Rightarrow> file_descriptor \<Rightarrow> lab7_net" where
  "new_lab7_net is_client r1 r2 frame_fd internet_fd =
     (let (rt, host_side, internet_side) = lab7_router is_client r1 r2
      in \<lparr>ln_router = rt, ln_host_side = host_side, ln_internet_side = internet_side,
          ln_frame_fd = frame_fd, ln_internet_fd = internet_fd, ln_to_host = [], ln_to_internet = []\<rparr>)"

section \<open>The command line\<close>

text \<open>The words after the program's name; the result is the role, the bouncer's host and port, and \<open>debug\<close>.\<close>

definition lab7_arguments :: "string list \<Rightarrow> (bool \<times> string \<times> string \<times> bool) outcome" where
  "lab7_arguments args =
     (if length args \<noteq> 3 \<and> length args \<noteq> 4 then Exits 1 ''Usage''
      else if args ! 0 \<noteq> ''client'' \<and> args ! 0 \<noteq> ''server'' then Exits 1 ''Usage''
      else Proceeds (args ! 0 = ''client'', args ! 1, args ! 2, length args = 4))"

section \<open>The routing table stays as it was set up\<close>

lemma send_on_table [simp]: "routing_table (snd (send_on rt N d hop)) = routing_table rt"
  by (auto simp: send_on_def Let_def split: prod.splits)

lemma route_loop_table [simp]: "routing_table (snd (route_loop rt d rs)) = routing_table rt"
  by (induction rs) (auto simp: Let_def split: option.splits)

lemma route_one_table [simp]: "routing_table (snd (snd (route_one_datagram rt d))) = routing_table rt"
  by (simp add: route_one_datagram_def Let_def split_beta)

lemma route_queue_table [simp]: "routing_table (snd (route_queue rt i)) = routing_table rt"
proof (induction rt i rule: route_queue.induct)
  case (1 rt i)
  show ?case
  proof (cases "i < length (interfaces rt) \<and> datagrams_out (interfaces rt ! i) \<noteq> []")
    case True
    then obtain d ds where q: "datagrams_out (interfaces rt ! i) = d # ds" by (meson neq_Nil_conv)
    obtain r d' rt' where o: "route_one_datagram rt d = (r, d', rt')" by (metis prod_cases3)
    have t: "routing_table rt' = routing_table rt" using route_one_table [of rt d] o by simp
    show ?thesis
    proof (cases r)
      case (Inl e)
      then show ?thesis using True q o t by (subst route_queue.simps) (simp add: set_queue_def)
    next
      case (Inr u)
      then show ?thesis using 1 True q o t by (subst route_queue.simps) (simp add: set_queue_def)
    qed
  qed (subst route_queue.simps, auto split: list.splits)
qed

lemma route_from_table: "routing_table (snd (route_from rt is)) = routing_table rt"
proof (induction "is" arbitrary: rt)
  case (Cons i "is")
  obtain r rt' where q: "route_queue rt i = (r, rt')" by fastforce
  have "routing_table rt' = routing_table rt" using route_queue_table [of rt i] by (simp add: q)
  then show ?case using Cons.IH [of rt'] by (cases r) (simp_all add: q)
qed simp

definition lab7_table :: "bool \<Rightarrow> route list" where
  "lab7_table is_client = routing_table (fst (lab7_router is_client [] []))"

definition lab7_inv :: "bool \<Rightarrow> lab7_net \<Rightarrow> bool" where
  "lab7_inv is_client s \<longleftrightarrow> routing_table (ln_router s) = lab7_table is_client"

lemma lab7_inv_frame [simp]:
  "lab7_inv c (s\<lparr>ln_frame_fd := fd\<rparr>) = lab7_inv c s" "lab7_inv c (s\<lparr>ln_internet_fd := fd\<rparr>) = lab7_inv c s"
  "lab7_inv c (s\<lparr>ln_to_host := x\<rparr>) = lab7_inv c s" "lab7_inv c (s\<lparr>ln_to_internet := x\<rparr>) = lab7_inv c s"
  by (simp_all add: lab7_inv_def)

lemma lab7_inv_at_interface [simp]: "lab7_inv c (snd (at_interface N f s)) = lab7_inv c s"
  by (simp add: lab7_inv_def at_interface_def Let_def split_beta)

lemma lab7_inv_route [simp]: "lab7_inv c (snd (lab7_route s)) = lab7_inv c s"
  using route_from_table [of "ln_router s"] by (simp add: lab7_inv_def lab7_route_def route_all_def split_beta)

lemma lab7_inv_arrives [simp]: "lab7_inv c (snd (frame_arrives N data s)) = lab7_inv c s"
proof -
  obtain res frame where p: "ethernet_frame_parse new_ethernet_frame data = (res, frame)" by fastforce
  obtain r s' where a: "at_interface N (\<lambda>ai. ai_recv_frame ai frame) s = (r, s')" by fastforce
  have "lab7_inv c s' = lab7_inv c s" using lab7_inv_at_interface [of c N "\<lambda>ai. ai_recv_frame ai frame" s] by (simp add: a)
  then show ?thesis by (cases r) (simp_all add: frame_arrives_def p a)
qed

lemma lab7_callbacks_inv:
  "lab7_inv c (snd (host_in_callback k s)) = lab7_inv c s" "lab7_inv c (snd (internet_in_callback k s)) = lab7_inv c s"
  "lab7_inv c (snd (host_out_callback k s)) = lab7_inv c s" "lab7_inv c (snd (internet_out_callback k s)) = lab7_inv c s"
  by (simp_all add: host_in_callback_def internet_in_callback_def host_out_callback_def internet_out_callback_def Let_def
      split: prod.splits sum.splits list.splits)

interpretation lab7: event_inv lab7_rules "\<lambda>_. True" "lab7_inv c"
  by unfold_locales (auto simp: lab7_rules_def add_rule_def Let_def lab7_callbacks_inv)

lemma lab7_loop_inv:
  "\<lbrakk>lab7_loop env rules s = (res, s'); set rules \<subseteq> set lab7_rules; lab7_inv c s\<rbrakk> \<Longrightarrow> lab7_inv c s'"
proof (induction env arbitrary: rules s)
  case (Cons e env)
  obtain k poll flag where e: "e = (k, poll, flag)" by (cases e)
  obtain r rules1 s1 where w: "wait_next_event k poll rules s = (r, rules1, s1)" by (metis prod_cases3)
  have 1: "lab7_inv c s1" "set rules1 \<subseteq> set lab7_rules"
    using lab7.wait_next_event_kept [OF w Cons.prems(2) _ Cons.prems(3)] by simp_all
  obtain r2 s2 where t2: "at_interface (ln_host_side s1) side_tick s1 = (r2, s2)" by fastforce
  obtain r3 s3 where t3: "at_interface (ln_internet_side s2) side_tick s2 = (r3, s3)" by fastforce
  have 2: "lab7_inv c s2" "lab7_inv c s3"
    using lab7_inv_at_interface [of c _ side_tick] t2 t3 1(1) by (metis snd_conv)+
  show ?case using Cons.prems(1) Cons.IH [OF _ 1(2) 2(2)] 1 2 by (auto simp: e w t2 t3 split: sum.splits if_splits)
qed simp

lemma lab7_router_table: "routing_table (fst (lab7_router c r1 r2)) = lab7_table c"
  by (simp add: lab7_table_def lab7_router_def add_interface_def add_route_def new_router_def Let_def)

lemma lab7_inv_new: "lab7_inv c (new_lab7_net c r1 r2 f i)"
  using lab7_router_table [of c r1 r2] by (simp add: lab7_inv_def new_lab7_net_def split_beta)

section \<open>Where datagrams go\<close>

text \<open>The two private networks and the tunnel, by their prefixes 192.168/16, 172.16/12 and 10/8.\<close>

definition in_client_net :: "u32 \<Rightarrow> bool" where "in_client_net dst \<longleftrightarrow> dst AND 0xffff0000 = 0xc0a80000"
definition in_server_net :: "u32 \<Rightarrow> bool" where "in_server_net dst \<longleftrightarrow> dst AND 0xfff00000 = 0xac100000"
definition in_tunnel :: "u32 \<Rightarrow> bool" where "in_tunnel dst \<longleftrightarrow> dst AND 0xff000000 = 0x0a000000"

text \<open>Side 0 is the host's, side 1 the tunnel; the peer's router is 10.0.0.172 or 10.0.0.192.\<close>

definition lab7_next :: "bool \<Rightarrow> u32 \<Rightarrow> (u64 \<times> u32) option" where
  "lab7_next is_client dst =
     (if (if is_client then in_client_net dst else in_server_net dst) then Some (0, dst)
      else if (if is_client then in_server_net dst else in_client_net dst)
      then Some (1, if is_client then 0x0a0000ac else 0x0a0000c0)
      else if in_tunnel dst then Some (1, dst)
      else None)"

lemma lab7_table_eq:
  "lab7_table True =
     [\<lparr>route_prefix = 0xc0a80000, prefix_length = 16, next_hop = None, interface_num = 0\<rparr>,
      \<lparr>route_prefix = 0xac100000, prefix_length = 12, next_hop = Some 0x0a0000ac, interface_num = 1\<rparr>,
      \<lparr>route_prefix = 0x0a000000, prefix_length = 8, next_hop = None, interface_num = 1\<rparr>]"
  "lab7_table False =
     [\<lparr>route_prefix = 0xc0a80000, prefix_length = 16, next_hop = Some 0x0a0000c0, interface_num = 1\<rparr>,
      \<lparr>route_prefix = 0xac100000, prefix_length = 12, next_hop = None, interface_num = 0\<rparr>,
      \<lparr>route_prefix = 0x0a000000, prefix_length = 8, next_hop = None, interface_num = 1\<rparr>]"
  by (simp_all add: lab7_table_def lab7_router_def add_interface_def add_route_def new_router_def)

text \<open>No address is in two of the networks.\<close>

lemma lab7_nets_disjoint: "\<not> (in_client_net dst \<and> in_server_net dst)"
proof
  assume "in_client_net dst \<and> in_server_net dst"
  then have "(dst AND 0xffff0000) AND 0xfff00000 = 0xc0a00000" "dst AND 0xfff00000 = 0xac100000"
    by (simp_all add: in_client_net_def in_server_net_def)
  moreover have "(dst AND 0xffff0000) AND 0xfff00000 = dst AND 0xfff00000"
    by (simp add: and.assoc)
  ultimately show False by simp
qed

lemma lab7_masks: "route_bitmask 16 = Some 0xffff0000" "route_bitmask 12 = Some 0xfff00000" "route_bitmask 8 = Some 0xff000000"
  by code_simp+

lemma lab7_matches:
  "0xc0a80000 = dst AND 0xffff0000 \<longleftrightarrow> in_client_net dst"
  "0xac100000 = dst AND 0xfff00000 \<longleftrightarrow> in_server_net dst"
  "0x0a000000 = dst AND 0xff000000 \<longleftrightarrow> in_tunnel dst"
  by (auto simp: in_client_net_def in_server_net_def in_tunnel_def)

lemma lab7_route_loop:
  "route_loop rt d (lab7_table c) =
     (case lab7_next c (ip_dst (ip_header d)) of
        None \<Rightarrow> (Inr (), rt)
      | Some (N, hop) \<Rightarrow> send_on rt N d hop)"
proof -
  have l: "route_loop rt d (r # rs) =
      (if route_prefix r AND the (route_bitmask (prefix_length r)) = ip_dst (ip_header d) AND the (route_bitmask (prefix_length r))
       then send_on rt (interface_num r) d (case next_hop r of None \<Rightarrow> ip_dst (ip_header d) | Some hop \<Rightarrow> hop)
       else route_loop rt d rs)" if "prefix_length r \<in> {8, 12, 16}" for r rs
    using that lab7_masks by (auto simp del: One_nat_def split: option.split)
  show ?thesis
    using lab7_nets_disjoint [of "ip_dst (ip_header d)"]
    by (cases c) (simp_all add: lab7_table_eq lab7_next_def l lab7_masks lab7_matches del: route_loop.simps(2))
qed

text \<open>
  C36. At any time of its life the network thread forwards as intended: whatever frames have come in
  from the host and from the tunnel, whatever the kernel has answered, a datagram whose TTL has not
  run out goes to the host's side for an address of the own network, through the tunnel to the
  peer's router for an address of the peer's network, directly into the tunnel for one of 10/8, and
  is dropped otherwise; in each case with its TTL decremented.
\<close>

theorem lab7_forwards:
  assumes "lab7_loop env lab7_rules (new_lab7_net c r1 r2 f i) = (res, s)"
    and "1 < ttl (ip_header d)"
  shows "route_one_datagram (ln_router s) d =
    (let d' = d\<lparr>ip_header := (ip_header d)\<lparr>ttl := ttl (ip_header d) - 1\<rparr>\<rparr>
     in case lab7_next c (ip_dst (ip_header d)) of
          None \<Rightarrow> (Inr (), d', ln_router s)
        | Some (N, hop) \<Rightarrow> (let (r, rt) = send_on (ln_router s) N d' hop in (r, d', rt)))"
proof -
  have "routing_table (ln_router s) = lab7_table c"
    using lab7_loop_inv [OF assms(1) subset_refl lab7_inv_new] by (simp add: lab7_inv_def)
  then show ?thesis
    using assms(2) by (simp add: route_one_datagram_def lab7_route_loop Let_def split: option.split)
qed

text \<open>A datagram from the client's network to the server's, before anything has come in.\<close>

definition example_lab7_net :: lab7_net where
  "example_lab7_net = new_lab7_net True [0, 0, 0, 1, 2, 3] [0, 0, 0, 4, 5, 6] example_fd example_fd"

definition lab7_datagram :: ipv4_datagram where
  "lab7_datagram = \<lparr>ip_header = new_ipv4_header\<lparr>ip_src := 0xc0a80032, ip_dst := 0xac100064, ttl := 64\<rparr>, ip_payload = []\<rparr>"

theorem lab7_forwards_witness:
  "route_one_datagram (ln_router example_lab7_net) lab7_datagram =
    (let d' = lab7_datagram\<lparr>ip_header := (ip_header lab7_datagram)\<lparr>ttl := 63\<rparr>\<rparr>;
         (r, rt) = send_on (ln_router example_lab7_net) 1 d' 0x0a0000ac in (r, d', rt))"
proof -
  have l: "lab7_loop [] lab7_rules (new_lab7_net True [0, 0, 0, 1, 2, 3] [0, 0, 0, 4, 5, 6] example_fd example_fd) = (None, example_lab7_net)"
    by (simp add: example_lab7_net_def)
  have d: "1 < ttl (ip_header lab7_datagram)" "ttl (ip_header lab7_datagram) - 1 = 63"
    "lab7_next True (ip_dst (ip_header lab7_datagram)) = Some (1, 0x0a0000ac)" by code_simp+
  from lab7_forwards [OF l d(1)] show ?thesis by (simp add: d Let_def)
qed

end
