(* ===== verification/Packet_Dump.thy ===== *)
theory Packet_Dump
  imports Command_Line "HOL-Library.Monad_Syntax"
begin

text \<open>
  The packet dissector src/apps/udp_tcpdump.cc: its arguments, the link-layer and IP headers of a
  captured packet, and the text it prints for the TCP segment in a UDP datagram.  A captured packet
  is the list of its bytes; a read past the end of them is undefined in C++ and is \<open>None\<close> here.
  Capturing (libpcap) and \<open>inet_ntop\<close> for IPv6 addresses are arguments.
\<close>

unbundle bit_operations_syntax

section \<open>Arguments\<close>

fun dump_arguments :: "string option \<Rightarrow> string list \<Rightarrow> (string option \<times> string list) outcome" where
  "dump_arguments dev [] = Proceeds (dev, [])"
| "dump_arguments dev (opt # args) =
     (if strncmp_eq ''-i'' opt 3
      then (case args of
              [] \<Rightarrow> Exits 1 ''ERROR: -i requires an argument''
            | d # args \<Rightarrow> dump_arguments (Some d) args)
      else if strncmp_eq ''-h'' opt 3 \<or> strncmp_eq ''--help'' opt 7 then Exits 0 []
      else Proceeds (dev, opt # args))"

definition filter_expression :: "string list \<Rightarrow> string" where
  "filter_expression args = concat (map (\<lambda>a. a @ '' '') args)"

section \<open>The IP header\<close>

definition byte_at :: "bytes \<Rightarrow> nat \<Rightarrow> u8 option" where
  "byte_at data i = (if i < length data then Some (data ! i) else None)"

definition bytes_at :: "bytes \<Rightarrow> nat \<Rightarrow> nat \<Rightarrow> bytes option" where
  "bytes_at data i n = (if i + n \<le> length data then Some (take n (drop i data)) else None)"

definition inet4_addr :: "bytes \<Rightarrow> string" where
  "inet4_addr bs = inet_ntoa (be_int bs)"

definition inet6_addr :: "(bytes \<Rightarrow> string option) \<Rightarrow> bytes \<Rightarrow> string" where
  "inet6_addr ntop6 bs = (case ntop6 bs of None \<Rightarrow> ''unknown'' | Some s \<Rightarrow> s)"

text \<open>
  The walk along the IPv6 extension headers: \<open>Some None\<close> when the packet is refused, otherwise the
  offset of the UDP header.
\<close>

function skip_extensions :: "bytes \<Rightarrow> u8 \<Rightarrow> nat \<Rightarrow> nat option option" where
  "skip_extensions data nxt data_offset =
     (if nxt = 0x11 then Some (Some data_offset)
      else if nxt \<noteq> 0 \<and> nxt \<noteq> 43 \<and> nxt \<noteq> 60 then Some None
      else case (byte_at data data_offset, byte_at data (data_offset + 1)) of
        (Some nxt, Some l) \<Rightarrow>
          if length data < data_offset + 8 * (1 + unat l) + 2 then Some None
          else skip_extensions data nxt (data_offset + 8 * (1 + unat l))
      | _ \<Rightarrow> None)"
  by pat_completeness auto

termination skip_extensions
  by (relation "measure (\<lambda>(data, nxt, off). length data - off)") (auto simp: byte_at_def split: if_splits)

declare skip_extensions.simps [simp del]

text \<open>The result is \<open>-1\<close> or the offset of the UDP payload, with the two addresses.\<close>

definition process_ipv4_ipv6 :: "(bytes \<Rightarrow> string option) \<Rightarrow> bytes \<Rightarrow> (int \<times> string \<times> string) option" where
  "process_ipv4_ipv6 ntop6 data =
     (if length data < 1 then Some (- 1, [], [])
      else
        let pt = data ! 0 AND 0xf0 in
        if pt = 0x40
        then let data_offset = unat (data ! 0 AND 0x0f) * 4 in
             if length data < data_offset then Some (- 1, [], [])
             else do {
               protocol \<leftarrow> byte_at data 9;
               if protocol \<noteq> 0x11 then Some (- 1, [], [])
               else do {
                 src \<leftarrow> bytes_at data 12 4;
                 dst \<leftarrow> bytes_at data 16 4;
                 Some (int data_offset + 8, inet4_addr src, inet4_addr dst)
               }
             }
        else if pt = 0x60
        then if length data < 42 then Some (- 1, [], [])
             else do {
               nxt \<leftarrow> byte_at data 6;
               found \<leftarrow> skip_extensions data nxt 40;
               case found of
                 None \<Rightarrow> Some (- 1, [], [])
               | Some data_offset \<Rightarrow> do {
                   src \<leftarrow> bytes_at data 8 16;
                   dst \<leftarrow> bytes_at data 24 16;
                   Some (int data_offset + 8, inet6_addr ntop6 src, inet6_addr ntop6 dst)
                 }
             }
        else Some (- 1, [], []))"

section \<open>The link layer\<close>

datatype datalink = DLT_NULL | DLT_EN10MB | DLT_LINUX_SLL | DLT_LINUX_SLL2 | DLT_RAW | DLT_Other

definition is_ip_type :: "u8 \<Rightarrow> u8 \<Rightarrow> bool" where
  "is_ip_type hi lo = (let pt = push_bit 8 (ucast hi) OR ucast lo :: u16 in pt = 0x0800 \<or> pt = 0x86dd)"

text \<open>The size of the link-layer header, or the message with which the packet is skipped.\<close>

definition link_header :: "datalink \<Rightarrow> bytes \<Rightarrow> string + nat" where
  "link_header dl_type pkt =
     (let malformed = Inl ''[INFO] Skipping malformed packet.''; non_ip = Inl ''[INFO] Skipping non-IP packet.''
      in case dl_type of
           DLT_NULL \<Rightarrow>
             if length pkt < 4 then malformed
             else if pkt ! 3 \<noteq> 2 \<and> pkt ! 3 \<noteq> 24 \<and> pkt ! 3 \<noteq> 28 \<and> pkt ! 3 \<noteq> 30 then non_ip else Inr 4
         | DLT_EN10MB \<Rightarrow>
             if length pkt < 14 then malformed else if \<not> is_ip_type (pkt ! 12) (pkt ! 13) then non_ip else Inr 14
         | DLT_LINUX_SLL \<Rightarrow>
             if length pkt < 16 then malformed else if \<not> is_ip_type (pkt ! 14) (pkt ! 15) then non_ip else Inr 16
         | DLT_LINUX_SLL2 \<Rightarrow>
             if length pkt < 20 then malformed else if \<not> is_ip_type (pkt ! 0) (pkt ! 1) then non_ip else Inr 20
         | DLT_RAW \<Rightarrow> Inr 0
         | DLT_Other \<Rightarrow> Inl ''Mysterious datalink type. Giving up.'')"

section \<open>The text\<close>

definition show_payload :: "string \<Rightarrow> string \<Rightarrow> bytes \<Rightarrow> string" where
  "show_payload src dst payload =
     (case tcp_segment_parse new_tcp_segment payload 0 of
        (res, seg) \<Rightarrow>
          (if res \<noteq> NoError \<and> res \<noteq> BadChecksum
           then ''(did not recognize TCP header) src: '' @ src @ '' dst: '' @ dst @ newline
           else
             let h = seg_header seg;
                 seqlen = (ucast (length_in_sequence_space seg) :: u32)
             in src @ '':'' @ show_dec (unat (sport h)) @ '' > '' @ dst @ '':'' @ show_dec (unat (dport h)) @ newline @
                ''    Flags ['' @ (if urg h then ''U'' else []) @ (if psh h then ''P'' else []) @ (if rst h then ''R'' else []) @
                (if syn h then ''S'' else []) @ (if fin h then ''F'' else []) @ (if ack h then ''.'' else []) @
                ''] cksum 0x'' @ pad_zeros 4 (show_hex (unat (th_cksum h))) @
                (if res = NoError then '' (correct)'' else '' (incorrect!)'') @
                '' seq '' @ show_dec (unat (raw_value (seqno h))) @
                (if 0 < seqlen then '':'' @ show_dec (unat (raw_value (wi_plus (seqno h) seqlen))) else []) @
                '' ack '' @ show_dec (unat (raw_value (ackno h))) @ '' win '' @ show_dec (unat (win h)) @
                '' length '' @ show_dec (length payload) @ newline)
          @ hexdump payload 8)"

text \<open>
  What happens to one packet: it is shown, skipped, the program gives up, or the behaviour is
  undefined (a read past the packet, or a payload that would start behind its end, the length of
  which wraps around).
\<close>

datatype dump = Shown string | Skipped string | Gives_Up string | Undefined

definition dump_packet :: "(bytes \<Rightarrow> string option) \<Rightarrow> datalink \<Rightarrow> bytes \<Rightarrow> dump" where
  "dump_packet ntop6 dl_type pkt =
     (case link_header dl_type pkt of
        Inl msg \<Rightarrow> if dl_type = DLT_Other then Gives_Up msg else Skipped msg
      | Inr hdr_off \<Rightarrow>
          (case process_ipv4_ipv6 ntop6 (drop hdr_off pkt) of
             None \<Rightarrow> Undefined
           | Some (start_off, src, dst) \<Rightarrow>
               if start_off < 0 then Skipped ''Error parsing IPv4/IPv6 packet. Skipping.''
               else
                 let payload_off = (of_nat hdr_off + of_int start_off :: u64);
                     payload_len = str_size pkt - payload_off
                 in if length pkt < unat payload_off + unat payload_len then Undefined
                    else Shown (show_payload src dst (take (unat payload_len) (drop (unat payload_off) pkt)))))"

text \<open>The loop over the captured packets: it ends when the program gives up.\<close>

fun dump_packets :: "(bytes \<Rightarrow> string option) \<Rightarrow> datalink \<Rightarrow> bytes list \<Rightarrow> dump list" where
  "dump_packets ntop6 dl_type [] = []"
| "dump_packets ntop6 dl_type (pkt # pkts) =
     (case dump_packet ntop6 dl_type pkt of
        Gives_Up msg \<Rightarrow> [Gives_Up msg]
      | Undefined \<Rightarrow> [Undefined]
      | d \<Rightarrow> d # dump_packets ntop6 dl_type pkts)"

section \<open>Reads stay inside the packet\<close>

lemma skip_extensions_inside:
  "data_offset + 2 \<le> length data \<Longrightarrow>
   \<exists>r. skip_extensions data nxt data_offset = Some r \<and>
       (\<forall>off. r = Some off \<longrightarrow> data_offset \<le> off \<and> off + 2 \<le> length data)"
proof (induction data nxt data_offset rule: skip_extensions.induct)
  case (1 data nxt data_offset)
  then have b: "byte_at data data_offset = Some (data ! data_offset)"
    "byte_at data (data_offset + 1) = Some (data ! (data_offset + 1))"
    by (simp_all add: byte_at_def)
  show ?case
    using 1 b by (subst skip_extensions.simps) fastforce
qed

lemma process_ipv6:
  assumes "42 \<le> length data" "data ! 0 AND 0xf0 = 0x60"
  shows "\<exists>r s d. process_ipv4_ipv6 ntop6 data = Some (r, s, d) \<and>
    (r = - 1 \<or> 48 \<le> r \<and> r \<le> int (length data) + 6)"
proof -
  obtain x where x: "skip_extensions data (data ! 6) 40 = Some x" "\<And>off. x = Some off \<Longrightarrow> 40 \<le> off \<and> off + 2 \<le> length data"
    using skip_extensions_inside [of 40 data "data ! 6"] assms(1) by auto
  show ?thesis
    using assms x by (cases x) (auto simp: process_ipv4_ipv6_def Let_def byte_at_def bytes_at_def)
qed

lemma process_ipv4:
  assumes "data \<noteq> []" "data ! 0 AND 0xf0 = 0x40" "unat (data ! 0 AND 0x0f) * 4 \<le> length data"
  shows "process_ipv4_ipv6 ntop6 data =
    (if length data < 10 then None
     else if data ! 9 \<noteq> 0x11 then Some (- 1, [], [])
     else if length data < 20 then None
     else Some (int (unat (data ! 0 AND 0x0f) * 4) + 8, inet4_addr (take 4 (drop 12 data)), inet4_addr (take 4 (drop 16 data))))"
proof -
  have "length data \<noteq> 0" using assms(1) by simp
  then show ?thesis
    using assms(2,3) by (simp add: process_ipv4_ipv6_def Let_def byte_at_def bytes_at_def)
qed

lemma process_other:
  assumes "\<not> (data \<noteq> [] \<and> data ! 0 AND 0xf0 = 0x40 \<and> unat (data ! 0 AND 0x0f) * 4 \<le> length data)"
    and "\<not> (42 \<le> length data \<and> data ! 0 AND 0xf0 = 0x60)"
  shows "process_ipv4_ipv6 ntop6 data = Some (- 1, [], [])"
  using assms by (auto simp: process_ipv4_ipv6_def Let_def)

text \<open>
  C38. The dissector stays inside the packet except in one case, and its answer is \<open>-1\<close> or points at
  most 8 bytes behind the packet: an IPv6 packet is never read out of bounds, whatever its extension
  headers say, and an IPv4 packet exactly when it passes the check of its header length but is
  shorter than the fields that are then read (10 bytes, or 20 for UDP).
\<close>

theorem dissector_bounds:
  "(process_ipv4_ipv6 ntop6 data = None \<longleftrightarrow>
      data \<noteq> [] \<and> data ! 0 AND 0xf0 = 0x40 \<and> unat (data ! 0 AND 0x0f) * 4 \<le> length data \<and>
      (length data < 10 \<or> data ! 9 = 0x11 \<and> length data < 20)) \<and>
   (\<forall>r s d. process_ipv4_ipv6 ntop6 data = Some (r, s, d) \<longrightarrow> r = - 1 \<or> 8 \<le> r \<and> r \<le> int (length data) + 8)"
proof -
  consider (v4) "data \<noteq> []" "data ! 0 AND 0xf0 = 0x40" "unat (data ! 0 AND 0x0f) * 4 \<le> length data"
    | (v6) "42 \<le> length data" "data ! 0 AND 0xf0 = 0x60"
    | (other) "\<not> (data \<noteq> [] \<and> data ! 0 AND 0xf0 = 0x40 \<and> unat (data ! 0 AND 0x0f) * 4 \<le> length data)"
        "\<not> (42 \<le> length data \<and> data ! 0 AND 0xf0 = 0x60)"
    by blast
  then show ?thesis
  proof cases
    case v4
    define n where "n = unat (data ! 0 AND 0x0f) * 4"
    note p = process_ipv4 [OF v4, of ntop6, folded n_def]
    from v4 show ?thesis unfolding p n_def [symmetric] by auto
  next
    case v6
    then show ?thesis using process_ipv6 [OF v6, of ntop6] by auto
  next
    case other
    then show ?thesis by (simp add: process_other) blast
  qed
qed

definition example_packet :: bytes where
  "example_packet = [0x45, 0, 0, 20, 0, 0, 0, 0, 64, 17, 0, 0, 10, 0, 0, 1, 10, 0, 0, 2]"

lemma process_example_packet: "process_ipv4_ipv6 ntop6 example_packet = Some (28, ''10.0.0.1'', ''10.0.0.2'')"
proof -
  have "inet4_addr [10, 0, 0, 1] = ''10.0.0.1''" "inet4_addr [10, 0, 0, 2] = ''10.0.0.2''"
    by (simp_all add: inet4_addr_def be_int_def inet_ntoa_def Let_def show_dec.simps digit_char_def)
  then show ?thesis by (simp add: process_ipv4 example_packet_def)
qed

theorem dissector_bounds_witness:
  "process_ipv4_ipv6 (\<lambda>_. None) example_packet = Some (28, ''10.0.0.1'', ''10.0.0.2'') \<and>
   ((28 :: int) = - 1 \<or> 8 \<le> (28 :: int) \<and> 28 \<le> int (length example_packet) + 8)"
  using conjunct2 [OF dissector_bounds, of "\<lambda>_. None" example_packet] process_example_packet by blast

text \<open>
  The two undefined cases are reachable: a one-byte packet that claims a header of length 0, and
  the packet above, whose UDP header is missing.
\<close>

lemma short_ipv4_header_undefined: "dump_packet ntop6 DLT_RAW [0x40] = Undefined"
  by (simp add: dump_packet_def link_header_def process_ipv4_ipv6_def byte_at_def Let_def)

lemma missing_udp_header_undefined: "dump_packet ntop6 DLT_RAW example_packet = Undefined"
  by (simp add: dump_packet_def link_header_def process_example_packet Let_def) (simp add: example_packet_def)

end
