(* ===== verification/TCP_Benchmark.thy ===== *)
theory TCP_Benchmark
  imports Sponge_Socket
begin

text \<open>
  The benchmark src/apps/tcp_benchmark.cc: two connections that exchange their segments directly,
  in order or with every batch reversed, until all bytes have arrived.  The bytes to send and the
  random initial sequence numbers are arguments; the clock and the printed throughput are left out.
\<close>

section \<open>The model\<close>

text \<open>The vector \<open>segments\<close> is empty before and after.\<close>

definition move_segments :: "tcp_connection \<Rightarrow> tcp_connection \<Rightarrow> bool \<Rightarrow> tcp_connection \<times> tcp_connection" where
  "move_segments x y reorder =
     (let segments = segments_out x
      in (x\<lparr>segments_out := []\<rparr>, foldl segment_received y (if reorder then rev segments else segments)))"

text \<open>The inner loop that writes as much as \<open>x\<close> has room for.\<close>

function write_input :: "tcp_connection \<Rightarrow> bytes \<Rightarrow> (exn + unit) \<times> tcp_connection \<times> bytes" where
  "write_input x bytes_to_send =
     (if str_size bytes_to_send \<noteq> 0 \<and> remaining_outbound_capacity x \<noteq> 0
      then let want = min (remaining_outbound_capacity x) (str_size bytes_to_send);
               (x, written) = tc_write x (take (unat want) bytes_to_send)
           in if want \<noteq> written
              then (Inl (Runtime_Error (''want = '' @ show_dec (unat want) @ '', written = '' @ show_dec (unat written))), x, bytes_to_send)
              else write_input x (drop (unat written) bytes_to_send)
      else (Inr (), x, bytes_to_send))"
  by pat_completeness auto

termination write_input
proof (relation "measure (\<lambda>(x, bs). length bs)")
  fix x bs want z xc written
  assume a: "str_size bs \<noteq> 0 \<and> remaining_outbound_capacity x \<noteq> 0"
    "want = min (remaining_outbound_capacity x) (str_size bs)" "\<not> want \<noteq> written"
  then have "0 < unat written" by (auto simp: min_def unat_gt_0 split: if_splits)
  moreover have "bs \<noteq> []" using a(1) by (auto simp: str_size_def)
  ultimately show "((xc, drop (unat written) bs), x, bs) \<in> measure (\<lambda>(x, bs). length bs)" by simp
qed simp

declare write_input.simps [simp del]

record bench =
  bm_x :: tcp_connection
  bm_y :: tcp_connection
  bm_to_send :: bytes
  bm_x_closed :: bool
  bm_received :: bytes

definition new_bench :: "tcp_config \<Rightarrow> u32 \<Rightarrow> u32 \<Rightarrow> bytes \<Rightarrow> bench" where
  "new_bench config rx ry string_to_send =
     \<lparr>bm_x = connect (new_tcp_connection config rx), bm_y = end_input_stream (new_tcp_connection config ry),
      bm_to_send = string_to_send, bm_x_closed = False, bm_received = []\<rparr>"

definition bench_close :: "bench \<Rightarrow> bench" where
  "bench_close b =
     (if str_size (bm_to_send b) = 0 \<and> \<not> bm_x_closed b
      then b\<lparr>bm_x := end_input_stream (bm_x b), bm_x_closed := True\<rparr> else b)"

definition bench_exchange :: "bool \<Rightarrow> bench \<Rightarrow> bench" where
  "bench_exchange reorder b =
     (let (x, y) = move_segments (bm_x b) (bm_y b) reorder;
          (y, x) = move_segments y x False
      in b\<lparr>bm_x := x, bm_y := y\<rparr>)"

definition bench_read :: "bench \<Rightarrow> bench" where
  "bench_read b =
     (let available_output = bs_buffer_size (inbound_stream (bm_y b))
      in if 0 < available_output
         then let (y, got) = tc_read (bm_y b) available_output in b\<lparr>bm_y := y, bm_received := bm_received b @ got\<rparr>
         else b)"

definition bench_tick :: "bench \<Rightarrow> bench" where
  "bench_tick b = b\<lparr>bm_x := tc_tick (bm_x b) 1000, bm_y := tc_tick (bm_y b) 1000\<rparr>"

definition bench_loop :: "bool \<Rightarrow> bench \<Rightarrow> (exn + unit) \<times> bench" where
  "bench_loop reorder b =
     (case write_input (bm_x b) (bm_to_send b) of
        (Inl ex, x, rest) \<Rightarrow> (Inl ex, b\<lparr>bm_x := x, bm_to_send := rest\<rparr>)
      | (Inr _, x, rest) \<Rightarrow>
          (Inr (), bench_tick (bench_read (bench_exchange reorder (bench_close (b\<lparr>bm_x := x, bm_to_send := rest\<rparr>))))))"

text \<open>\<open>while (cond) loop();\<close> for at most \<open>n\<close> rounds; \<open>None\<close> means that it has not ended by then.\<close>

fun bench_while :: "nat \<Rightarrow> (bench \<Rightarrow> bool) \<Rightarrow> bool \<Rightarrow> bench \<Rightarrow> (exn + unit) option \<times> bench" where
  "bench_while 0 cond reorder b = (if cond b then None else Some (Inr ()), b)"
| "bench_while (Suc n) cond reorder b =
     (if \<not> cond b then (Some (Inr ()), b)
      else case bench_loop reorder b of
        (Inl ex, b) \<Rightarrow> (Some (Inl ex), b)
      | (Inr _, b) \<Rightarrow> bench_while n cond reorder b)"

definition bench_main :: "nat \<Rightarrow> nat \<Rightarrow> bool \<Rightarrow> tcp_config \<Rightarrow> u32 \<Rightarrow> u32 \<Rightarrow> bytes \<Rightarrow> (exn + unit) option \<times> bench" where
  "bench_main n m reorder config rx ry string_to_send =
     (case bench_while n (\<lambda>b. \<not> bs_eof (inbound_stream (bm_y b))) reorder (new_bench config rx ry string_to_send) of
        (Some (Inr _), b) \<Rightarrow>
          if bm_received b \<noteq> string_to_send
          then (Some (Inl (Runtime_Error ''strings sent vs. received don't match'')), b)
          else bench_while m (\<lambda>b. active (bm_x b) \<or> active (bm_y b)) reorder b
      | r \<Rightarrow> r)"

section \<open>The connections of the benchmark\<close>

text \<open>
  The two connections as endpoints of \<open>ep_op\<close>, each of which receives only what the other has
  sent.
\<close>

inductive net_op :: "endpoint \<times> endpoint \<Rightarrow> endpoint \<times> endpoint \<Rightarrow> bool" where
  left: "ep_op (ep_sent b) a a' \<Longrightarrow> net_op (a, b) (a', b)"
| right: "ep_op (ep_sent a) b b' \<Longrightarrow> net_op (a, b) (a, b')"

abbreviation net_run :: "endpoint \<times> endpoint \<Rightarrow> endpoint \<times> endpoint \<Rightarrow> bool" where
  "net_run \<equiv> net_op\<^sup>*\<^sup>*"

lemma net_run_left: "net_run p (a, b) \<Longrightarrow> ep_op (ep_sent b) a a' \<Longrightarrow> net_run p (a', b)"
  using net_op.left by (metis rtranclp.rtrancl_into_rtrancl)

lemma net_run_right: "net_run p (a, b) \<Longrightarrow> ep_op (ep_sent a) b b' \<Longrightarrow> net_run p (a, b')"
  using net_op.right by (metis rtranclp.rtrancl_into_rtrancl)

lemma net_op_swap: "net_op (a, b) (a', b') \<Longrightarrow> net_op (b, a) (b', a')"
  by (auto elim!: net_op.cases intro: net_op.intros)

lemma net_run_swap: "net_run (a, b) (a', b') \<Longrightarrow> net_run (b, a) (b', a')"
proof (induction "(a', b')" arbitrary: a' b' rule: rtranclp_induct)
  case (step p)
  obtain c d where "p = (c, d)" by (cases p)
  with step show ?case using net_op_swap by (metis rtranclp.rtrancl_into_rtrancl)
qed simp

text \<open>Any call of the connection at the left, and delivering segments to the right.\<close>

lemma net_run_call:
  assumes "net_run p (a, b)" "tc_local x"
  shows "net_run p (a\<lparr>ep_conn := fst (tc_exec (ep_conn a, ep_written a) x),
    ep_written := snd (tc_exec (ep_conn a, ep_written a) x)\<rparr>, b)"
  using net_run_left [OF assms(1) ep_op.call [OF assms(2)]] by simp

lemma net_run_take:
  "\<lbrakk>net_run p (a, b); segments_out (ep_conn a) = segs\<rbrakk> \<Longrightarrow>
   net_run p (a\<lparr>ep_conn := (ep_conn a)\<lparr>segments_out := []\<rparr>, ep_sent := ep_sent a \<union> set segs\<rparr>, b)"
proof (induction segs arbitrary: a)
  case Nil
  have "(ep_conn a)\<lparr>segments_out := []\<rparr> = ep_conn a" by (rule tcp_connection.equality) (simp_all add: Nil)
  then have "a\<lparr>ep_conn := (ep_conn a)\<lparr>segments_out := []\<rparr>, ep_sent := ep_sent a \<union> set []\<rparr> = a"
    by (intro endpoint.equality) simp_all
  then show ?case using Nil(1) by (simp only:)
next
  case (Cons seg segs)
  have "net_run p (a\<lparr>ep_conn := (ep_conn a)\<lparr>segments_out := segs\<rparr>, ep_sent := insert seg (ep_sent a)\<rparr>, b)"
    by (rule net_run_left [OF Cons.prems(1) ep_op.send [OF Cons.prems(2)]])
  from Cons.IH [OF this] show ?case by simp
qed

lemma net_run_deliver:
  "\<lbrakk>net_run p (a, b); set segs \<subseteq> ep_sent a\<rbrakk> \<Longrightarrow> net_run p (a, b\<lparr>ep_conn := foldl segment_received (ep_conn b) segs\<rparr>)"
proof (induction segs arbitrary: b)
  case (Cons seg segs)
  then have "net_run p (a, b\<lparr>ep_conn := segment_received (ep_conn b) seg\<rparr>)"
    by (intro net_run_right [OF Cons.prems(1) ep_op.receive]) simp
  from Cons.IH [OF this] Cons.prems show ?case by simp
qed simp

lemma net_run_move:
  assumes "net_run p (a, b)"
  shows "net_run p (a\<lparr>ep_conn := fst (move_segments (ep_conn a) (ep_conn b) r), ep_sent := ep_sent a \<union> set (segments_out (ep_conn a))\<rparr>,
    b\<lparr>ep_conn := snd (move_segments (ep_conn a) (ep_conn b) r)\<rparr>)"
  using net_run_deliver [OF net_run_take [OF assms refl], of "if r then rev (segments_out (ep_conn a)) else segments_out (ep_conn a)"]
  by (simp add: move_segments_def Let_def)

lemma tc_safe_fold: "tc_safe c \<Longrightarrow> tc_safe (foldl segment_received c segs)"
  by (induction segs arbitrary: c) (simp_all add: tc_safe_segment_received)

lemma tc_safe_move: "tc_safe x \<Longrightarrow> tc_safe y \<Longrightarrow> tc_safe (fst (move_segments x y r)) \<and> tc_safe (snd (move_segments x y r))"
  by (simp add: move_segments_def Let_def tc_safe_fold) (simp add: tc_safe_def)

section \<open>What a round does\<close>

text \<open>
  The invariant: the connections have been driven by the operations of endpoints only, what was
  written to \<open>x\<close> and what is still to be written make up \<open>S\<close>, and what was received is what was
  read from \<open>y\<close>.
\<close>

definition bench_inv :: "endpoint \<times> endpoint \<Rightarrow> bytes \<Rightarrow> bench \<Rightarrow> bool" where
  "bench_inv p S b \<longleftrightarrow> tc_safe (bm_x b) \<and> tc_safe (bm_y b) \<and>
     (\<exists>ex ey. net_run p (ex, ey) \<and> ep_conn ex = bm_x b \<and> ep_conn ey = bm_y b \<and>
        ep_written ex @ bm_to_send b = S \<and> ep_written ey = [] \<and> ep_read ey = bm_received b)"

lemma bench_invI:
  "\<lbrakk>net_run p (ex, ey); ep_conn ex = bm_x b; ep_conn ey = bm_y b; ep_written ex @ bm_to_send b = S; ep_written ey = [];
    ep_read ey = bm_received b; tc_safe (bm_x b); tc_safe (bm_y b)\<rbrakk> \<Longrightarrow> bench_inv p S b"
  by (auto simp: bench_inv_def)

lemma bench_invE:
  assumes "bench_inv p S b"
  obtains ex ey where "net_run p (ex, ey)" "ep_conn ex = bm_x b" "ep_conn ey = bm_y b" "ep_written ex @ bm_to_send b = S"
    "ep_written ey = []" "ep_read ey = bm_received b" "tc_safe (bm_x b)" "tc_safe (bm_y b)"
  using assms by (auto simp: bench_inv_def)

lemma write_input_inv:
  assumes "length S < two64"
  shows "bench_inv p S b \<Longrightarrow> write_input (bm_x b) (bm_to_send b) = (r, x, rest) \<Longrightarrow>
    r = Inr () \<and> bench_inv p S (b\<lparr>bm_x := x, bm_to_send := rest\<rparr>)"
proof (induction "bm_x b" "bm_to_send b" arbitrary: b rule: write_input.induct)
  case 1
  let ?want = "min (remaining_outbound_capacity (bm_x b)) (str_size (bm_to_send b))"
  let ?d = "take (unat ?want) (bm_to_send b)"
  obtain c n where w: "tc_write (bm_x b) ?d = (c, n)" by (cases "tc_write (bm_x b) ?d")
  from 1(2) obtain ex ey where e: "net_run p (ex, ey)" "ep_conn ex = bm_x b" "ep_conn ey = bm_y b"
      "ep_written ex @ bm_to_send b = S" "ep_written ey = []" "ep_read ey = bm_received b" and safe: "tc_safe (bm_x b)" "tc_safe (bm_y b)"
    by (rule bench_invE)
  have len: "length (bm_to_send b) < two64" using assms e(4) by auto
  have d: "length ?d = unat ?want" "length ?d \<le> unat (remaining_outbound_capacity (bm_x b))"
    using len by (auto simp: min_def word_le_nat_alt unat_str_size)
  then have n: "n = str_size ?d" using tc_write_all [OF safe(1) d(2)] w by simp
  then have nw: "n = ?want" using d(1) by (simp add: str_size_def)
  let ?b = "b\<lparr>bm_x := c, bm_to_send := drop (unat n) (bm_to_send b)\<rparr>"
  have "net_run p (ex\<lparr>ep_conn := c, ep_written := ep_written ex @ ?d\<rparr>, ey)"
    using net_run_call [OF e(1), of "TWrite ?d"] e(2) w nw by simp
  then have inv: "bench_inv p S ?b"
    by (rule bench_invI) (use safe e nw tc_safe_exec [OF safe(1), of "TWrite ?d" "[]"] len w in simp_all)
  show ?case
  proof (cases "str_size (bm_to_send b) \<noteq> 0 \<and> remaining_outbound_capacity (bm_x b) \<noteq> 0")
    case True
    then have "write_input c (drop (unat n) (bm_to_send b)) = (r, x, rest)"
      using 1(3) w nw by (subst (asm) write_input.simps) (simp add: Let_def)
    with 1(1) [OF True refl refl, of ?b n] w nw inv show ?thesis by simp
  next
    case False
    then show ?thesis using 1(2,3) by (subst (asm) write_input.simps) auto
  qed
qed

lemma bench_close_inv:
  assumes "bench_inv p S b"
  shows "bench_inv p S (bench_close b)"
proof -
  from assms obtain ex ey where e: "net_run p (ex, ey)" "ep_conn ex = bm_x b" "ep_conn ey = bm_y b"
      "ep_written ex @ bm_to_send b = S" "ep_written ey = []" "ep_read ey = bm_received b" "tc_safe (bm_x b)" "tc_safe (bm_y b)"
    by (rule bench_invE)
  have "bench_inv p S (b\<lparr>bm_x := end_input_stream (bm_x b), bm_x_closed := True\<rparr>)"
    by (rule bench_invI [OF net_run_call [OF e(1), of TEnd]]) (use e tc_safe_exec [OF e(7), of TEnd "[]"] in simp_all)
  with assms show ?thesis by (simp add: bench_close_def)
qed

lemma bench_exchange_inv:
  assumes "bench_inv p S b"
  shows "bench_inv p S (bench_exchange r b)"
proof -
  from assms obtain ex ey where e: "net_run p (ex, ey)" "ep_conn ex = bm_x b" "ep_conn ey = bm_y b"
      "ep_written ex @ bm_to_send b = S" "ep_written ey = []" "ep_read ey = bm_received b" "tc_safe (bm_x b)" "tc_safe (bm_y b)"
    by (rule bench_invE)
  obtain x y where m1: "move_segments (bm_x b) (bm_y b) r = (x, y)" by fastforce
  obtain y' x' where m2: "move_segments y x False = (y', x')" by fastforce
  have safe: "tc_safe x" "tc_safe y" "tc_safe x'" "tc_safe y'"
    using tc_safe_move [OF e(7,8), of r] tc_safe_move [of y x False] m1 m2 by auto
  obtain p1 p2 where p: "p = (p1, p2)" by (cases p)
  note run1 = net_run_move [OF e(1), of r, unfolded e(2,3) m1 fst_conv snd_conv, unfolded p]
  note run2 = net_run_swap [OF net_run_move [OF net_run_swap [OF run1], of False]]
  show ?thesis
    unfolding bench_exchange_def m1 Let_def prod.case m2 p
    by (rule bench_invI [OF run2]) (use e safe m2 in \<open>simp_all\<close>)
qed

lemma bench_read_inv:
  assumes "bench_inv p S b"
  shows "bench_inv p S (bench_read b)"
proof -
  from assms obtain ex ey where e: "net_run p (ex, ey)" "ep_conn ex = bm_x b" "ep_conn ey = bm_y b"
      "ep_written ex @ bm_to_send b = S" "ep_written ey = []" "ep_read ey = bm_received b" "tc_safe (bm_x b)" "tc_safe (bm_y b)"
    by (rule bench_invE)
  obtain y got where rd: "tc_read (bm_y b) (bs_buffer_size (inbound_stream (bm_y b))) = (y, got)" by fastforce
  have "bench_inv p S (b\<lparr>bm_y := y, bm_received := bm_received b @ got\<rparr>)"
    by (rule bench_invI [OF net_run_right [OF e(1) ep_op.read [OF rd [folded e(3)]]]])
      (use e tc_safe_exec [OF e(8), of "TRead (bs_buffer_size (inbound_stream (bm_y b)))" "[]"] rd in simp_all)
  with assms show ?thesis unfolding bench_read_def Let_def rd prod.case
    by (cases "0 < bs_buffer_size (inbound_stream (bm_y b))") (simp_all only: if_True if_False)
qed

lemma bench_tick_inv:
  assumes "bench_inv p S b"
  shows "bench_inv p S (bench_tick b)"
proof -
  from assms obtain ex ey where e: "net_run p (ex, ey)" "ep_conn ex = bm_x b" "ep_conn ey = bm_y b"
      "ep_written ex @ bm_to_send b = S" "ep_written ey = []" "ep_read ey = bm_received b" "tc_safe (bm_x b)" "tc_safe (bm_y b)"
    by (rule bench_invE)
  obtain p1 p2 where p: "p = (p1, p2)" by (cases p)
  note run1 = net_run_call [OF e(1), of "TTick 1000", unfolded p, simplified]
  note run2 = net_run_swap [OF net_run_call [OF net_run_swap [OF run1], of "TTick 1000", simplified]]
  show ?thesis unfolding p
    by (rule bench_invI [OF run2])
      (use e tc_safe_exec [OF e(7), of "TTick 1000" "[]"] tc_safe_exec [OF e(8), of "TTick 1000" "[]"] in \<open>simp_all add: bench_tick_def\<close>)
qed

lemma bench_loop_inv:
  assumes "length S < two64" "bench_inv p S b"
  shows "fst (bench_loop r b) = Inr () \<and> bench_inv p S (snd (bench_loop r b))"
proof -
  obtain res x rest where w: "write_input (bm_x b) (bm_to_send b) = (res, x, rest)" by (metis prod_cases3)
  from write_input_inv [OF assms w] show ?thesis
    by (simp add: bench_loop_def w bench_tick_inv bench_read_inv bench_exchange_inv bench_close_inv)
qed

lemma bench_while_inv:
  assumes "length S < two64"
  shows "bench_inv p S b \<Longrightarrow> bench_while n cond r b = (res, b') \<Longrightarrow>
    (res = None \<or> res = Some (Inr ()) \<and> \<not> cond b') \<and> bench_inv p S b'"
proof (induction n arbitrary: b)
  case (Suc n)
  then show ?case using bench_loop_inv [OF assms, of p b r] by (auto split: if_splits prod.splits sum.splits)
qed (auto split: if_splits)

lemma bench_inv_new:
  "bench_inv (new_endpoint cf rx, new_endpoint cf ry) S (new_bench cf rx ry S)"
proof -
  have 1: "net_run (new_endpoint cf rx, new_endpoint cf ry) (new_endpoint cf rx, new_endpoint cf ry)" by simp
  note 2 = net_run_swap [OF net_run_call [OF net_run_swap [OF net_run_call [OF 1, of TConnect, simplified]], of TEnd, simplified]]
  show ?thesis
    by (rule bench_invI [OF 2])
      (use tc_safe_exec [OF tc_safe_new, of TConnect cf rx "[]"] tc_safe_exec [OF tc_safe_new, of TEnd cf ry "[]"] in
        \<open>simp_all add: new_bench_def new_endpoint_def\<close>)
qed

section \<open>Properties\<close>

text \<open>
  C34. The benchmark only drives its two connections: after any number of rounds, with and without
  reordering, they are in a state that the operations of two endpoints reach, where each receives
  only segments the other has sent; what was written to \<open>x\<close> followed by what is left is the string
  to send, what was collected is what was read from \<open>y\<close>, in order, and the check that a write
  accepts all the bytes offered never fires.
\<close>

theorem benchmark_refines_endpoints:
  assumes "length S < two64"
    and "bench_while n cond reorder (new_bench cf rx ry S) = (res, b)"
  shows "(res = None \<or> res = Some (Inr ()) \<and> \<not> cond b) \<and>
    (\<exists>ex ey. net_op\<^sup>*\<^sup>* (new_endpoint cf rx, new_endpoint cf ry) (ex, ey) \<and> ep_conn ex = bm_x b \<and> ep_conn ey = bm_y b \<and>
       ep_written ex @ bm_to_send b = S \<and> ep_written ey = [] \<and> ep_read ey = bm_received b)"
  using bench_while_inv [OF assms(1) bench_inv_new assms(2)] by (auto simp: bench_inv_def)

definition bench_config :: tcp_config where
  "bench_config = \<lparr>rt_timeout = 1000, recv_capacity = 4, send_capacity = 4, fixed_isn = None\<rparr>"

abbreviation bench_example where
  "bench_example \<equiv> bench_while 2 (\<lambda>_. True) True (new_bench bench_config 5 9 [1, 2, 3, 4, 5, 6, 7])"

text \<open>Two rounds with reordering: the first exchange has brought the SYN, and the loop goes on.\<close>

theorem benchmark_refines_endpoints_witness:
  "fst bench_example = None \<and>
   (\<exists>ex ey. net_op\<^sup>*\<^sup>* (new_endpoint bench_config 5, new_endpoint bench_config 9) (ex, ey) \<and>
      ep_written ex @ bm_to_send (snd bench_example) = [1, 2, 3, 4, 5, 6, 7] \<and> ep_read ey = bm_received (snd bench_example))"
proof -
  obtain res b where b: "bench_example = (res, b)" by (cases bench_example)
  have "length [1, 2, 3, 4, 5, 6, 7 :: u8] < two64" by simp
  from benchmark_refines_endpoints [OF this b] show ?thesis unfolding b fst_conv snd_conv by blast
qed

end
