(* ===== verification/Spec2Isabelle.thy ===== *)
theory Spec2Isabelle
  imports Applications Lab7 Packet_Dump TCP_Benchmark
begin

text \<open>
  A verification development for the Sponge user-space TCP/IP stack (src/libsponge) and the programs
  built on it (src/apps).

  \<^bold>\<open>The program.\<close>  A \<open>TCPConnection\<close> joins a \<open>TCPReceiver\<close> (a \<open>StreamReassembler\<close> that writes into a
  \<open>ByteStream\<close>) and a \<open>TCPSender\<close> (a \<open>ByteStream\<close> that is cut into segments, with a retransmission
  timer); both use 32-bit wrapping sequence numbers.  Adapters turn segments into UDP payloads, IPv4
  datagrams on a TUN device or Ethernet frames on a TAP device; for the latter a \<open>NetworkInterface\<close>
  resolves addresses by ARP.  A \<open>Router\<close> forwards datagrams between interfaces.  A \<open>TCPSpongeSocket\<close>
  runs a connection over an adapter in an \<open>EventLoop\<close>, and exchanges bytes with its owner through a
  socket pair.  The programs copy streams, relay and print packets, simulate a network or measure
  the speed of two connections.

  \<^bold>\<open>Conventions.\<close>  Integers keep their width (\<open>size_t\<close> and \<open>uint64_t\<close> are 64-bit words, and so on), so
  all arithmetic wraps as in C++; a class is a record and a member function returns the updated
  record; an exception is a value of \<open>exn\<close> in a sum type, together with the state it leaves
  behind; undefined behaviour is a value of its own where the code can reach it.  System calls, the
  clock and the random device are arguments: \<open>'a reply\<close> is an answer of the kernel, and theorems
  hold for all answers unless they say otherwise.  A loop without a bound runs over a list of such
  answers (or a number of rounds), and \<open>None\<close> says that it is still running when they are used up.

  \<^bold>\<open>Shared theory.\<close>  Sponge_Prelude: types, exceptions, lemmas on words and lists, and the locales
  \<open>guarded_machine\<close> (invariants of runs of guarded operations) and \<open>byte_channel\<close> (a bounded FIFO).

  \<^bold>\<open>The TCP core.\<close>
  \<^item> Byte_Stream: byte_stream.hh/.cc.  The stream is a bounded FIFO for every sequence of operations.
  \<^item> Wrapping_Integers: wrapping_integers.hh/.cc.  \<open>unwrap\<close> finds the number closest to the
    checkpoint (locale \<open>seqno_codec\<close>).
  \<^item> Stream_Reassembler: stream_reassembler.hh/.cc, with the ring buffer slot by slot.  It refines a
    partial map from indices to bytes; for pieces of one stream in any order that start inside the
    window, the output is a prefix of it, and ends exactly when it is complete and marked.
  \<^item> TCP_Segment, TCP_Receiver: the data of a segment; tcp_receiver.hh/.cc.  The receiver delivers a
    prefix of the stream of the peer, with the right window and, unless a bare FIN overtakes bytes,
    the right acknowledgment number.
  \<^item> TCP_Sender, Sender_Invariant: tcp_sender.hh/.cc.  In fair runs every segment is a piece of the written stream,
    the bytes in flight are counted exactly, \<open>fill_window\<close> sends as much as it may, and an
    acknowledgment drops exactly what it covers.
  \<^item> TCP_State, TCP_Connection, Connection_Streams: tcp_state.hh/.cc and tcp_connection.hh/.cc.  An
    invariant of fair runs, answers to segments, resets, giving up on a silent peer; both streams
    stay well formed even in unfair runs.
  \<^item> End_To_End: two connections over a network that loses, reorders and repeats segments; in fair runs
    what is read at one end is a prefix of what was written at the other.

  \<^bold>\<open>Wire formats.\<close>
  \<^item> Net_Buffer, Net_Parser, Internet_Checksum, Text_Format: buffer, parser, and the checksum and
    printing functions of util.  The locale \<open>wire_format\<close> is the contract of a parser and a
    serialiser.
  \<^item> TCP_Wire, IPv4, Ethernet, ARP_Message: the headers with \<open>parse\<close>, \<open>serialize\<close> and \<open>to_string\<close>; round
    trips, rejection of corrupted segments, and what is accepted although it should not be.

  \<^bold>\<open>The network layer.\<close>
  \<^item> Network_Interface: network_interface.hh/.cc.  Cache, timers, waiting datagrams and outgoing frames
    are consistent after any operations; an ARP exchange delivers; requests do not flood.
  \<^item> Router: router.hh/.cc.  The table gives the longest-prefix match; \<open>route\<close> ends and empties the
    queues.
  \<^item> TCP_Adapters: fd_adapter, tcp_over_ip, tuntap_adapter and lossy_fd_adapter over ideal media (locale
    \<open>segment_link\<close>): a segment crosses the stack unchanged.

  \<^bold>\<open>Input and output.\<close>
  \<^item> File_Descriptor, Sockets: file_descriptor, socket, address and tun of util.  Writing everything takes
    at most n + 1 calls of \<open>writev(2)\<close> for n bytes.
  \<^item> Event_Loop: eventloop.hh/.cc.  The locales \<open>event_inv\<close> and \<open>event_rules\<close> turn facts about callbacks
    into facts about runs of the loop; they are interpreted for every program that uses it.
  \<^item> Sponge_Socket, Full_Stack: tcp_sponge_socket.hh/.cc over any adapter, then over the adapters with
    their system calls, and the two socket classes with fixed addresses.  The socket only performs
    operations of its connection; a segment that one TAP device writes, in as many pieces as the
    kernel makes of it, is read back by the device of the peer.

  \<^bold>\<open>Programs.\<close>
  \<^item> Stream_Copy: bidirectional_stream_copy.cc.  Order and completeness of the copy.
  \<^item> Network_Simulator: network_simulator.cc, with its ten tests; \<open>Host::check\<close> compares multisets.
  \<^item> TCP_Benchmark: tcp_benchmark.cc; a run is one of two endpoints that exchange segments.
  \<^item> Lab7: lab7.cc; the two routers forward by destination at any time of a run.
  \<^item> Command_Line: the options of tcp_udp.cc, tcp_ipv4.cc and tcp_ip_ethernet.cc.
  \<^item> Packet_Dump: udp_tcpdump.cc; where the dissector reads out of bounds.
  \<^item> Applications: bouncer.cc (the relay equals a function of the history of receptions), tun.cc,
    webget.cc and tcp_native.cc.

  \<^bold>\<open>Bounds.\<close>  Streams in Sender_Invariant, TCP_Receiver and above have less than \<open>2 ^ 31\<close> bytes, since the
  code tells sequence numbers apart only within half of their range; capacities are at most
  \<open>2 ^ 63\<close>, so that the differences of the reassembler do not wrap; sizes handed to \<open>writev(2)\<close> are
  below \<open>2 ^ 63\<close>, the range of \<open>ssize_t\<close>.
  \<^bold>\<open>Fair runs.\<close>  Some theorems assume that certain things do not happen, because the code then does
  something else; lemmas show it on examples.  A segment or substring that starts beyond the window
  (\<open>beyond_window_stored\<close>), a bare FIN or an empty last substring that overtakes bytes
  (\<open>early_empty_eof\<close>, \<open>early_fin_acknowledged\<close>), an acknowledgment that takes back window, be it only
  because it is late (\<open>shrunk_window_overrun\<close>, \<open>stale_window_breaks_order\<close>), a segment without ACK whose
  unused acknowledgment field equals the next sequence number (\<open>fin_acked_without_ack\<close>), and writing
  after the end of a stream (\<open>write_after_end_accepted\<close>).  Each theorem names those it assumes.

  \<^bold>\<open>Not modelled.\<close>  The interleaving of threads: the loop of a thread is modelled, and \<open>TCPSpongeSocket\<close>
  and lab7 as far as one thread goes; the state they share is one atomic flag, whose value is an
  argument of each round.  For webget the two orders in which the main thread and the thread of the
  socket can use the shared descriptor at the end are both covered.  \<open>getaddrinfo(3)\<close>,
  \<open>getnameinfo(3)\<close> and libpcap: their answers are arguments.  The conversion of loss rates through
  floating point: an argument.  Usage texts and messages on the console, the measured time of the
  benchmark, and those lines of the \<open>main\<close> functions that only construct modelled objects, call
  modelled functions and print the exceptions.  The snippets in src/doctests, which are no part of
  the program.
\<close>

end
